(* ===== verification/Prelude.thy ===== *)
theory Prelude
  imports Main "HOL-Library.Word" "HOL-Library.List_Lexorder" "HOL-Library.Char_ord"
    "HOL-Library.Product_Lexorder"
begin

text \<open>
  Shared vocabulary of the development: the machine types of the Rust code, the string
  operations of the standard library the code uses (\<open>starts_with\<close>, \<open>split\<close>, \<open>rsplit_once\<close>,
  \<open>split_once\<close>, byte slicing with its panics, integer parsing and printing), the fold over steps
  that may panic, and the collections of simplification rules the component theories extend.

  A Rust \<open>String\<close> is its sequence of UTF-8 bytes, a HOL \<open>string\<close> (one \<open>char\<close> per byte). A panic
  is the value \<open>None\<close> of an option type.
\<close>

section \<open>Machine types\<close>

type_synonym u64 = "64 word"
type_synonym bytes = string
type_synonym timestamp = int \<comment> \<open>\<open>DateTime<Utc>\<close>, in nanoseconds since the epoch\<close>

named_theorems tree_simps \<open>lookups and updates of ordered trees\<close>
named_theorems tx_simps \<open>reads and writes inside the state machine transaction\<close>
named_theorems string_simps \<open>string operations of the standard library\<close>

section \<open>Folding steps that may panic\<close>

fun fold_opt :: "('a \<Rightarrow> 's \<Rightarrow> 's option) \<Rightarrow> 'a list \<Rightarrow> 's \<Rightarrow> 's option" where
  "fold_opt f [] s = Some s"
| "fold_opt f (x # xs) s = (case f x s of None \<Rightarrow> None | Some s' \<Rightarrow> fold_opt f xs s')"

lemma fold_opt_append:
  "fold_opt f (xs @ ys) s = (case fold_opt f xs s of None \<Rightarrow> None | Some s' \<Rightarrow> fold_opt f ys s')"
  by (induction xs arbitrary: s) (auto split: option.splits)

lemma fold_opt_invariant:
  assumes "fold_opt f xs s = Some s'" and "P s"
    and "\<And>x t t'. x \<in> set xs \<Longrightarrow> P t \<Longrightarrow> f x t = Some t' \<Longrightarrow> P t'"
  shows "P s'"
  using assms
proof (induction xs arbitrary: s)
  case Nil
  then show ?case by simp
next
  case (Cons x xs)
  then obtain t where t: "f x s = Some t" "fold_opt f xs t = Some s'" by (auto split: option.splits)
  show ?case
  proof (rule Cons.IH [OF t(2)])
    show "P t" using Cons.prems t by (meson list.set_intros(1))
    show "\<And>y u u'. y \<in> set xs \<Longrightarrow> P u \<Longrightarrow> f y u = Some u' \<Longrightarrow> P u'"
      using Cons.prems(3) by (meson list.set_intros(2))
  qed
qed

lemma fold_opt_total:
  assumes "\<And>x t. x \<in> set xs \<Longrightarrow> P t \<Longrightarrow> \<exists>t'. f x t = Some t' \<and> P t'" and "P s"
  shows "\<exists>s'. fold_opt f xs s = Some s' \<and> P s'"
  using assms
proof (induction xs arbitrary: s)
  case Nil
  then show ?case by simp
next
  case (Cons x xs)
  then obtain t where "f x s = Some t" and "P t" by (meson list.set_intros(1))
  with Cons show ?case by simp
qed

lemma fold_opt_Some_fold:
  "(\<And>x t. x \<in> set xs \<Longrightarrow> f x t = Some (g x t)) \<Longrightarrow> fold_opt f xs s = Some (fold g xs s)"
  by (induction xs arbitrary: s) auto

section \<open>Strings\<close>

definition starts_with :: "string \<Rightarrow> string \<Rightarrow> bool" where
  "starts_with p s \<longleftrightarrow> take (length p) s = p"

text \<open>\<open>str::split(char)\<close>: the pieces between the separators, never an empty list.\<close>

fun split_on :: "char \<Rightarrow> string \<Rightarrow> string list" where
  "split_on c [] = [[]]"
| "split_on c (x # xs) =
     (if x = c then [] # split_on c xs
      else (case split_on c xs of [] \<Rightarrow> [[x]] | p # ps \<Rightarrow> (x # p) # ps))"

text \<open>\<open>str::split_once(char)\<close> splits at the first separator, \<open>str::rsplit_once(char)\<close> at the last.\<close>

fun split_once :: "char \<Rightarrow> string \<Rightarrow> (string \<times> string) option" where
  "split_once c [] = None"
| "split_once c (x # xs) =
     (if x = c then Some ([], xs) else map_option (\<lambda>(a, b). (x # a, b)) (split_once c xs))"

definition rsplit_once :: "char \<Rightarrow> string \<Rightarrow> (string \<times> string) option" where
  "rsplit_once c s = map_option (\<lambda>(b, a). (rev a, rev b)) (split_once c (rev s))"

text \<open>\<open>&s[a..b]\<close> panics out of range and off a UTF-8 character boundary.\<close>

definition is_char_boundary :: "string \<Rightarrow> nat \<Rightarrow> bool" where
  "is_char_boundary s i \<longleftrightarrow>
     i = 0 \<or> i = length s \<or>
     (i < length s \<and> \<not> (128 \<le> (of_char (s ! i) :: nat) \<and> (of_char (s ! i) :: nat) < 192))"

definition str_slice :: "string \<Rightarrow> nat \<Rightarrow> nat \<Rightarrow> string option" where
  "str_slice s a b =
     (if a \<le> b \<and> b \<le> length s \<and> is_char_boundary s a \<and> is_char_boundary s b
      then Some (take (b - a) (drop a s)) else None)"

definition str_slice_from :: "string \<Rightarrow> nat \<Rightarrow> string option" where
  "str_slice_from s a = str_slice s a (length s)"

text \<open>\<open>[String]::join(sep)\<close> and the ASCII part of \<open>to_lowercase\<close>.\<close>

fun join :: "string \<Rightarrow> string list \<Rightarrow> string" where
  "join sep [] = []"
| "join sep [s] = s"
| "join sep (s # t # ss) = s @ sep @ join sep (t # ss)"

definition ascii_lower :: "string \<Rightarrow> string" where
  "ascii_lower s = map (\<lambda>c. if 65 \<le> (of_char c :: nat) \<and> (of_char c :: nat) \<le> 90
     then char_of ((of_char c :: nat) + 32) else c) s"

lemma starts_with_append [string_simps]: "starts_with p (p @ s)"
  by (simp add: starts_with_def)

lemma starts_with_iff: "starts_with p s \<longleftrightarrow> (\<exists>r. s = p @ r)"
  by (metis append_take_drop_id append_eq_conv_conj starts_with_def)

lemma split_on_nonempty [simp]: "split_on c s \<noteq> []"
  by (induction s) (auto split: list.splits)

lemma split_on_no_sep [string_simps]: "c \<notin> set s \<Longrightarrow> split_on c s = [s]"
  by (induction s) auto

lemma split_on_append_sep [string_simps]:
  "c \<notin> set a \<Longrightarrow> split_on c (a @ c # b) = a # split_on c b"
  by (induction a) auto

lemma split_on_pieces: "p \<in> set (split_on c s) \<Longrightarrow> c \<notin> set p"
  by (induction s arbitrary: p) (auto split: list.splits if_splits)

lemma split_on_hd_prefix: "\<exists>r. s = hd (split_on c s) @ r"
proof (induction s)
  case Nil
  then show ?case by simp
next
  case (Cons x s)
  then show ?case by (cases "split_on c s") auto
qed

lemma split_once_Some_iff:
  "split_once c s = Some (a, b) \<longleftrightarrow> s = a @ c # b \<and> c \<notin> set a"
proof (induction s arbitrary: a)
  case Nil
  then show ?case by simp
next
  case (Cons x s)
  then show ?case by (cases a) auto
qed

lemma split_once_None_iff: "split_once c s = None \<longleftrightarrow> c \<notin> set s"
  by (induction s) auto

lemma rsplit_once_Some_iff:
  "rsplit_once c s = Some (a, b) \<longleftrightarrow> s = a @ c # b \<and> c \<notin> set b"
proof -
  have "rsplit_once c s = Some (a, b) \<longleftrightarrow> split_once c (rev s) = Some (rev b, rev a)"
    by (auto simp: rsplit_once_def)
  also have "\<dots> \<longleftrightarrow> rev s = rev b @ c # rev a \<and> c \<notin> set b"
    by (simp add: split_once_Some_iff)
  also have "\<dots> \<longleftrightarrow> s = a @ c # b \<and> c \<notin> set b"
    using rev_swap [of s "rev b @ c # rev a"] by simp
  finally show ?thesis .
qed

lemma str_slice_Some:
  "str_slice s a b = Some r \<Longrightarrow> a \<le> b \<and> b \<le> length s \<and> r = take (b - a) (drop a s)"
  by (auto simp: str_slice_def split: if_splits)

section \<open>Decimal numbers\<close>

text \<open>\<open>u64::from_str\<close>: an optional plus sign, at least one digit, no overflow.\<close>

definition digit_value :: "char \<Rightarrow> nat option" where
  "digit_value c =
     (let n = of_char c :: nat in if 48 \<le> n \<and> n \<le> 57 then Some (n - 48) else None)"

fun parse_digits :: "nat \<Rightarrow> string \<Rightarrow> nat option" where
  "parse_digits n [] = Some n"
| "parse_digits n (c # cs) =
     (case digit_value c of None \<Rightarrow> None | Some d \<Rightarrow> parse_digits (10 * n + d) cs)"

definition parse_u64 :: "string \<Rightarrow> u64 option" where
  "parse_u64 s =
     (let ds = (case s of [] \<Rightarrow> [] | c # cs \<Rightarrow> if c = CHR ''+'' then cs else s)
      in if ds = [] then None
         else case parse_digits 0 ds of
           None \<Rightarrow> None
         | Some n \<Rightarrow> if n < 2 ^ 64 then Some (word_of_nat n) else None)"

text \<open>The decimal form of a \<open>Display\<close>ed unsigned integer.\<close>

fun nat_digits :: "nat \<Rightarrow> string" where
  "nat_digits n =
     (if n < 10 then [char_of (48 + n)] else nat_digits (n div 10) @ [char_of (48 + n mod 10)])"

declare nat_digits.simps [simp del]

definition show_u64 :: "u64 \<Rightarrow> string" where
  "show_u64 w = nat_digits (unat w)"

lemma digit_value_char_of: "d < 10 \<Longrightarrow> digit_value (char_of (48 + d)) = Some d"
  by (simp add: digit_value_def Let_def)

lemma parse_digits_append:
  "parse_digits n (xs @ ys) =
     (case parse_digits n xs of None \<Rightarrow> None | Some m \<Rightarrow> parse_digits m ys)"
  by (induction xs arbitrary: n) (auto split: option.splits)

lemma parse_nat_digits: "parse_digits 0 (nat_digits n) = Some n"
proof (induction n rule: nat_digits.induct)
  case (1 n)
  show ?case
  proof (cases "n < 10")
    case True
    then show ?thesis by (subst nat_digits.simps) (simp add: digit_value_char_of)
  next
    case False
    then have "parse_digits 0 (nat_digits (n div 10)) = Some (n div 10)" using "1.IH" by simp
    with False show ?thesis
      by (subst nat_digits.simps) (simp add: parse_digits_append digit_value_char_of)
  qed
qed

lemma nat_digits_nonempty: "nat_digits n \<noteq> []"
  by (subst nat_digits.simps) simp

lemma nat_digits_hd: "\<exists>d cs. d < (10::nat) \<and> nat_digits n = char_of (48 + d) # cs"
proof (induction n rule: nat_digits.induct)
  case (1 n)
  show ?case
  proof (cases "n < 10")
    case True
    then show ?thesis by (subst nat_digits.simps) auto
  next
    case False
    then obtain d cs where "d < (10::nat)" "nat_digits (n div 10) = char_of (48 + d) # cs"
      using "1.IH" by auto
    with False show ?thesis by (subst nat_digits.simps) auto
  qed
qed

lemma digit_char_not_plus: "d < (10::nat) \<Longrightarrow> char_of (48 + d) \<noteq> CHR ''+''"
proof
  assume "d < 10" and "char_of (48 + d) = CHR ''+''"
  then have "digit_value CHR ''+'' = Some d" using digit_value_char_of [of d] by simp
  then show False by (simp add: digit_value_def)
qed

lemma parse_show_u64: "parse_u64 (show_u64 w) = Some w"
proof -
  obtain d cs where d: "d < (10::nat)" "nat_digits (unat w) = char_of (48 + d) # cs"
    using nat_digits_hd by blast
  have "unat w < 2 ^ 64" using unsigned_less [of w] by simp
  with d parse_nat_digits [of "unat w"] digit_char_not_plus [of d] show ?thesis
    by (simp add: parse_u64_def show_u64_def)
qed

lemma parse_digits_chars:
  "parse_digits n s = Some m \<Longrightarrow> c \<in> set s \<Longrightarrow> digit_value c \<noteq> None"
  by (induction s arbitrary: n) (auto split: option.splits)

lemma show_u64_chars: "c \<in> set (show_u64 w) \<Longrightarrow> digit_value c \<noteq> None"
  using parse_digits_chars [OF parse_nat_digits] by (simp add: show_u64_def)

section \<open>Sets and sequences\<close>

text \<open>
  The iteration order of a \<open>HashSet\<close> is unspecified: a function from the set to one of its
  enumerations, constrained by this predicate only.
\<close>

definition hash_iter :: "('a set \<Rightarrow> 'a list) \<Rightarrow> bool" where
  "hash_iter it \<longleftrightarrow> (\<forall>A. finite A \<longrightarrow> set (it A) = A \<and> distinct (it A))"

lemma hash_iter_set [simp]: "hash_iter it \<Longrightarrow> finite A \<Longrightarrow> set (it A) = A"
  by (simp add: hash_iter_def)

lemma hash_iter_distinct: "hash_iter it \<Longrightarrow> finite A \<Longrightarrow> distinct (it A)"
  by (simp add: hash_iter_def)

lemma hash_iter_empty [simp]: "hash_iter it \<Longrightarrow> it {} = []"
  using hash_iter_set [of it "{}"] by (metis finite.emptyI set_empty)

lemma hash_iter_sorted: "hash_iter (sorted_list_of_set :: 'a::linorder set \<Rightarrow> 'a list)"
  by (simp add: hash_iter_def)

section \<open>Scans of sorted lists\<close>

lemma takeWhile_sorted_filter:
  assumes "sorted_wrt (\<lambda>x y. Q y \<longrightarrow> Q x) xs"
  shows "takeWhile Q xs = filter Q xs"
  using assms by (induction xs) (auto simp: filter_empty_conv)

end
