(* ===== verification/Trees.thy ===== *)
theory Trees
  imports Prelude
begin

text \<open>
  Ordered key/value trees: the \<open>BTreeMap\<close> of the standard library and the key order of a sled
  tree. A tree is its in-order list of bindings. The laws the store relies on are the locale
  \<open>ordered_tree\<close>; the store's own trees interpret it.
\<close>

section \<open>Trees as ordered lists of bindings\<close>

type_synonym ('k, 'v) tree = "('k \<times> 'v) list"

definition bt_get :: "('k, 'v) tree \<Rightarrow> 'k \<Rightarrow> 'v option" where
  "bt_get t k = map_of t k"

fun bt_insert :: "'k::linorder \<Rightarrow> 'v \<Rightarrow> ('k, 'v) tree \<Rightarrow> ('k, 'v) tree" where
  "bt_insert k v [] = [(k, v)]"
| "bt_insert k v (kv # t) =
     (if k < fst kv then (k, v) # kv # t
      else if fst kv = k then (k, v) # t
      else kv # bt_insert k v t)"

definition bt_remove :: "'k \<Rightarrow> ('k, 'v) tree \<Rightarrow> ('k, 'v) tree" where
  "bt_remove k t = [kv \<leftarrow> t. fst kv \<noteq> k]"

definition bt_wf :: "('k::linorder, 'v) tree \<Rightarrow> bool" where
  "bt_wf t \<longleftrightarrow> sorted_wrt (<) (map fst t)"

text \<open>A sled \<open>Batch\<close> applied in order, and a \<open>range(lo..)\<close> scan.\<close>

definition bt_insert_all :: "('k::linorder \<times> 'v) list \<Rightarrow> ('k, 'v) tree \<Rightarrow> ('k, 'v) tree" where
  "bt_insert_all kvs t = fold (\<lambda>(k, v). bt_insert k v) kvs t"

definition bt_remove_all :: "'k list \<Rightarrow> ('k, 'v) tree \<Rightarrow> ('k, 'v) tree" where
  "bt_remove_all ks t = fold bt_remove ks t"

definition bt_from :: "'k::linorder \<Rightarrow> ('k, 'v) tree \<Rightarrow> ('k, 'v) tree" where
  "bt_from lo t = [kv \<leftarrow> t. lo \<le> fst kv]"

section \<open>Lookups\<close>

lemma bt_get_empty [simp, tree_simps]: "bt_get [] k = None"
  by (simp add: bt_get_def)

lemma bt_get_Cons [simp, tree_simps]:
  "bt_get (kv # t) k = (if k = fst kv then Some (snd kv) else bt_get t k)"
  by (auto simp: bt_get_def)

lemma bt_get_insert [simp, tree_simps]:
  "bt_get (bt_insert k v t) k' = (if k' = k then Some v else bt_get t k')"
  by (induction t) (auto simp: bt_get_def)

lemma bt_get_remove [simp, tree_simps]:
  "bt_get (bt_remove k t) k' = (if k' = k then None else bt_get t k')"
  by (induction t) (auto simp: bt_get_def bt_remove_def)

lemma bt_insert_insert [simp, tree_simps]: "bt_insert k v (bt_insert k w t) = bt_insert k v t"
  by (induction t) auto

lemma bt_get_insert_all:
  "bt_get (bt_insert_all kvs t) k = (case map_of (rev kvs) k of None \<Rightarrow> bt_get t k | Some v \<Rightarrow> Some v)"
  by (induction kvs arbitrary: t)
    (auto simp: bt_insert_all_def map_add_def split: option.splits)

lemma bt_get_remove_all:
  "bt_get (bt_remove_all ks t) k = (if k \<in> set ks then None else bt_get t k)"
  by (induction ks arbitrary: t) (auto simp: bt_remove_all_def)

lemma bt_get_in_set: "bt_get t k = Some v \<Longrightarrow> (k, v) \<in> set t"
  by (simp add: bt_get_def map_of_SomeD)

lemma bt_get_None_iff: "bt_get t k = None \<longleftrightarrow> k \<notin> fst ` set t"
  by (simp add: bt_get_def map_of_eq_None_iff)

lemma bt_get_filter_key:
  "bt_get [kv \<leftarrow> t. P (fst kv)] k = (if P k then bt_get t k else None)"
  by (induction t) (auto simp: bt_get_def)

lemma dom_bt_get: "dom (bt_get t) = fst ` set t"
  by (simp add: bt_get_def [abs_def] dom_map_of_conv_image_fst)

lemma finite_dom_bt_get [simp]: "finite (dom (bt_get t))"
  by (simp add: dom_bt_get)

section \<open>Order\<close>

lemma bt_wf_empty [simp]: "bt_wf []"
  by (simp add: bt_wf_def)

lemma bt_wf_Cons:
  "bt_wf (kv # t) \<longleftrightarrow> (\<forall>k' \<in> fst ` set t. fst kv < k') \<and> bt_wf t"
  by (auto simp: bt_wf_def)

lemma keys_bt_insert: "fst ` set (bt_insert k v t) = insert k (fst ` set t)"
  by (induction t) auto

lemma bt_wf_insert [simp]: "bt_wf t \<Longrightarrow> bt_wf (bt_insert k v t)"
  by (induction t) (auto simp: bt_wf_Cons keys_bt_insert)

lemma bt_wf_filter: "bt_wf t \<Longrightarrow> bt_wf (filter P t)"
  by (induction t) (auto simp: bt_wf_Cons)

lemma bt_wf_remove [simp]: "bt_wf t \<Longrightarrow> bt_wf (bt_remove k t)"
  by (simp add: bt_remove_def bt_wf_filter)

lemma bt_wf_insert_all: "bt_wf t \<Longrightarrow> bt_wf (bt_insert_all kvs t)"
  by (induction kvs arbitrary: t) (auto simp: bt_insert_all_def)

lemma bt_wf_remove_all: "bt_wf t \<Longrightarrow> bt_wf (bt_remove_all ks t)"
  by (induction ks arbitrary: t) (auto simp: bt_remove_all_def)

lemma bt_wf_distinct: "bt_wf t \<Longrightarrow> distinct (map fst t)"
  by (simp add: bt_wf_def strict_sorted_iff)

lemma bt_wf_sorted: "bt_wf t \<Longrightarrow> sorted (map fst t)"
  unfolding bt_wf_def by (metis strict_sorted_iff)

lemma bt_get_iff: "bt_wf t \<Longrightarrow> bt_get t k = Some v \<longleftrightarrow> (k, v) \<in> set t"
  by (simp add: bt_get_def bt_wf_distinct)

lemma bt_get_from: "bt_wf t \<Longrightarrow> bt_get (bt_from lo t) k = (if lo \<le> k then bt_get t k else None)"
  by (induction t) (auto simp: bt_from_def bt_get_def bt_wf_Cons)

lemma bt_wf_from: "bt_wf t \<Longrightarrow> bt_wf (bt_from lo t)"
  by (simp add: bt_from_def bt_wf_filter)

text \<open>Two well-formed trees with the same lookups are the same list: iteration is canonical.\<close>

lemma bt_ext:
  assumes "bt_wf t" and "bt_wf u" and "\<And>k. bt_get t k = bt_get u k"
  shows "t = u"
proof -
  have eq: "set t = set u" using assms by (auto simp: set_eq_iff simp flip: bt_get_iff)
  show ?thesis
  proof (rule map_sorted_distinct_set_unique)
    show "inj_on fst (set t \<union> set u)"
      using bt_wf_distinct [OF assms(1)] eq by (simp add: distinct_map)
  qed (use assms eq in \<open>simp_all add: bt_wf_sorted bt_wf_distinct\<close>)
qed

lemma bt_insert_all_self:
  assumes "bt_wf t"
  shows "bt_insert_all t [] = t"
proof (rule bt_ext)
  have "map_of (rev t) = map_of t"
    using bt_wf_distinct [OF assms] by (subst map_of_inject_set) (simp_all add: rev_map [symmetric])
  then show "bt_get (bt_insert_all t []) k = bt_get t k" for k
    by (simp add: bt_get_insert_all) (simp add: bt_get_def split: option.splits)
qed (simp_all add: assms bt_wf_insert_all)

section \<open>The interface\<close>

text \<open>
  What a client of an ordered tree relies on: lookups after updates, an invariant every update
  keeps, and an iteration in key order that agrees with the lookups.
\<close>

locale ordered_tree =
  fixes get :: "'t \<Rightarrow> 'k::linorder \<Rightarrow> 'v option"
    and put :: "'k \<Rightarrow> 'v \<Rightarrow> 't \<Rightarrow> 't"
    and del :: "'k \<Rightarrow> 't \<Rightarrow> 't"
    and items :: "'t \<Rightarrow> ('k \<times> 'v) list"
    and invar :: "'t \<Rightarrow> bool"
  assumes get_put: "get (put k v t) k' = (if k' = k then Some v else get t k')"
    and get_del: "get (del k t) k' = (if k' = k then None else get t k')"
    and invar_put: "invar t \<Longrightarrow> invar (put k v t)"
    and invar_del: "invar t \<Longrightarrow> invar (del k t)"
    and items_get: "invar t \<Longrightarrow> map_of (items t) = get t"
    and items_order: "invar t \<Longrightarrow> sorted_wrt (<) (map fst (items t))"
begin

lemma items_distinct: "invar t \<Longrightarrow> distinct (map fst (items t))"
  using items_order strict_sorted_iff by blast

lemma items_iff: "invar t \<Longrightarrow> (k, v) \<in> set (items t) \<longleftrightarrow> get t k = Some v"
  using items_get items_distinct by (metis map_of_eq_Some_iff)

lemma items_canonical:
  assumes "invar t" and "invar u" and "\<And>k. get t k = get u k"
  shows "items t = items u"
proof (rule map_sorted_distinct_set_unique)
  show "inj_on fst (set (items t) \<union> set (items u))"
    using assms by (auto simp: inj_on_def items_iff)
  show "sorted (map fst (items t))" "distinct (map fst (items t))"
    and "sorted (map fst (items u))" "distinct (map fst (items u))"
    using assms items_order items_distinct strict_sorted_iff by blast+
  show "set (items t) = set (items u)" using assms by (auto simp: items_iff)
qed

lemma items_put_put:
  assumes "invar t"
  shows "items (put k v (put k w t)) = items (put k v t)"
  using assms by (intro items_canonical) (auto simp: invar_put get_put)

lemma items_put_commute:
  assumes "invar t" and "k \<noteq> l"
  shows "items (put k v (put l w t)) = items (put l w (put k v t))"
  using assms by (intro items_canonical) (auto simp: invar_put get_put)

lemma items_del_put:
  assumes "invar t"
  shows "items (del k (put k v t)) = items (del k t)"
  using assms by (intro items_canonical) (auto simp: invar_put invar_del get_put get_del)

end

interpretation bt: ordered_tree bt_get bt_insert bt_remove "\<lambda>t. t" bt_wf
proof unfold_locales
  show "map_of t = bt_get t" for t :: "('k \<times> 'v) list"
    by (simp add: bt_get_def [abs_def])
qed (simp_all add: bt_wf_def [symmetric])

end
