(* ===== verification/Registry_Types.thy ===== *)
theory Registry_Types
  imports Trees
begin

text \<open>
  The data model of \<^verbatim>\<open>src/types/\<close>: digests and repository names with their parsers and printers
  (which are also their serde forms), tag keys, the blob and manifest rows, and the registry
  actions the raft log replicates. The derived orders are the lexicographic ones of the fields.
\<close>

section \<open>Digests\<close>

datatype digest = Digest (algo: string) (hash: string)

text \<open>
  \<open>Digest::from_sha256\<close> prints the raw hash with \<open>HEXLOWER\<close> of the data-encoding package, here the
  parameter \<open>hexlower\<close>.
\<close>

definition from_sha256 :: "(bytes \<Rightarrow> string) \<Rightarrow> bytes \<Rightarrow> digest" where
  "from_sha256 hexlower raw = Digest ''sha256'' (hexlower raw)"

text \<open>\<open>Display\<close>, and through it \<open>From<Digest> for String\<close>.\<close>

definition digest_to_string :: "digest \<Rightarrow> string" where
  "digest_to_string d = algo d @ '':'' @ hash d"

text \<open>
  \<open>FromStr\<close> and \<open>TryFrom<String>\<close>: \<open>None\<close> is the panic of an \<open>unwrap\<close> on an exhausted iterator,
  \<open>Inl\<close> the returned error.
\<close>

definition digest_from_str :: "string \<Rightarrow> (unit + digest) option" where
  "digest_from_str s =
     (if \<not> starts_with ''sha256:'' s then Some (Inl ())
      else case split_on CHR '':'' s of
        a # h # _ \<Rightarrow> Some (Inr (Digest a h))
      | _ \<Rightarrow> None)"

definition digest_try_from :: "string \<Rightarrow> (string + digest) option" where
  "digest_try_from s =
     (if \<not> starts_with ''sha256:'' s then Some (Inl ''Not a sha256'')
      else case split_on CHR '':'' s of
        a # h # _ \<Rightarrow> Some (Inr (Digest a h))
      | _ \<Rightarrow> None)"

text \<open>A digest that a parser or a hash produced.\<close>

definition digest_wf :: "digest \<Rightarrow> bool" where
  "digest_wf d \<longleftrightarrow> algo d = ''sha256'' \<and> CHR '':'' \<notin> set (hash d)"

lemma split_sha256: "split_on CHR '':'' (''sha256:'' @ r) = ''sha256'' # split_on CHR '':'' r"
  by simp

lemma digest_from_str_cases:
  "digest_from_str s =
     (if starts_with ''sha256:'' s
      then Some (Inr (Digest ''sha256'' (hd (split_on CHR '':'' (drop 7 s)))))
      else Some (Inl ()))"
proof (cases "starts_with ''sha256:'' s")
  case True
  then obtain r where r: "s = ''sha256:'' @ r" by (auto simp: starts_with_iff)
  show ?thesis
    unfolding digest_from_str_def r split_sha256
    by (cases "split_on CHR '':'' r") (simp_all add: starts_with_append)
qed (simp add: digest_from_str_def)

lemma digest_try_from_cases:
  "digest_try_from s =
     (if starts_with ''sha256:'' s
      then Some (Inr (Digest ''sha256'' (hd (split_on CHR '':'' (drop 7 s)))))
      else Some (Inl ''Not a sha256''))"
  using digest_from_str_cases [of s]
  by (auto simp: digest_from_str_def digest_try_from_def split: list.splits)

lemma hd_split_no_sep: "c \<notin> set (hd (split_on c s))"
  by (meson list.set_sel(1) split_on_nonempty split_on_pieces)

lemma digest_from_str_wf: "digest_from_str s = Some (Inr d) \<Longrightarrow> digest_wf d"
  by (auto simp: digest_from_str_cases digest_wf_def hd_split_no_sep split: if_splits)

lemma digest_from_str_print:
  "digest_wf d \<Longrightarrow> digest_from_str (digest_to_string d) = Some (Inr d)"
  by (cases d) (simp add: digest_from_str_def digest_to_string_def digest_wf_def starts_with_def
      split_on_no_sep)

lemma digest_try_from_print:
  "digest_wf d \<Longrightarrow> digest_try_from (digest_to_string d) = Some (Inr d)"
  by (cases d) (simp add: digest_try_from_def digest_to_string_def digest_wf_def starts_with_def
      split_on_no_sep)

lemma digest_to_string_inj:
  "digest_wf d \<Longrightarrow> digest_wf e \<Longrightarrow> digest_to_string d = digest_to_string e \<Longrightarrow> d = e"
  by (metis digest_from_str_print option.inject sum.inject(2))

lemma from_sha256_wf: "CHR '':'' \<notin> set (hexlower raw) \<Longrightarrow> digest_wf (from_sha256 hexlower raw)"
  by (simp add: from_sha256_def digest_wf_def)

text \<open>The derived order compares \<open>algo\<close>, then \<open>hash\<close>, bytewise.\<close>

instantiation digest :: linorder
begin

definition less_eq_digest :: "digest \<Rightarrow> digest \<Rightarrow> bool" where
  "less_eq_digest d e \<longleftrightarrow> (algo d, hash d) \<le> (algo e, hash e)"

definition less_digest :: "digest \<Rightarrow> digest \<Rightarrow> bool" where
  "less_digest d e \<longleftrightarrow> (algo d, hash d) < (algo e, hash e)"

instance
proof
  fix d e f :: digest
  show "(d < e) = (d \<le> e \<and> \<not> e \<le> d)"
    unfolding less_digest_def less_eq_digest_def by (rule less_le_not_le)
  show "d \<le> d" by (simp add: less_eq_digest_def)
  show "d \<le> e \<Longrightarrow> e \<le> f \<Longrightarrow> d \<le> f"
    unfolding less_eq_digest_def by (rule order_trans)
  show "d \<le> e \<Longrightarrow> e \<le> d \<Longrightarrow> d = e"
    unfolding less_eq_digest_def
    by (metis antisym digest.expand prod.inject)
  show "d \<le> e \<or> e \<le> d"
    unfolding less_eq_digest_def by (rule linear)
qed

end

section \<open>Repository names and tag keys\<close>

datatype repository_name = RepositoryName (repo_name: string)

definition repository_name_from_str :: "string \<Rightarrow> unit + repository_name" where
  "repository_name_from_str s = Inr (RepositoryName s)"

definition repository_name_try_from :: "string \<Rightarrow> string + repository_name" where
  "repository_name_try_from s = Inr (RepositoryName s)"

definition repository_name_to_string :: "repository_name \<Rightarrow> string" where
  "repository_name_to_string r = repo_name r"

instantiation repository_name :: linorder
begin

definition less_eq_repository_name :: "repository_name \<Rightarrow> repository_name \<Rightarrow> bool" where
  "less_eq_repository_name r s \<longleftrightarrow> repo_name r \<le> repo_name s"

definition less_repository_name :: "repository_name \<Rightarrow> repository_name \<Rightarrow> bool" where
  "less_repository_name r s \<longleftrightarrow> repo_name r < repo_name s"

instance
  by standard
    (auto simp: less_eq_repository_name_def less_repository_name_def repository_name.expand)

end

datatype tag_key = TagKey (tk_repository: repository_name) (tk_tag: string)

instantiation tag_key :: linorder
begin

definition less_eq_tag_key :: "tag_key \<Rightarrow> tag_key \<Rightarrow> bool" where
  "less_eq_tag_key k l \<longleftrightarrow> (tk_repository k, tk_tag k) \<le> (tk_repository l, tk_tag l)"

definition less_tag_key :: "tag_key \<Rightarrow> tag_key \<Rightarrow> bool" where
  "less_tag_key k l \<longleftrightarrow> (tk_repository k, tk_tag k) < (tk_repository l, tk_tag l)"

instance
proof
  fix k l m :: tag_key
  show "(k < l) = (k \<le> l \<and> \<not> l \<le> k)"
    unfolding less_tag_key_def less_eq_tag_key_def by (rule less_le_not_le)
  show "k \<le> k" by (simp add: less_eq_tag_key_def)
  show "k \<le> l \<Longrightarrow> l \<le> m \<Longrightarrow> k \<le> m"
    unfolding less_eq_tag_key_def by (rule order_trans)
  show "k \<le> l \<Longrightarrow> l \<le> k \<Longrightarrow> k = l"
    unfolding less_eq_tag_key_def
    by (metis antisym tag_key.expand prod.inject)
  show "k \<le> l \<or> l \<le> k"
    unfolding less_eq_tag_key_def by (rule linear)
qed

end

section \<open>Blob and manifest rows\<close>

text \<open>
  \<open>Blob\<close> and \<open>Manifest\<close> have the same fields; both are this record. A \<open>HashSet\<close> field is a set.
\<close>

record obj =
  obj_size :: "u64 option"
  content_type :: "string option"
  dependencies :: "digest list option"
  repositories :: "repository_name set"
  locations :: "u64 set"
  created :: timestamp
  updated :: timestamp

type_synonym blob = obj
type_synonym manifest = obj

section \<open>Actions\<close>

datatype registry_action =
    Empty
  | BlobStored timestamp digest u64 string
  | BlobUnstored timestamp digest u64 string
  | BlobMounted timestamp digest repository_name string
  | BlobUnmounted timestamp digest repository_name string
  | BlobInfo timestamp digest "digest list" string
  | BlobStat timestamp digest u64
  | ManifestStored timestamp digest u64 string
  | ManifestUnstored timestamp digest u64 string
  | ManifestMounted timestamp digest repository_name string
  | ManifestUnmounted timestamp digest repository_name string
  | ManifestInfo timestamp digest "digest list" string
  | ManifestStat timestamp digest u64
  | HashTagged timestamp digest repository_name string string

end
