(* ===== verification/State_Actions.thy ===== *)
theory State_Actions
  imports Registry_Types
begin

text \<open>
  The state machine part of \<^verbatim>\<open>src/store/mod.rs\<close>: the sled trees of blobs, manifests and tags, the
  transactional reads and writes, and the effect of each registry action inside the transaction of
  \<open>apply_to_state_machine\<close>. The blob and manifest halves of the code are two instances of one
  contract, the locale \<open>object_actions\<close>.

  A sled tree of rows is an ordered tree keyed by the decoded key; bincode and sled are taken to
  return what was written, and their storage errors do not occur. A panic of an \<open>unwrap\<close> on a
  missing row is \<open>None\<close>.
\<close>

section \<open>Raft data the store keeps\<close>

record log_id =
  li_term :: u64
  li_node :: u64
  li_index :: u64

text \<open>openraft's membership: the voter configurations and the address of every node.\<close>

datatype membership = Membership (configs: "u64 set list") (nodes: "(u64, string) tree")

record stored_membership =
  sm_log_id :: "log_id option"
  sm_membership :: membership

definition default_membership :: stored_membership where
  "default_membership = \<lparr>sm_log_id = None, sm_membership = Membership [] []\<rparr>"

record db =
  blobs :: "(digest, blob) tree"
  manifests :: "(digest, manifest) tree"
  tags :: "(tag_key, digest) tree"
  db_last_applied :: "log_id option"
  db_last_membership :: "stored_membership option"

definition empty_db :: db where
  "empty_db = \<lparr>blobs = [], manifests = [], tags = [],
     db_last_applied = None, db_last_membership = None\<rparr>"

definition get_last_membership :: "db \<Rightarrow> stored_membership" where
  "get_last_membership s =
     (case db_last_membership s of Some m \<Rightarrow> m | None \<Rightarrow> default_membership)"

definition set_last_membership_tx :: "stored_membership \<Rightarrow> db \<Rightarrow> db" where
  "set_last_membership_tx m s = s\<lparr>db_last_membership := Some m\<rparr>"

definition get_last_applied_log :: "db \<Rightarrow> log_id option" where
  "get_last_applied_log s = db_last_applied s"

definition set_last_applied_log_tx :: "log_id \<Rightarrow> db \<Rightarrow> db" where
  "set_last_applied_log_tx i s = s\<lparr>db_last_applied := Some i\<rparr>"

section \<open>Transactional reads and writes\<close>

definition tx_get_blob :: "db \<Rightarrow> digest \<Rightarrow> blob option" where
  "tx_get_blob s d = bt_get (blobs s) d"

definition tx_put_blob :: "db \<Rightarrow> digest \<Rightarrow> blob \<Rightarrow> db" where
  "tx_put_blob s d b = s\<lparr>blobs := bt_insert d b (blobs s)\<rparr>"

definition tx_del_blob :: "db \<Rightarrow> digest \<Rightarrow> db" where
  "tx_del_blob s d = s\<lparr>blobs := bt_remove d (blobs s)\<rparr>"

definition tx_get_manifest :: "db \<Rightarrow> digest \<Rightarrow> manifest option" where
  "tx_get_manifest s d = bt_get (manifests s) d"

definition tx_put_manifest :: "db \<Rightarrow> digest \<Rightarrow> manifest \<Rightarrow> db" where
  "tx_put_manifest s d b = s\<lparr>manifests := bt_insert d b (manifests s)\<rparr>"

definition tx_del_manifest :: "db \<Rightarrow> digest \<Rightarrow> db" where
  "tx_del_manifest s d = s\<lparr>manifests := bt_remove d (manifests s)\<rparr>"

definition tx_put_tag :: "db \<Rightarrow> repository_name \<Rightarrow> string \<Rightarrow> digest \<Rightarrow> db" where
  "tx_put_tag s r t d = s\<lparr>tags := bt_insert (TagKey r t) d (tags s)\<rparr>"

definition get_tag :: "db \<Rightarrow> repository_name \<Rightarrow> string \<Rightarrow> digest option" where
  "get_tag s r t = bt_get (tags s) (TagKey r t)"

lemmas [tx_simps] = tx_get_blob_def tx_put_blob_def tx_del_blob_def
  tx_get_manifest_def tx_put_manifest_def tx_del_manifest_def tx_put_tag_def get_tag_def
  set_last_applied_log_tx_def set_last_membership_tx_def
  get_last_applied_log_def get_last_membership_def

section \<open>The arms of the transaction\<close>

subsection \<open>Blobs\<close>

definition apply_blob_stored :: "timestamp \<Rightarrow> digest \<Rightarrow> u64 \<Rightarrow> db \<Rightarrow> db option" where
  "apply_blob_stored ts d loc s =
     (case tx_get_blob s d of
        None \<Rightarrow> None
      | Some b \<Rightarrow> Some (tx_put_blob s d (b\<lparr>updated := ts, locations := insert loc (locations b)\<rparr>)))"

definition apply_blob_unstored :: "timestamp \<Rightarrow> digest \<Rightarrow> u64 \<Rightarrow> db \<Rightarrow> db" where
  "apply_blob_unstored ts d loc s =
     (case tx_get_blob s d of
        None \<Rightarrow> s
      | Some b \<Rightarrow>
          (let b' = b\<lparr>updated := ts, locations := locations b - {loc}\<rparr>
           in if locations b' = {} then tx_del_blob s d else tx_put_blob s d b'))"

definition new_blob :: "timestamp \<Rightarrow> blob" where
  "new_blob ts = \<lparr>obj_size = None, content_type = None, dependencies = Some [],
     repositories = {}, locations = {}, created = ts, updated = ts\<rparr>"

definition apply_blob_mounted :: "timestamp \<Rightarrow> digest \<Rightarrow> repository_name \<Rightarrow> db \<Rightarrow> db" where
  "apply_blob_mounted ts d r s =
     (let b = (case tx_get_blob s d of Some b \<Rightarrow> b | None \<Rightarrow> new_blob ts)
      in tx_put_blob s d (b\<lparr>updated := ts, repositories := insert r (repositories b)\<rparr>))"

definition apply_blob_unmounted :: "timestamp \<Rightarrow> digest \<Rightarrow> repository_name \<Rightarrow> db \<Rightarrow> db" where
  "apply_blob_unmounted ts d r s =
     (case tx_get_blob s d of
        None \<Rightarrow> s
      | Some b \<Rightarrow> tx_put_blob s d (b\<lparr>updated := ts, repositories := repositories b - {r}\<rparr>))"

definition apply_blob_info ::
  "timestamp \<Rightarrow> digest \<Rightarrow> digest list \<Rightarrow> string \<Rightarrow> db \<Rightarrow> db" where
  "apply_blob_info ts d deps ct s =
     (case tx_get_blob s d of
        None \<Rightarrow> s
      | Some b \<Rightarrow>
          tx_put_blob s d (b\<lparr>updated := ts, dependencies := Some deps, content_type := Some ct\<rparr>))"

definition apply_blob_stat :: "timestamp \<Rightarrow> digest \<Rightarrow> u64 \<Rightarrow> db \<Rightarrow> db" where
  "apply_blob_stat ts d sz s =
     (case tx_get_blob s d of
        None \<Rightarrow> s
      | Some b \<Rightarrow> tx_put_blob s d (b\<lparr>updated := ts, obj_size := Some sz\<rparr>))"

subsection \<open>Manifests\<close>

definition apply_manifest_stored :: "timestamp \<Rightarrow> digest \<Rightarrow> u64 \<Rightarrow> db \<Rightarrow> db option" where
  "apply_manifest_stored ts d loc s =
     (case tx_get_manifest s d of
        None \<Rightarrow> None
      | Some m \<Rightarrow>
          Some (tx_put_manifest s d (m\<lparr>updated := ts, locations := insert loc (locations m)\<rparr>)))"

definition apply_manifest_unstored :: "timestamp \<Rightarrow> digest \<Rightarrow> u64 \<Rightarrow> db \<Rightarrow> db" where
  "apply_manifest_unstored ts d loc s =
     (case tx_get_manifest s d of
        None \<Rightarrow> s
      | Some m \<Rightarrow>
          (let m' = m\<lparr>updated := ts, locations := locations m - {loc}\<rparr>
           in if locations m' = {} then tx_del_manifest s d else tx_put_manifest s d m'))"

definition new_manifest :: "timestamp \<Rightarrow> manifest" where
  "new_manifest ts = \<lparr>obj_size = None, content_type = None, dependencies = Some [],
     repositories = {}, locations = {}, created = ts, updated = ts\<rparr>"

definition apply_manifest_mounted :: "timestamp \<Rightarrow> digest \<Rightarrow> repository_name \<Rightarrow> db \<Rightarrow> db" where
  "apply_manifest_mounted ts d r s =
     (let m = (case tx_get_manifest s d of Some m \<Rightarrow> m | None \<Rightarrow> new_manifest ts)
      in tx_put_manifest s d (m\<lparr>updated := ts, repositories := insert r (repositories m)\<rparr>))"

definition apply_manifest_unmounted ::
  "timestamp \<Rightarrow> digest \<Rightarrow> repository_name \<Rightarrow> db \<Rightarrow> db" where
  "apply_manifest_unmounted ts d r s =
     (case tx_get_manifest s d of
        None \<Rightarrow> s
      | Some m \<Rightarrow> tx_put_manifest s d (m\<lparr>updated := ts, repositories := repositories m - {r}\<rparr>))"

definition apply_manifest_info ::
  "timestamp \<Rightarrow> digest \<Rightarrow> digest list \<Rightarrow> string \<Rightarrow> db \<Rightarrow> db" where
  "apply_manifest_info ts d deps ct s =
     (case tx_get_manifest s d of
        None \<Rightarrow> s
      | Some m \<Rightarrow>
          tx_put_manifest s d (m\<lparr>updated := ts, dependencies := Some deps, content_type := Some ct\<rparr>))"

definition apply_manifest_stat :: "timestamp \<Rightarrow> digest \<Rightarrow> u64 \<Rightarrow> db \<Rightarrow> db" where
  "apply_manifest_stat ts d sz s =
     (case tx_get_manifest s d of
        None \<Rightarrow> s
      | Some m \<Rightarrow> tx_put_manifest s d (m\<lparr>updated := ts, obj_size := Some sz\<rparr>))"

subsection \<open>Tags, and the match on the action\<close>

definition apply_hash_tagged :: "digest \<Rightarrow> repository_name \<Rightarrow> string \<Rightarrow> db \<Rightarrow> db" where
  "apply_hash_tagged d r t s = tx_put_tag s r t d"

fun apply_action :: "registry_action \<Rightarrow> db \<Rightarrow> db option" where
  "apply_action Empty s = Some s"
| "apply_action (BlobStored ts d loc user) s = apply_blob_stored ts d loc s"
| "apply_action (BlobUnstored ts d loc user) s = Some (apply_blob_unstored ts d loc s)"
| "apply_action (BlobMounted ts d r user) s = Some (apply_blob_mounted ts d r s)"
| "apply_action (BlobUnmounted ts d r user) s = Some (apply_blob_unmounted ts d r s)"
| "apply_action (BlobInfo ts d deps ct) s = Some (apply_blob_info ts d deps ct s)"
| "apply_action (BlobStat ts d sz) s = Some (apply_blob_stat ts d sz s)"
| "apply_action (ManifestStored ts d loc user) s = apply_manifest_stored ts d loc s"
| "apply_action (ManifestUnstored ts d loc user) s = Some (apply_manifest_unstored ts d loc s)"
| "apply_action (ManifestMounted ts d r user) s = Some (apply_manifest_mounted ts d r s)"
| "apply_action (ManifestUnmounted ts d r user) s = Some (apply_manifest_unmounted ts d r s)"
| "apply_action (ManifestInfo ts d deps ct) s = Some (apply_manifest_info ts d deps ct s)"
| "apply_action (ManifestStat ts d sz) s = Some (apply_manifest_stat ts d sz s)"
| "apply_action (HashTagged ts d r t user) s = Some (apply_hash_tagged d r t s)"

definition apply_actions :: "registry_action list \<Rightarrow> db \<Rightarrow> db option" where
  "apply_actions as s = fold_opt apply_action as s"

end
