(* ===== verification/State_Laws.thy ===== *)
theory State_Laws
  imports State_Actions
begin

text \<open>
  What the transaction's arms do, row by row. The specification \<open>row_step\<close> is the life of one blob
  or manifest row; the locale \<open>object_actions\<close> shows once, for both halves of the code, that every
  arm is a step of the row it names and leaves all other rows alone. From it: when a transaction
  panics, which invariant it keeps, that repeating an action changes nothing, and that actions on
  different objects commute.
\<close>

section \<open>The life of a row\<close>

datatype row_op =
    Store u64 | Unstore u64
  | Mount repository_name | Unmount repository_name
  | Info "digest list" string | Stat u64

definition fresh_row :: "timestamp \<Rightarrow> obj" where
  "fresh_row ts = \<lparr>obj_size = None, content_type = None, dependencies = Some [],
     repositories = {}, locations = {}, created = ts, updated = ts\<rparr>"

fun row_update :: "row_op \<Rightarrow> obj \<Rightarrow> obj" where
  "row_update (Store n) b = b\<lparr>locations := insert n (locations b)\<rparr>"
| "row_update (Unstore n) b = b\<lparr>locations := locations b - {n}\<rparr>"
| "row_update (Mount r) b = b\<lparr>repositories := insert r (repositories b)\<rparr>"
| "row_update (Unmount r) b = b\<lparr>repositories := repositories b - {r}\<rparr>"
| "row_update (Info ds c) b = b\<lparr>dependencies := Some ds, content_type := Some c\<rparr>"
| "row_update (Stat n) b = b\<lparr>obj_size := Some n\<rparr>"

definition creates_row :: "row_op \<Rightarrow> bool" where
  "creates_row op \<longleftrightarrow> (\<exists>r. op = Mount r)"

definition drops_row :: "row_op \<Rightarrow> obj \<Rightarrow> bool" where
  "drops_row op b \<longleftrightarrow> (\<exists>n. op = Unstore n \<and> locations b \<subseteq> {n})"

text \<open>A row appears when it is mounted and disappears when its last copy is unstored.\<close>

definition row_step :: "timestamp \<Rightarrow> row_op \<Rightarrow> obj option \<Rightarrow> obj option" where
  "row_step ts op row =
     (case row of
        None \<Rightarrow> if creates_row op then Some (row_update op (fresh_row ts)) else None
      | Some b \<Rightarrow> if drops_row op b then None else Some (row_update op (b\<lparr>updated := ts\<rparr>)))"

lemma creates_row_simps [simp]:
  "\<not> creates_row (Store n)" "\<not> creates_row (Unstore n)" "creates_row (Mount r)"
  "\<not> creates_row (Unmount r)" "\<not> creates_row (Info ds c)" "\<not> creates_row (Stat n)"
  by (auto simp: creates_row_def)

lemma drops_row_simps [simp]:
  "\<not> drops_row (Store n) b" "drops_row (Unstore n) b \<longleftrightarrow> locations b \<subseteq> {n}"
  "\<not> drops_row (Mount r) b" "\<not> drops_row (Unmount r) b" "\<not> drops_row (Info ds c) b"
  "\<not> drops_row (Stat n) b"
  by (auto simp: drops_row_def)

definition row_wf :: "obj \<Rightarrow> bool" where
  "row_wf b \<longleftrightarrow> finite (repositories b) \<and> finite (locations b) \<and> dependencies b \<noteq> None"

lemma row_step_wf:
  "(\<And>b. row = Some b \<Longrightarrow> row_wf b) \<Longrightarrow> row_step ts op row = Some b' \<Longrightarrow> row_wf b'"
  by (cases op) (auto simp: row_step_def row_wf_def fresh_row_def split: option.splits if_splits)

lemma row_step_idem: "row_step ts op (row_step ts op row) = row_step ts op row"
  by (cases op) (auto simp: row_step_def fresh_row_def split: option.splits)

lemma row_step_created: "row_step ts op (Some b) = Some b' \<Longrightarrow> created b' = created b"
  by (cases op) (auto simp: row_step_def split: if_splits)

section \<open>The contract of the blob and manifest halves\<close>

locale object_tx =
  fixes get :: "'s \<Rightarrow> digest \<Rightarrow> obj option"
    and put :: "'s \<Rightarrow> digest \<Rightarrow> obj \<Rightarrow> 's"
    and del :: "'s \<Rightarrow> digest \<Rightarrow> 's"
  assumes get_put: "get (put s d b) e = (if e = d then Some b else get s e)"
    and get_del: "get (del s d) e = (if e = d then None else get s e)"
    and put_put: "put (put s d b) d c = put s d c"

text \<open>
  The six kinds of arms over the rows. \<open>stored\<close> is partial: the code unwraps the row.
\<close>

locale object_actions = object_tx get put del
  for get :: "'s \<Rightarrow> digest \<Rightarrow> obj option" and put del +
  fixes stored :: "timestamp \<Rightarrow> digest \<Rightarrow> u64 \<Rightarrow> 's \<Rightarrow> 's option"
    and unstored :: "timestamp \<Rightarrow> digest \<Rightarrow> u64 \<Rightarrow> 's \<Rightarrow> 's"
    and mounted :: "timestamp \<Rightarrow> digest \<Rightarrow> repository_name \<Rightarrow> 's \<Rightarrow> 's"
    and unmounted :: "timestamp \<Rightarrow> digest \<Rightarrow> repository_name \<Rightarrow> 's \<Rightarrow> 's"
    and info :: "timestamp \<Rightarrow> digest \<Rightarrow> digest list \<Rightarrow> string \<Rightarrow> 's \<Rightarrow> 's"
    and stat :: "timestamp \<Rightarrow> digest \<Rightarrow> u64 \<Rightarrow> 's \<Rightarrow> 's"
  assumes stored_missing: "get s d = None \<Longrightarrow> stored ts d n s = None"
    and stored_row: "get s d = Some b \<Longrightarrow>
      stored ts d n s = Some (put s d (row_update (Store n) (b\<lparr>updated := ts\<rparr>)))"
    and unstored_missing: "get s d = None \<Longrightarrow> unstored ts d n s = s"
    and unstored_last: "get s d = Some b \<Longrightarrow> locations b \<subseteq> {n} \<Longrightarrow> unstored ts d n s = del s d"
    and unstored_row: "get s d = Some b \<Longrightarrow> \<not> locations b \<subseteq> {n} \<Longrightarrow>
      unstored ts d n s = put s d (row_update (Unstore n) (b\<lparr>updated := ts\<rparr>))"
    and mounted_missing: "get s d = None \<Longrightarrow>
      mounted ts d r s = put s d (row_update (Mount r) (fresh_row ts))"
    and mounted_row: "get s d = Some b \<Longrightarrow>
      mounted ts d r s = put s d (row_update (Mount r) (b\<lparr>updated := ts\<rparr>))"
    and unmounted_missing: "get s d = None \<Longrightarrow> unmounted ts d r s = s"
    and unmounted_row: "get s d = Some b \<Longrightarrow>
      unmounted ts d r s = put s d (row_update (Unmount r) (b\<lparr>updated := ts\<rparr>))"
    and info_missing: "get s d = None \<Longrightarrow> info ts d deps c s = s"
    and info_row: "get s d = Some b \<Longrightarrow>
      info ts d deps c s = put s d (row_update (Info deps c) (b\<lparr>updated := ts\<rparr>))"
    and stat_missing: "get s d = None \<Longrightarrow> stat ts d n s = s"
    and stat_row: "get s d = Some b \<Longrightarrow>
      stat ts d n s = put s d (row_update (Stat n) (b\<lparr>updated := ts\<rparr>))"
begin

lemma stored_None_iff: "stored ts d n s = None \<longleftrightarrow> get s d = None"
  by (cases "get s d") (simp_all add: stored_missing stored_row)

lemma get_stored:
  "stored ts d n s = Some s' \<Longrightarrow>
   get s' e = (if e = d then row_step ts (Store n) (get s d) else get s e)"
  by (cases "get s d") (auto simp: stored_missing stored_row get_put row_step_def)

lemma get_unstored:
  "get (unstored ts d n s) e = (if e = d then row_step ts (Unstore n) (get s d) else get s e)"
proof (cases "get s d")
  case (Some b)
  then show ?thesis
    by (cases "locations b \<subseteq> {n}")
      (simp_all add: unstored_last unstored_row get_put get_del row_step_def)
qed (simp add: unstored_missing row_step_def)

lemma get_mounted:
  "get (mounted ts d r s) e = (if e = d then row_step ts (Mount r) (get s d) else get s e)"
  by (cases "get s d") (simp_all add: mounted_missing mounted_row get_put row_step_def)

lemma get_unmounted:
  "get (unmounted ts d r s) e = (if e = d then row_step ts (Unmount r) (get s d) else get s e)"
  by (cases "get s d") (simp_all add: unmounted_missing unmounted_row get_put row_step_def)

lemma get_info:
  "get (info ts d deps c s) e = (if e = d then row_step ts (Info deps c) (get s d) else get s e)"
  by (cases "get s d") (simp_all add: info_missing info_row get_put row_step_def)

lemma get_stat:
  "get (stat ts d n s) e = (if e = d then row_step ts (Stat n) (get s d) else get s e)"
  by (cases "get s d") (simp_all add: stat_missing stat_row get_put row_step_def)

lemmas get_rows = get_stored get_unstored get_mounted get_unmounted get_info get_stat

text \<open>An arm that meets the row another arm has just written; repeating an arm changes nothing.\<close>

lemma stored_put:
  "stored ts d n (put s d c) = Some (put s d (row_update (Store n) (c\<lparr>updated := ts\<rparr>)))"
  by (subst stored_row [of _ _ c]) (simp_all add: get_put put_put)

lemma mounted_put:
  "mounted ts d r (put s d c) = put s d (row_update (Mount r) (c\<lparr>updated := ts\<rparr>))"
  by (subst mounted_row [of _ _ c]) (simp_all add: get_put put_put)

lemma unmounted_put:
  "unmounted ts d r (put s d c) = put s d (row_update (Unmount r) (c\<lparr>updated := ts\<rparr>))"
  by (subst unmounted_row [of _ _ c]) (simp_all add: get_put put_put)

lemma info_put:
  "info ts d deps t (put s d c) = put s d (row_update (Info deps t) (c\<lparr>updated := ts\<rparr>))"
  by (subst info_row [of _ _ c]) (simp_all add: get_put put_put)

lemma stat_put:
  "stat ts d n (put s d c) = put s d (row_update (Stat n) (c\<lparr>updated := ts\<rparr>))"
  by (subst stat_row [of _ _ c]) (simp_all add: get_put put_put)

lemma unstored_put:
  "\<not> locations c \<subseteq> {n} \<Longrightarrow>
   unstored ts d n (put s d c) = put s d (row_update (Unstore n) (c\<lparr>updated := ts\<rparr>))"
  by (subst unstored_row [of _ _ c]) (simp_all add: get_put put_put)

lemmas arm_put = stored_put mounted_put unmounted_put info_put stat_put unstored_put

lemma stored_idem: "stored ts d n s = Some s' \<Longrightarrow> stored ts d n s' = Some s'"
  by (cases "get s d") (auto simp: stored_missing stored_row arm_put)

lemma unstored_idem: "unstored ts d n (unstored ts d n s) = unstored ts d n s"
proof (cases "get s d")
  case (Some b)
  then show ?thesis
  proof (cases "locations b \<subseteq> {n}")
    case False
    then have "\<not> locations b - {n} \<subseteq> {n}" by auto
    with Some False show ?thesis by (simp add: unstored_row [of s d b] arm_put)
  qed (simp add: unstored_last unstored_missing [of "del s d"] get_del)
qed (simp add: unstored_missing)

lemma mounted_idem: "mounted ts d r (mounted ts d r s) = mounted ts d r s"
  by (cases "get s d") (simp_all add: mounted_missing mounted_row arm_put fresh_row_def)

lemma unmounted_idem: "unmounted ts d r (unmounted ts d r s) = unmounted ts d r s"
  by (cases "get s d") (simp_all add: unmounted_missing unmounted_row arm_put)

lemma info_idem: "info ts d deps c (info ts d deps c s) = info ts d deps c s"
  by (cases "get s d") (simp_all add: info_missing info_row arm_put)

lemma stat_idem: "stat ts d n (stat ts d n s) = stat ts d n s"
  by (cases "get s d") (simp_all add: stat_missing stat_row arm_put)

lemmas idem = stored_idem unstored_idem mounted_idem unmounted_idem info_idem stat_idem

end

lemma locations_minus_empty: "(A - {x} = {}) \<longleftrightarrow> A \<subseteq> {x}"
  by auto

interpretation blob: object_actions tx_get_blob tx_put_blob tx_del_blob
  apply_blob_stored apply_blob_unstored apply_blob_mounted apply_blob_unmounted
  apply_blob_info apply_blob_stat
  by unfold_locales
    (simp_all add: tx_simps apply_blob_stored_def apply_blob_unstored_def apply_blob_mounted_def
      apply_blob_unmounted_def apply_blob_info_def apply_blob_stat_def new_blob_def fresh_row_def
      locations_minus_empty)

interpretation manifest: object_actions tx_get_manifest tx_put_manifest tx_del_manifest
  apply_manifest_stored apply_manifest_unstored apply_manifest_mounted apply_manifest_unmounted
  apply_manifest_info apply_manifest_stat
  by unfold_locales
    (simp_all add: tx_simps apply_manifest_stored_def apply_manifest_unstored_def
      apply_manifest_mounted_def apply_manifest_unmounted_def apply_manifest_info_def
      apply_manifest_stat_def new_manifest_def fresh_row_def locations_minus_empty)

end
