(* ===== verification/State_Spec.thy ===== *)
theory State_Spec
  imports State_Laws
begin

text \<open>
  The contract of the replicated state machine. A registry is three finite maps (blob rows,
  manifest rows, tags); an action updates one key of one map, and fails only when a copy is
  recorded for a row that does not exist. \<open>abs_db\<close> forgets how the trees store the rows, and the
  transaction of the code is exactly the specification under it.
\<close>

section \<open>The abstract registry\<close>

record registry_spec =
  sp_blobs :: "digest \<Rightarrow> obj option"
  sp_manifests :: "digest \<Rightarrow> obj option"
  sp_tags :: "tag_key \<Rightarrow> digest option"

datatype spec_update =
    NoUpdate
  | OnBlob digest timestamp row_op
  | OnManifest digest timestamp row_op
  | OnTag tag_key digest

fun action_update :: "registry_action \<Rightarrow> spec_update" where
  "action_update Empty = NoUpdate"
| "action_update (BlobStored ts d n u) = OnBlob d ts (Store n)"
| "action_update (BlobUnstored ts d n u) = OnBlob d ts (Unstore n)"
| "action_update (BlobMounted ts d r u) = OnBlob d ts (Mount r)"
| "action_update (BlobUnmounted ts d r u) = OnBlob d ts (Unmount r)"
| "action_update (BlobInfo ts d deps c) = OnBlob d ts (Info deps c)"
| "action_update (BlobStat ts d n) = OnBlob d ts (Stat n)"
| "action_update (ManifestStored ts d n u) = OnManifest d ts (Store n)"
| "action_update (ManifestUnstored ts d n u) = OnManifest d ts (Unstore n)"
| "action_update (ManifestMounted ts d r u) = OnManifest d ts (Mount r)"
| "action_update (ManifestUnmounted ts d r u) = OnManifest d ts (Unmount r)"
| "action_update (ManifestInfo ts d deps c) = OnManifest d ts (Info deps c)"
| "action_update (ManifestStat ts d n) = OnManifest d ts (Stat n)"
| "action_update (HashTagged ts d r t u) = OnTag (TagKey r t) d"

definition row_try :: "timestamp \<Rightarrow> row_op \<Rightarrow> obj option \<Rightarrow> obj option option" where
  "row_try ts op row = (if (\<exists>n. op = Store n) \<and> row = None then None else Some (row_step ts op row))"

fun spec_apply :: "spec_update \<Rightarrow> registry_spec \<Rightarrow> registry_spec option" where
  "spec_apply NoUpdate A = Some A"
| "spec_apply (OnBlob d ts op) A =
     map_option (\<lambda>r. A\<lparr>sp_blobs := (sp_blobs A)(d := r)\<rparr>) (row_try ts op (sp_blobs A d))"
| "spec_apply (OnManifest d ts op) A =
     map_option (\<lambda>r. A\<lparr>sp_manifests := (sp_manifests A)(d := r)\<rparr>) (row_try ts op (sp_manifests A d))"
| "spec_apply (OnTag k d) A = Some (A\<lparr>sp_tags := (sp_tags A)(k := Some d)\<rparr>)"

definition spec_action :: "registry_action \<Rightarrow> registry_spec \<Rightarrow> registry_spec option" where
  "spec_action a A = spec_apply (action_update a) A"

definition abs_db :: "db \<Rightarrow> registry_spec" where
  "abs_db s = \<lparr>sp_blobs = tx_get_blob s, sp_manifests = tx_get_manifest s, sp_tags = bt_get (tags s)\<rparr>"

section \<open>Frames\<close>

text \<open>What each arm leaves alone.\<close>

lemma blob_arms_frame:
  "apply_blob_stored ts d n s = Some s' \<Longrightarrow>
     manifests s' = manifests s \<and> tags s' = tags s \<and>
     db_last_applied s' = db_last_applied s \<and> db_last_membership s' = db_last_membership s"
  "manifests (apply_blob_unstored ts d n s) = manifests s"
  "tags (apply_blob_unstored ts d n s) = tags s"
  "manifests (apply_blob_mounted ts d r s) = manifests s"
  "tags (apply_blob_mounted ts d r s) = tags s"
  "manifests (apply_blob_unmounted ts d r s) = manifests s"
  "tags (apply_blob_unmounted ts d r s) = tags s"
  "manifests (apply_blob_info ts d deps c s) = manifests s"
  "tags (apply_blob_info ts d deps c s) = tags s"
  "manifests (apply_blob_stat ts d n s) = manifests s"
  "tags (apply_blob_stat ts d n s) = tags s"
  by (auto simp: apply_blob_stored_def apply_blob_unstored_def apply_blob_mounted_def
      apply_blob_unmounted_def apply_blob_info_def apply_blob_stat_def tx_simps Let_def
      split: option.splits)

lemma manifest_arms_frame:
  "apply_manifest_stored ts d n s = Some s' \<Longrightarrow>
     blobs s' = blobs s \<and> tags s' = tags s \<and>
     db_last_applied s' = db_last_applied s \<and> db_last_membership s' = db_last_membership s"
  "blobs (apply_manifest_unstored ts d n s) = blobs s"
  "tags (apply_manifest_unstored ts d n s) = tags s"
  "blobs (apply_manifest_mounted ts d r s) = blobs s"
  "tags (apply_manifest_mounted ts d r s) = tags s"
  "blobs (apply_manifest_unmounted ts d r s) = blobs s"
  "tags (apply_manifest_unmounted ts d r s) = tags s"
  "blobs (apply_manifest_info ts d deps c s) = blobs s"
  "tags (apply_manifest_info ts d deps c s) = tags s"
  "blobs (apply_manifest_stat ts d n s) = blobs s"
  "tags (apply_manifest_stat ts d n s) = tags s"
  by (auto simp: apply_manifest_stored_def apply_manifest_unstored_def apply_manifest_mounted_def
      apply_manifest_unmounted_def apply_manifest_info_def apply_manifest_stat_def tx_simps Let_def
      split: option.splits)

lemma tag_arm_frame:
  "blobs (apply_hash_tagged d r t s) = blobs s"
  "manifests (apply_hash_tagged d r t s) = manifests s"
  "tags (apply_hash_tagged d r t s) = bt_insert (TagKey r t) d (tags s)"
  by (simp_all add: apply_hash_tagged_def tx_put_tag_def)

lemma apply_action_raft_frame:
  "apply_action a s = Some s' \<Longrightarrow>
   db_last_applied s' = db_last_applied s \<and> db_last_membership s' = db_last_membership s"
  by (cases a)
    (auto simp: apply_blob_stored_def apply_blob_unstored_def apply_blob_mounted_def
      apply_blob_unmounted_def apply_blob_info_def apply_blob_stat_def
      apply_manifest_stored_def apply_manifest_unstored_def apply_manifest_mounted_def
      apply_manifest_unmounted_def apply_manifest_info_def apply_manifest_stat_def
      apply_hash_tagged_def tx_simps Let_def split: option.splits)

lemmas arms_frame = blob_arms_frame manifest_arms_frame tag_arm_frame

section \<open>The transaction refines the specification\<close>

lemma abs_eqI:
  "tx_get_blob s = sp_blobs A \<Longrightarrow> tx_get_manifest s = sp_manifests A \<Longrightarrow>
   bt_get (tags s) = sp_tags A \<Longrightarrow> abs_db s = A"
  by (cases A) (simp add: abs_db_def)

lemma abs_sel [simp]:
  "sp_blobs (abs_db s) = tx_get_blob s" "sp_manifests (abs_db s) = tx_get_manifest s"
  "sp_tags (abs_db s) = bt_get (tags s)"
  by (simp_all add: abs_db_def)

lemma row_try_simps [simp]:
  "row_try ts (Unstore n) row = Some (row_step ts (Unstore n) row)"
  "row_try ts (Mount r) row = Some (row_step ts (Mount r) row)"
  "row_try ts (Unmount r) row = Some (row_step ts (Unmount r) row)"
  "row_try ts (Info deps c) row = Some (row_step ts (Info deps c) row)"
  "row_try ts (Stat n) row = Some (row_step ts (Stat n) row)"
  "row_try ts (Store n) None = None"
  "row_try ts (Store n) (Some b) = Some (row_step ts (Store n) (Some b))"
  by (simp_all add: row_try_def)

lemma tx_get_blob_frame: "blobs t = blobs s \<Longrightarrow> tx_get_blob t = tx_get_blob s"
  by (simp add: tx_get_blob_def fun_eq_iff)

lemma tx_get_manifest_frame: "manifests t = manifests s \<Longrightarrow> tx_get_manifest t = tx_get_manifest s"
  by (simp add: tx_get_manifest_def fun_eq_iff)

lemma blob_stored_refines:
  "map_option abs_db (apply_blob_stored ts d n s) = spec_apply (OnBlob d ts (Store n)) (abs_db s)"
proof (cases "tx_get_blob s d")
  case (Some b)
  then obtain s' where s': "apply_blob_stored ts d n s = Some s'"
    using blob.stored_None_iff [of ts d n s] by auto
  have "abs_db s' = (abs_db s)\<lparr>sp_blobs := (tx_get_blob s)(d := row_step ts (Store n) (Some b))\<rparr>"
    using blob.get_stored [OF s'] Some blob_arms_frame(1) [OF s']
    by (intro abs_eqI) (auto simp: fun_eq_iff tx_get_manifest_def)
  with s' Some show ?thesis by simp
qed (simp add: blob.stored_missing)

lemma manifest_stored_refines:
  "map_option abs_db (apply_manifest_stored ts d n s) =
     spec_apply (OnManifest d ts (Store n)) (abs_db s)"
proof (cases "tx_get_manifest s d")
  case (Some b)
  then obtain s' where s': "apply_manifest_stored ts d n s = Some s'"
    using manifest.stored_None_iff [of ts d n s] by auto
  have "abs_db s' =
      (abs_db s)\<lparr>sp_manifests := (tx_get_manifest s)(d := row_step ts (Store n) (Some b))\<rparr>"
    using manifest.get_stored [OF s'] Some manifest_arms_frame(1) [OF s']
    by (intro abs_eqI) (auto simp: fun_eq_iff tx_get_blob_def)
  with s' Some show ?thesis by simp
qed (simp add: manifest.stored_missing)

lemma apply_action_spec: "map_option abs_db (apply_action a s) = spec_action a (abs_db s)"
proof (cases a)
  case (BlobStored ts d n u)
  then show ?thesis using blob_stored_refines by (simp add: spec_action_def)
next
  case (ManifestStored ts d n u)
  then show ?thesis using manifest_stored_refines by (simp add: spec_action_def)
qed (simp_all add: spec_action_def,
  auto intro!: abs_eqI simp: fun_eq_iff blob.get_rows manifest.get_rows
    tx_get_blob_def [of "apply_manifest_unstored _ _ _ _"]
    tx_get_blob_def [of "apply_manifest_mounted _ _ _ _"]
    tx_get_blob_def [of "apply_manifest_unmounted _ _ _ _"]
    tx_get_blob_def [of "apply_manifest_info _ _ _ _ _"]
    tx_get_blob_def [of "apply_manifest_stat _ _ _ _"]
    tx_get_blob_def [of "apply_hash_tagged _ _ _ _"]
    tx_get_manifest_def [of "apply_blob_unstored _ _ _ _"]
    tx_get_manifest_def [of "apply_blob_mounted _ _ _ _"]
    tx_get_manifest_def [of "apply_blob_unmounted _ _ _ _"]
    tx_get_manifest_def [of "apply_blob_info _ _ _ _ _"]
    tx_get_manifest_def [of "apply_blob_stat _ _ _ _"]
    tx_get_manifest_def [of "apply_hash_tagged _ _ _ _"]
    arms_frame tx_get_blob_def [of s] tx_get_manifest_def [of s])

lemma apply_actions_spec:
  "map_option abs_db (apply_actions as s) = fold_opt spec_action as (abs_db s)"
proof (induction as arbitrary: s)
  case Nil
  then show ?case by (simp add: apply_actions_def)
next
  case (Cons a as)
  have "spec_action a (abs_db s) = map_option abs_db (apply_action a s)"
    by (simp add: apply_action_spec)
  with Cons show ?case by (simp add: apply_actions_def split: option.splits)
qed

section \<open>The invariant of the trees\<close>

definition db_wf :: "db \<Rightarrow> bool" where
  "db_wf s \<longleftrightarrow> bt_wf (blobs s) \<and> bt_wf (manifests s) \<and> bt_wf (tags s) \<and>
     (\<forall>d b. tx_get_blob s d = Some b \<longrightarrow> row_wf b) \<and>
     (\<forall>d m. tx_get_manifest s d = Some m \<longrightarrow> row_wf m)"

lemma db_wf_empty [simp]: "db_wf empty_db"
  by (simp add: db_wf_def empty_db_def tx_get_blob_def tx_get_manifest_def)

lemma db_wf_blob: "db_wf s \<Longrightarrow> tx_get_blob s d = Some b \<Longrightarrow> row_wf b"
  by (simp add: db_wf_def)

lemma db_wf_manifest: "db_wf s \<Longrightarrow> tx_get_manifest s d = Some b \<Longrightarrow> row_wf b"
  by (simp add: db_wf_def)

lemma db_wf_raft [simp]:
  "db_wf (set_last_applied_log_tx i s) \<longleftrightarrow> db_wf s"
  "db_wf (set_last_membership_tx m s) \<longleftrightarrow> db_wf s"
  by (simp_all add: db_wf_def tx_simps)

lemma apply_action_trees_wf:
  assumes "apply_action a s = Some s'" and "bt_wf (blobs s)" "bt_wf (manifests s)" "bt_wf (tags s)"
  shows "bt_wf (blobs s') \<and> bt_wf (manifests s') \<and> bt_wf (tags s')"
  using assms
  by (cases a)
    (auto simp: apply_blob_stored_def apply_blob_unstored_def apply_blob_mounted_def
      apply_blob_unmounted_def apply_blob_info_def apply_blob_stat_def
      apply_manifest_stored_def apply_manifest_unstored_def apply_manifest_mounted_def
      apply_manifest_unmounted_def apply_manifest_info_def apply_manifest_stat_def
      apply_hash_tagged_def tx_simps Let_def split: option.splits)

definition spec_wf :: "registry_spec \<Rightarrow> bool" where
  "spec_wf A \<longleftrightarrow> (\<forall>d b. sp_blobs A d = Some b \<longrightarrow> row_wf b) \<and>
     (\<forall>d m. sp_manifests A d = Some m \<longrightarrow> row_wf m)"

lemma row_try_wf:
  "row_try ts op row = Some (Some b) \<Longrightarrow> (\<And>c. row = Some c \<Longrightarrow> row_wf c) \<Longrightarrow> row_wf b"
  by (metis option.distinct(1) option.inject row_step_wf row_try_def)

lemma spec_action_wf:
  assumes "spec_action a A = Some B" and "spec_wf A"
  shows "spec_wf B"
proof (cases "action_update a")
  case (OnBlob d ts op)
  then show ?thesis using assms
    by (auto simp: spec_action_def spec_wf_def split: if_splits) (meson row_try_wf)
next
  case (OnManifest d ts op)
  then show ?thesis using assms
    by (auto simp: spec_action_def spec_wf_def split: if_splits) (meson row_try_wf)
qed (use assms in \<open>auto simp: spec_action_def spec_wf_def\<close>)

lemma apply_action_wf:
  assumes "apply_action a s = Some s'" and "db_wf s"
  shows "db_wf s'"
proof -
  have "spec_wf (abs_db s)" using assms(2) by (simp add: db_wf_def spec_wf_def)
  moreover have "spec_action a (abs_db s) = Some (abs_db s')"
    using apply_action_spec [of a s] assms(1) by simp
  ultimately have "spec_wf (abs_db s')" by (rule spec_action_wf [rotated])
  then show ?thesis using apply_action_trees_wf [OF assms(1)] assms(2)
    by (simp add: db_wf_def spec_wf_def)
qed

lemma apply_actions_wf_aux: "apply_actions as s = Some s' \<Longrightarrow> db_wf s \<Longrightarrow> db_wf s'"
  unfolding apply_actions_def by (rule fold_opt_invariant) (auto intro: apply_action_wf)

lemma db_eqI:
  assumes "db_wf s" and "db_wf t" and "abs_db s = abs_db t"
    and "db_last_applied s = db_last_applied t" and "db_last_membership s = db_last_membership t"
  shows "s = t"
proof -
  have "blobs s = blobs t" "manifests s = manifests t" "tags s = tags t"
    using assms(1-3) by (auto intro!: bt_ext
        simp: abs_db_def db_wf_def fun_eq_iff tx_get_blob_def tx_get_manifest_def)
  with assms(4,5) show ?thesis by simp
qed

section \<open>Repetition and order\<close>

lemma apply_action_idem: "apply_action a s = Some s' \<Longrightarrow> apply_action a s' = Some s'"
  by (cases a)
    (auto simp: blob.idem manifest.idem apply_hash_tagged_def tx_put_tag_def)

datatype action_key = BlobKey digest | ManifestKey digest | TagsKey tag_key

fun update_key :: "spec_update \<Rightarrow> action_key option" where
  "update_key NoUpdate = None"
| "update_key (OnBlob d ts op) = Some (BlobKey d)"
| "update_key (OnManifest d ts op) = Some (ManifestKey d)"
| "update_key (OnTag k d) = Some (TagsKey k)"

definition action_key :: "registry_action \<Rightarrow> action_key option" where
  "action_key a = update_key (action_update a)"

lemma spec_apply_commute:
  assumes "update_key u \<noteq> update_key v"
  shows "Option.bind (spec_apply u A) (spec_apply v) = Option.bind (spec_apply v A) (spec_apply u)"
  using assms
  by (cases u; cases v)
    (auto simp: fun_upd_twist split: option.splits bind_splits)

lemma apply_action_commute_aux:
  assumes wf: "db_wf s" and key: "action_key a \<noteq> action_key b"
  shows "Option.bind (apply_action a s) (apply_action b) =
    Option.bind (apply_action b s) (apply_action a)" (is "?l = ?r")
proof -
  have abs: "map_option abs_db (Option.bind (apply_action x s) (apply_action y)) =
      Option.bind (spec_action x (abs_db s)) (spec_action y)" for x y
    using apply_action_spec [of x s, symmetric] apply_action_spec [of y]
    by (cases "apply_action x s") auto
  have "map_option abs_db ?l = map_option abs_db ?r"
    unfolding abs using spec_apply_commute [OF key [unfolded action_key_def]]
    by (simp add: spec_action_def [abs_def])
  moreover have "db_wf t \<and> db_last_applied t = db_last_applied s \<and>
      db_last_membership t = db_last_membership s"
    if "Option.bind (apply_action x s) (apply_action y) = Some t" for x y t
  proof -
    from that obtain u where u: "apply_action x s = Some u" "apply_action y u = Some t"
      by (auto simp: bind_eq_Some_conv)
    then show ?thesis
      using apply_action_raft_frame [OF u(1)] apply_action_raft_frame [OF u(2)]
        apply_action_wf [OF u(2) apply_action_wf [OF u(1) wf]] by simp
  qed
  ultimately show ?thesis
    by (cases ?l; cases ?r) (auto intro: db_eqI)
qed

section \<open>Properties of the transaction\<close>

text \<open>
  C4. The transaction's effect on any list of registry actions is exactly the specification's: row
  by row, tag by tag, it produces the specified registry, and it panics exactly when the
  specification fails (a copy recorded for a row that does not exist).
\<close>

theorem apply_actions_refine:
  "map_option abs_db (apply_actions as s) = fold_opt spec_action as (abs_db s)"
  by (rule apply_actions_spec)

text \<open>
  Applying the same action a second time changes nothing: a write that raft delivers again, or
  that a node submits twice, is harmless.
\<close>

theorem apply_action_idempotent:
  "Option.bind (apply_action a s) (apply_action a) = apply_action a s"
  by (cases "apply_action a s") (auto dest: apply_action_idem)

text \<open>
  Two actions that update different objects (different blob rows, manifest rows or tags)
  commute, up to equality of the stored trees: their order in the log does not matter.
\<close>

theorem apply_action_commute:
  assumes "db_wf s" and "action_key a \<noteq> action_key b"
  shows "Option.bind (apply_action a s) (apply_action b) =
    Option.bind (apply_action b s) (apply_action a)"
  using assms by (rule apply_action_commute_aux)

theorem apply_action_commute_witness:
  "Option.bind (apply_action (BlobMounted 1 (Digest ''sha256'' ''aa'') (RepositoryName ''r'') ''u'') empty_db)
     (apply_action (HashTagged 2 (Digest ''sha256'' ''bb'') (RepositoryName ''r'') ''t'' ''u'')) =
   Option.bind (apply_action (HashTagged 2 (Digest ''sha256'' ''bb'') (RepositoryName ''r'') ''t'' ''u'') empty_db)
     (apply_action (BlobMounted 1 (Digest ''sha256'' ''aa'') (RepositoryName ''r'') ''u''))"
  by (rule apply_action_commute) (simp_all add: action_key_def)

end
