(* ===== verification/State_Machine.thy ===== *)
theory State_Machine
  imports State_Spec
begin

text \<open>
  \<open>apply_to_state_machine\<close> of \<^verbatim>\<open>src/store/mod.rs\<close>: the transaction over a batch of log entries, and
  the pass after it that refreshes the sets of objects this node still has to download and wakes
  the requests that wait for one. A oneshot channel is a number; \<open>gone\<close> holds the channels whose
  receiver has been dropped (the request was cancelled), \<open>woken\<close> those that were sent to, \<open>failed\<close>
  those whose sender was dropped unsent. Sending to a dropped receiver is an error, and the code
  unwraps it. \<open>channel\<close> numbers the pair of watch channels that publish the pending sets: replacing
  the state machine makes a new pair and closes the old one.
\<close>

section \<open>Log entries\<close>

datatype registry_request = Transaction (actions: "registry_action list")

record registry_response =
  response_value :: u64

datatype entry_payload = Blank | Normal registry_request | MembershipChange membership

record entry =
  entry_log_id :: log_id
  payload :: entry_payload

definition entry_actions :: "entry \<Rightarrow> registry_action list" where
  "entry_actions e = (case payload e of Normal (Transaction as) \<Rightarrow> as | _ \<Rightarrow> [])"

definition apply_entry ::
  "entry \<Rightarrow> db \<times> registry_response list \<Rightarrow> (db \<times> registry_response list) option" where
  "apply_entry e sr =
     (let s = set_last_applied_log_tx (entry_log_id e) (fst sr);
          r = \<lparr>response_value = li_index (entry_log_id e)\<rparr>
      in case payload e of
           Blank \<Rightarrow> Some (s, snd sr @ [r])
         | Normal (Transaction as) \<Rightarrow>
             (case apply_actions as s of None \<Rightarrow> None | Some s' \<Rightarrow> Some (s', snd sr @ [r]))
         | MembershipChange m \<Rightarrow>
             Some (set_last_membership_tx
               \<lparr>sm_log_id = Some (entry_log_id e), sm_membership = m\<rparr> s, snd sr @ [r]))"

definition apply_transaction :: "entry list \<Rightarrow> db \<Rightarrow> (db \<times> registry_response list) option" where
  "apply_transaction es s = fold_opt apply_entry es (s, [])"

section \<open>The store\<close>

record registry_store =
  store_id :: u64
  sm_db :: db
  pending_blobs :: "digest set"
  pending_manifests :: "digest set"
  blob_waiters :: "digest \<Rightarrow> nat list option"
  manifest_waiters :: "digest \<Rightarrow> nat list option"
  woken :: "nat set"
  gone :: "nat set"
  failed :: "nat set"
  channel :: nat

definition get_blob :: "registry_store \<Rightarrow> digest \<Rightarrow> blob option" where
  "get_blob st d = bt_get (blobs (sm_db st)) d"

definition get_manifest :: "registry_store \<Rightarrow> digest \<Rightarrow> manifest option" where
  "get_manifest st d = bt_get (manifests (sm_db st)) d"

text \<open>Rows that other nodes hold and this node does not.\<close>

definition wanted :: "u64 \<Rightarrow> obj \<Rightarrow> bool" where
  "wanted i b \<longleftrightarrow> i \<notin> locations b \<and> locations b \<noteq> {}"

definition pending_of :: "u64 \<Rightarrow> (digest, obj) tree \<Rightarrow> digest set" where
  "pending_of i t = fst ` set [kv \<leftarrow> t. wanted i (snd kv)]"

definition new_store :: "u64 \<Rightarrow> db \<Rightarrow> registry_store" where
  "new_store i s = \<lparr>store_id = i, sm_db = s,
     pending_blobs = pending_of i (blobs s), pending_manifests = pending_of i (manifests s),
     blob_waiters = Map.empty, manifest_waiters = Map.empty, woken = {}, gone = {},
     failed = {}, channel = 0\<rparr>"

section \<open>After the transaction\<close>

definition refresh_pending :: "u64 \<Rightarrow> obj option \<Rightarrow> digest \<Rightarrow> digest set \<Rightarrow> digest set" where
  "refresh_pending i row d P =
     (case row of
        None \<Rightarrow> P
      | Some b \<Rightarrow> if i \<notin> locations b \<and> locations b \<noteq> {} then insert d P else P - {d})"

definition send_all :: "nat list \<Rightarrow> registry_store \<Rightarrow> registry_store option" where
  "send_all ns st =
     fold_opt (\<lambda>n st. if n \<in> gone st then None else Some (st\<lparr>woken := insert n (woken st)\<rparr>)) ns st"

definition wake_blob :: "digest \<Rightarrow> registry_store \<Rightarrow> registry_store option" where
  "wake_blob d st =
     (case blob_waiters st d of
        None \<Rightarrow> Some st
      | Some ns \<Rightarrow> send_all ns (st\<lparr>blob_waiters := (blob_waiters st)(d := None)\<rparr>))"

definition wake_manifest :: "digest \<Rightarrow> registry_store \<Rightarrow> registry_store option" where
  "wake_manifest d st =
     (case manifest_waiters st d of
        None \<Rightarrow> Some st
      | Some ns \<Rightarrow> send_all ns (st\<lparr>manifest_waiters := (manifest_waiters st)(d := None)\<rparr>))"

text \<open>
  One action of the second pass. The two pending sets are the local copies of the code; they are
  published only when the whole pass has ended.
\<close>

fun notify_action ::
  "registry_action \<Rightarrow> digest set \<times> digest set \<times> registry_store \<Rightarrow>
     (digest set \<times> digest set \<times> registry_store) option" where
  "notify_action (BlobStored ts d loc u) (pb, pm, st) =
     (let pb' = refresh_pending (store_id st) (get_blob st d) d pb
      in if loc = store_id st
         then map_option (\<lambda>st'. (pb', pm, st')) (wake_blob d st)
         else Some (pb', pm, st))"
| "notify_action (BlobUnstored ts d loc u) (pb, pm, st) =
     Some (refresh_pending (store_id st) (get_blob st d) d pb, pm, st)"
| "notify_action (ManifestStored ts d loc u) (pb, pm, st) =
     (let pm' = refresh_pending (store_id st) (get_manifest st d) d pm
      in if loc = store_id st
         then map_option (\<lambda>st'. (pb, pm', st')) (wake_manifest d st)
         else Some (pb, pm', st))"
| "notify_action (ManifestUnstored ts d loc u) (pb, pm, st) =
     Some (pb, refresh_pending (store_id st) (get_manifest st d) d pm, st)"
| "notify_action _ (pb, pm, st) = Some (pb, pm, st)"

definition notify_entries :: "entry list \<Rightarrow> registry_store \<Rightarrow> registry_store option" where
  "notify_entries es st =
     (case fold_opt notify_action (concat (map entry_actions es))
             (pending_blobs st, pending_manifests st, st) of
        None \<Rightarrow> None
      | Some (pb, pm, st') \<Rightarrow> Some (st'\<lparr>pending_blobs := pb, pending_manifests := pm\<rparr>))"

definition apply_to_state_machine ::
  "entry list \<Rightarrow> registry_store \<Rightarrow> (registry_store \<times> registry_response list) option" where
  "apply_to_state_machine es st =
     (case apply_transaction es (sm_db st) of
        None \<Rightarrow> None
      | Some (s', rs) \<Rightarrow>
          (case notify_entries es (st\<lparr>sm_db := s'\<rparr>) of
             None \<Rightarrow> None
           | Some st' \<Rightarrow> Some (st', rs)))"

section \<open>The transaction over a batch\<close>

lemma apply_entry_eq:
  "apply_entry e (s, rs) =
     (case payload e of
        MembershipChange m \<Rightarrow>
          Some (set_last_membership_tx \<lparr>sm_log_id = Some (entry_log_id e), sm_membership = m\<rparr>
            (set_last_applied_log_tx (entry_log_id e) s),
            rs @ [\<lparr>response_value = li_index (entry_log_id e)\<rparr>])
      | _ \<Rightarrow> map_option (\<lambda>s'. (s', rs @ [\<lparr>response_value = li_index (entry_log_id e)\<rparr>]))
          (apply_actions (entry_actions e) (set_last_applied_log_tx (entry_log_id e) s)))"
  by (cases "payload e")
    (auto simp: apply_entry_def entry_actions_def apply_actions_def Let_def
      split: registry_request.splits option.splits)

lemma apply_actions_raft_frame:
  "apply_actions as s = Some s' \<Longrightarrow>
   db_last_applied s' = db_last_applied s \<and> db_last_membership s' = db_last_membership s"
proof (induction as arbitrary: s)
  case (Cons a as)
  then obtain t where t: "apply_action a s = Some t" "apply_actions as t = Some s'"
    by (auto simp: apply_actions_def split: option.splits)
  show ?case using Cons.IH [OF t(2)] apply_action_raft_frame [OF t(1)] by simp
qed (simp add: apply_actions_def)

lemma apply_entry_Some:
  assumes "apply_entry e (s, rs) = Some (s', rs')"
  shows "rs' = rs @ [\<lparr>response_value = li_index (entry_log_id e)\<rparr>] \<and>
    db_last_applied s' = Some (entry_log_id e) \<and> (db_wf s \<longrightarrow> db_wf s')"
  using assms
  by (auto simp: apply_entry_eq tx_simps db_wf_def
      dest: apply_actions_raft_frame apply_actions_wf_aux
      split: entry_payload.splits)

lemma apply_entry_prefix:
  "apply_entry e (s, rs) = map_option (\<lambda>(t, qs). (t, rs @ qs)) (apply_entry e (s, []))"
  by (cases "payload e") (auto simp: apply_entry_eq option.map_comp comp_def)

lemma fold_apply_entry_prefix:
  "fold_opt apply_entry es (s, rs) =
     map_option (\<lambda>(t, qs). (t, rs @ qs)) (fold_opt apply_entry es (s, []))"
proof (induction es arbitrary: s rs)
  case (Cons e es)
  show ?case
  proof (cases "apply_entry e (s, [])")
    case (Some p)
    then show ?thesis
      using apply_entry_prefix [of e s rs] Cons.IH [of "fst p" "rs @ snd p"]
        Cons.IH [of "fst p" "snd p"]
      by (auto simp: option.map_comp comp_def split_beta split: option.splits)
  qed (use apply_entry_prefix [of e s rs] in simp)
qed simp

lemma apply_transaction_append_aux:
  "apply_transaction (es @ fs) s =
     (case apply_transaction es s of
        None \<Rightarrow> None
      | Some (t, rs) \<Rightarrow> map_option (\<lambda>(u, qs). (u, rs @ qs)) (apply_transaction fs t))"
proof (cases "fold_opt apply_entry es (s, [])")
  case (Some p)
  then show ?thesis using fold_apply_entry_prefix [of fs "fst p" "snd p"]
    by (simp add: apply_transaction_def fold_opt_append split_beta)
qed (simp add: apply_transaction_def fold_opt_append)

lemma apply_transaction_Nil [simp]: "apply_transaction [] s = Some (s, [])"
  by (simp add: apply_transaction_def)

lemma apply_transaction_result:
  assumes "apply_transaction es s = Some (s', rs)"
  shows "map response_value rs = map (li_index \<circ> entry_log_id) es \<and>
    db_last_applied s' = (if es = [] then db_last_applied s else Some (entry_log_id (last es))) \<and>
    (db_wf s \<longrightarrow> db_wf s')"
  using assms
proof (induction es arbitrary: s s' rs rule: rev_induct)
  case (snoc e es)
  then obtain t qs where t: "apply_transaction es s = Some (t, qs)"
    and e: "apply_entry e (t, qs) = Some (s', rs)"
    by (auto simp: apply_transaction_def fold_opt_append split: option.splits)
  from snoc.IH [OF t] apply_entry_Some [OF e] show ?case by auto
qed simp

section \<open>Properties of a batch\<close>

text \<open>
  A transaction that commits answers every entry with its log index, in order, records the
  last entry as the last applied one, and keeps the trees well formed.
\<close>

theorem apply_transaction_progress:
  assumes "apply_transaction es s = Some (s', rs)" and "db_wf s"
  shows "map response_value rs = map (li_index \<circ> entry_log_id) es \<and>
    db_last_applied s' = (if es = [] then db_last_applied s else Some (entry_log_id (last es))) \<and>
    db_wf s'"
  using apply_transaction_result [OF assms(1)] assms(2) by simp

theorem apply_transaction_progress_witness:
  "\<exists>s' rs. apply_transaction
      [\<lparr>entry_log_id = \<lparr>li_term = 1, li_node = 1, li_index = 7\<rparr>, payload = Blank\<rparr>] empty_db = Some (s', rs) \<and>
    map response_value rs = [7] \<and>
    db_last_applied s' = Some \<lparr>li_term = 1, li_node = 1, li_index = 7\<rparr> \<and> db_wf s'"
proof -
  let ?e = "\<lparr>entry_log_id = \<lparr>li_term = 1, li_node = 1, li_index = 7\<rparr>, payload = Blank\<rparr>"
  obtain s' rs where "apply_transaction [?e] empty_db = Some (s', rs)"
    by (simp add: apply_transaction_def apply_entry_def Let_def)
  with apply_transaction_progress [OF this] show ?thesis by auto
qed

section \<open>The pending sets and the waiters after a batch\<close>

text \<open>
  The invariant of a pending set: it holds every row this node has to fetch, and nothing whose row
  is already here. It may hold digests whose row has been deleted.
\<close>

definition pending_ok :: "u64 \<Rightarrow> (digest \<Rightarrow> obj option) \<Rightarrow> digest set \<Rightarrow> bool" where
  "pending_ok i rows P \<longleftrightarrow>
     (\<forall>d b. rows d = Some b \<and> wanted i b \<longrightarrow> d \<in> P) \<and>
     (\<forall>d b. d \<in> P \<and> rows d = Some b \<longrightarrow> i \<notin> locations b)"

definition store_inv :: "registry_store \<Rightarrow> bool" where
  "store_inv st \<longleftrightarrow> db_wf (sm_db st) \<and>
     pending_ok (store_id st) (get_blob st) (pending_blobs st) \<and>
     pending_ok (store_id st) (get_manifest st) (pending_manifests st)"

lemma get_blob_tx: "get_blob st = tx_get_blob (sm_db st)"
  by (simp add: get_blob_def [abs_def] tx_get_blob_def [abs_def])

lemma get_manifest_tx: "get_manifest st = tx_get_manifest (sm_db st)"
  by (simp add: get_manifest_def [abs_def] tx_get_manifest_def [abs_def])

lemma pending_of_iff:
  "bt_wf t \<Longrightarrow> d \<in> pending_of i t \<longleftrightarrow> (\<exists>b. bt_get t d = Some b \<and> wanted i b)"
  by (force simp: pending_of_def bt_get_iff)

lemma new_store_inv: "db_wf s \<Longrightarrow> store_inv (new_store i s)"
  by (auto simp: store_inv_def new_store_def pending_ok_def pending_of_iff db_wf_def
      get_blob_def get_manifest_def wanted_def)

text \<open>Actions that move a copy of a row.\<close>

definition moves_copy :: "row_op \<Rightarrow> bool" where
  "moves_copy op \<longleftrightarrow> (\<exists>n. op = Store n \<or> op = Unstore n)"

definition touches_blob :: "digest \<Rightarrow> registry_action \<Rightarrow> bool" where
  "touches_blob d a \<longleftrightarrow> (\<exists>ts op. action_update a = OnBlob d ts op \<and> moves_copy op)"

definition touches_manifest :: "digest \<Rightarrow> registry_action \<Rightarrow> bool" where
  "touches_manifest d a \<longleftrightarrow> (\<exists>ts op. action_update a = OnManifest d ts op \<and> moves_copy op)"

definition same_copies :: "obj option \<Rightarrow> obj option \<Rightarrow> bool" where
  "same_copies row row' \<longleftrightarrow>
     (case row' of None \<Rightarrow> row = None
      | Some b' \<Rightarrow> locations b' = (case row of None \<Rightarrow> {} | Some b \<Rightarrow> locations b))"

lemma same_copies_refl [simp]: "same_copies row row"
  by (simp add: same_copies_def split: option.splits)

lemma same_copies_trans: "same_copies r s \<Longrightarrow> same_copies s t \<Longrightarrow> same_copies r t"
  by (auto simp: same_copies_def split: option.splits)

lemma row_step_same_copies: "\<not> moves_copy op \<Longrightarrow> same_copies row (row_step ts op row)"
  by (cases op)
    (auto simp: moves_copy_def same_copies_def row_step_def fresh_row_def split: option.splits)

lemma spec_apply_same_copies:
  assumes "spec_apply u A = Some B"
  shows "(\<And>ts op. u = OnBlob d ts op \<Longrightarrow> \<not> moves_copy op) \<Longrightarrow>
      same_copies (sp_blobs A d) (sp_blobs B d)"
    and "(\<And>ts op. u = OnManifest d ts op \<Longrightarrow> \<not> moves_copy op) \<Longrightarrow>
      same_copies (sp_manifests A d) (sp_manifests B d)"
  using assms
  by (cases u; auto simp: row_try_def row_step_same_copies split: if_splits)+

lemma apply_action_same_copies:
  assumes "apply_action a s = Some s'"
  shows "\<not> touches_blob d a \<Longrightarrow> same_copies (tx_get_blob s d) (tx_get_blob s' d)"
    and "\<not> touches_manifest d a \<Longrightarrow> same_copies (tx_get_manifest s d) (tx_get_manifest s' d)"
proof -
  have step: "spec_apply (action_update a) (abs_db s) = Some (abs_db s')"
    using apply_action_spec [of a s] assms by (simp add: spec_action_def)
  show "\<not> touches_blob d a \<Longrightarrow> same_copies (tx_get_blob s d) (tx_get_blob s' d)"
    using spec_apply_same_copies(1) [OF step, of d] by (auto simp: touches_blob_def)
  show "\<not> touches_manifest d a \<Longrightarrow> same_copies (tx_get_manifest s d) (tx_get_manifest s' d)"
    using spec_apply_same_copies(2) [OF step, of d] by (auto simp: touches_manifest_def)
qed

lemma apply_actions_same_copies:
  assumes "apply_actions as s = Some s'"
  shows "(\<forall>a \<in> set as. \<not> touches_blob d a) \<Longrightarrow> same_copies (tx_get_blob s d) (tx_get_blob s' d)"
    and "(\<forall>a \<in> set as. \<not> touches_manifest d a) \<Longrightarrow>
      same_copies (tx_get_manifest s d) (tx_get_manifest s' d)"
proof -
  show "same_copies (tx_get_blob s d) (tx_get_blob s' d)"
    if "\<forall>a \<in> set as. \<not> touches_blob d a"
    using assms unfolding apply_actions_def
    by (rule fold_opt_invariant [where P = "\<lambda>t. same_copies (tx_get_blob s d) (tx_get_blob t d)"])
      (use that in \<open>auto intro: same_copies_trans apply_action_same_copies(1)\<close>)
  show "same_copies (tx_get_manifest s d) (tx_get_manifest s' d)"
    if "\<forall>a \<in> set as. \<not> touches_manifest d a"
    using assms unfolding apply_actions_def
    by (rule fold_opt_invariant
        [where P = "\<lambda>t. same_copies (tx_get_manifest s d) (tx_get_manifest t d)"])
      (use that in \<open>auto intro: same_copies_trans apply_action_same_copies(2)\<close>)
qed

end
