(* ===== verification/Pending.thy ===== *)
theory Pending
  imports State_Machine
begin

text \<open>
  The second pass of \<open>apply_to_state_machine\<close>: it keeps the invariant of the pending sets, it wakes
  every request that waits for an object this node has just stored, and it panics exactly when one
  of those requests has gone away.
\<close>

section \<open>Copies through a batch\<close>

lemma apply_entry_same_copies:
  assumes "apply_entry e (s, rs) = Some (s', rs')"
  shows "(\<forall>a \<in> set (entry_actions e). \<not> touches_blob d a) \<Longrightarrow>
      same_copies (tx_get_blob s d) (tx_get_blob s' d)"
    and "(\<forall>a \<in> set (entry_actions e). \<not> touches_manifest d a) \<Longrightarrow>
      same_copies (tx_get_manifest s d) (tx_get_manifest s' d)"
  using assms apply_actions_same_copies [of "entry_actions e" "set_last_applied_log_tx (entry_log_id e) s"]
  by (auto simp: apply_entry_eq tx_simps split: entry_payload.splits)

lemma apply_transaction_same_copies:
  assumes "apply_transaction es s = Some (s', rs)"
  shows "(\<forall>a \<in> set (concat (map entry_actions es)). \<not> touches_blob d a) \<Longrightarrow>
      same_copies (tx_get_blob s d) (tx_get_blob s' d)"
    and "(\<forall>a \<in> set (concat (map entry_actions es)). \<not> touches_manifest d a) \<Longrightarrow>
      same_copies (tx_get_manifest s d) (tx_get_manifest s' d)"
proof -
  have run: "fold_opt apply_entry es (s, []) = Some (s', rs)"
    using assms by (simp add: apply_transaction_def)
  show "same_copies (tx_get_blob s d) (tx_get_blob s' d)"
    if no: "\<forall>a \<in> set (concat (map entry_actions es)). \<not> touches_blob d a"
  proof -
    have "same_copies (tx_get_blob s d) (tx_get_blob (fst (s', rs)) d)"
    proof (rule fold_opt_invariant [OF run])
      fix e p q
      assume "e \<in> set es" "same_copies (tx_get_blob s d) (tx_get_blob (fst p) d)"
        "apply_entry e p = Some q"
      then show "same_copies (tx_get_blob s d) (tx_get_blob (fst q) d)"
        using no apply_entry_same_copies(1) [of e "fst p" "snd p" "fst q" "snd q" d]
        by (auto intro: same_copies_trans)
    qed simp
    then show ?thesis by simp
  qed
  show "same_copies (tx_get_manifest s d) (tx_get_manifest s' d)"
    if no: "\<forall>a \<in> set (concat (map entry_actions es)). \<not> touches_manifest d a"
  proof -
    have "same_copies (tx_get_manifest s d) (tx_get_manifest (fst (s', rs)) d)"
    proof (rule fold_opt_invariant [OF run])
      fix e p q
      assume "e \<in> set es" "same_copies (tx_get_manifest s d) (tx_get_manifest (fst p) d)"
        "apply_entry e p = Some q"
      then show "same_copies (tx_get_manifest s d) (tx_get_manifest (fst q) d)"
        using no apply_entry_same_copies(2) [of e "fst p" "snd p" "fst q" "snd q" d]
        by (auto intro: same_copies_trans)
    qed simp
    then show ?thesis by simp
  qed
qed

section \<open>One action of the pass\<close>

lemma send_all_eq:
  "send_all ns st =
     (if set ns \<inter> gone st = {} then Some (st\<lparr>woken := set ns \<union> woken st\<rparr>) else None)"
proof (induction ns arbitrary: st)
  case (Cons n ns)
  then show ?case by (auto simp: send_all_def)
qed (simp add: send_all_def)

definition stored_here :: "u64 \<Rightarrow> registry_action \<Rightarrow> digest set \<times> digest set" where
  "stored_here i a =
     (case a of
        BlobStored ts d n u \<Rightarrow> (if n = i then {d} else {}, {})
      | ManifestStored ts d n u \<Rightarrow> ({}, if n = i then {d} else {})
      | _ \<Rightarrow> ({}, {}))"

definition waiting_on :: "(digest \<Rightarrow> nat list option) \<Rightarrow> digest set \<Rightarrow> nat set" where
  "waiting_on ws D = {n. \<exists>d \<in> D. \<exists>ns. ws d = Some ns \<and> n \<in> set ns}"

lemma waiting_on_empty [simp]: "waiting_on ws {} = {}"
  by (simp add: waiting_on_def)

lemma waiting_on_singleton [simp]:
  "waiting_on ws {d} = (case ws d of None \<Rightarrow> {} | Some ns \<Rightarrow> set ns)"
  by (auto simp: waiting_on_def split: option.splits)

text \<open>The requests an action wakes, and the store after it woke them.\<close>

definition wakes :: "registry_store \<Rightarrow> registry_action \<Rightarrow> nat set" where
  "wakes st a = waiting_on (blob_waiters st) (fst (stored_here (store_id st) a)) \<union>
     waiting_on (manifest_waiters st) (snd (stored_here (store_id st) a))"

definition clear_waiters ::
  "(digest \<Rightarrow> nat list option) \<Rightarrow> digest set \<Rightarrow> digest \<Rightarrow> nat list option" where
  "clear_waiters ws D d = (if d \<in> D then None else ws d)"

definition after_wake :: "registry_store \<Rightarrow> registry_action \<Rightarrow> registry_store" where
  "after_wake st a = st\<lparr>
     blob_waiters := clear_waiters (blob_waiters st) (fst (stored_here (store_id st) a)),
     manifest_waiters := clear_waiters (manifest_waiters st) (snd (stored_here (store_id st) a)),
     woken := wakes st a \<union> woken st\<rparr>"

definition refreshed :: "u64 \<Rightarrow> (digest \<Rightarrow> obj option) \<Rightarrow> bool \<Rightarrow> digest \<Rightarrow> bool \<Rightarrow> bool" where
  "refreshed i rows touched d before =
     (if touched then (case rows d of None \<Rightarrow> before | Some b \<Rightarrow> wanted i b) else before)"

lemma clear_waiters_empty [simp]: "clear_waiters ws {} = ws"
  by (simp add: clear_waiters_def [abs_def])

lemma clear_waiters_single: "clear_waiters ws {d} = ws(d := None)"
  by (auto simp: clear_waiters_def [abs_def])

lemma clear_waiters_None: "ws d = None \<Longrightarrow> clear_waiters ws {d} = ws"
  by (auto simp: clear_waiters_single)

lemma wake_blob_eq:
  "wake_blob d st = (let ns = waiting_on (blob_waiters st) {d} in
     if ns \<inter> gone st = {}
     then Some (st\<lparr>blob_waiters := clear_waiters (blob_waiters st) {d}, woken := ns \<union> woken st\<rparr>)
     else None)"
  by (auto simp: wake_blob_def send_all_eq clear_waiters_single fun_upd_idem split: option.splits)

lemma wake_manifest_eq:
  "wake_manifest d st = (let ns = waiting_on (manifest_waiters st) {d} in
     if ns \<inter> gone st = {}
     then Some (st\<lparr>manifest_waiters := clear_waiters (manifest_waiters st) {d}, woken := ns \<union> woken st\<rparr>)
     else None)"
  by (auto simp: wake_manifest_def send_all_eq clear_waiters_single fun_upd_idem split: option.splits)

definition refresh_all_blobs :: "registry_store \<Rightarrow> registry_action list \<Rightarrow> digest set \<Rightarrow> digest set" where
  "refresh_all_blobs st as P =
     {d. refreshed (store_id st) (get_blob st) (\<exists>a \<in> set as. touches_blob d a) d (d \<in> P)}"

definition refresh_all_manifests ::
  "registry_store \<Rightarrow> registry_action list \<Rightarrow> digest set \<Rightarrow> digest set" where
  "refresh_all_manifests st as P =
     {d. refreshed (store_id st) (get_manifest st) (\<exists>a \<in> set as. touches_manifest d a) d (d \<in> P)}"

lemma touches_simps [simp]:
  "touches_blob e (BlobStored ts d n u) \<longleftrightarrow> e = d"
  "touches_blob e (BlobUnstored ts d n u) \<longleftrightarrow> e = d"
  "touches_manifest e (ManifestStored ts d n u) \<longleftrightarrow> e = d"
  "touches_manifest e (ManifestUnstored ts d n u) \<longleftrightarrow> e = d"
  "\<not> touches_blob e (ManifestStored ts d n u)" "\<not> touches_blob e (ManifestUnstored ts d n u)"
  "\<not> touches_manifest e (BlobStored ts d n u)" "\<not> touches_manifest e (BlobUnstored ts d n u)"
  "\<not> touches_blob e Empty" "\<not> touches_manifest e Empty"
  "\<not> touches_blob e (BlobMounted ts d r u)" "\<not> touches_manifest e (BlobMounted ts d r u)"
  "\<not> touches_blob e (BlobUnmounted ts d r u)" "\<not> touches_manifest e (BlobUnmounted ts d r u)"
  "\<not> touches_blob e (BlobInfo ts d ds c)" "\<not> touches_manifest e (BlobInfo ts d ds c)"
  "\<not> touches_blob e (BlobStat ts d n)" "\<not> touches_manifest e (BlobStat ts d n)"
  "\<not> touches_blob e (ManifestMounted ts d r u)" "\<not> touches_manifest e (ManifestMounted ts d r u)"
  "\<not> touches_blob e (ManifestUnmounted ts d r u)"
  "\<not> touches_manifest e (ManifestUnmounted ts d r u)"
  "\<not> touches_blob e (ManifestInfo ts d ds c)" "\<not> touches_manifest e (ManifestInfo ts d ds c)"
  "\<not> touches_blob e (ManifestStat ts d n)" "\<not> touches_manifest e (ManifestStat ts d n)"
  "\<not> touches_blob e (HashTagged ts d r t u)" "\<not> touches_manifest e (HashTagged ts d r t u)"
  by (auto simp: touches_blob_def touches_manifest_def moves_copy_def)

lemma refresh_pending_eq:
  "refresh_pending i row d P = {e. if e = d then (case row of None \<Rightarrow> e \<in> P | Some b \<Rightarrow> wanted i b) else e \<in> P}"
  by (auto simp: refresh_pending_def wanted_def split: option.splits)

lemma notify_action_eq:
  "notify_action a (pb, pm, st) =
     (if wakes st a \<inter> gone st = {}
      then Some (refresh_all_blobs st [a] pb, refresh_all_manifests st [a] pm, after_wake st a)
      else None)"
  by (cases a)
    (auto simp: wake_blob_eq wake_manifest_eq wakes_def stored_here_def after_wake_def Let_def
      refresh_all_blobs_def refresh_all_manifests_def refreshed_def refresh_pending_eq
      split: option.splits if_splits)

section \<open>The whole pass\<close>

fun wake_all :: "registry_store \<Rightarrow> registry_action list \<Rightarrow> registry_store" where
  "wake_all st [] = st"
| "wake_all st (a # as) = wake_all (after_wake st a) as"

definition all_wakes :: "registry_store \<Rightarrow> registry_action list \<Rightarrow> nat set" where
  "all_wakes st as = (\<Union>a \<in> set as. wakes st a)"

lemma after_wake_sel [simp]:
  "store_id (after_wake st a) = store_id st" "sm_db (after_wake st a) = sm_db st"
  "gone (after_wake st a) = gone st" "get_blob (after_wake st a) = get_blob st"
  "get_manifest (after_wake st a) = get_manifest st"
  "woken (after_wake st a) = wakes st a \<union> woken st"
  by (auto simp: after_wake_def get_blob_def get_manifest_def)

lemma wake_all_sel [simp]:
  "store_id (wake_all st as) = store_id st" "sm_db (wake_all st as) = sm_db st"
  "gone (wake_all st as) = gone st" "get_blob (wake_all st as) = get_blob st"
  "get_manifest (wake_all st as) = get_manifest st"
  by (induction as arbitrary: st) auto

lemma waiting_on_clear:
  "waiting_on ws D \<union> waiting_on (clear_waiters ws D) E = waiting_on ws (D \<union> E)"
  by (auto simp: waiting_on_def clear_waiters_def split: if_splits)

lemma waiting_on_Un: "waiting_on ws (D \<union> E) = waiting_on ws D \<union> waiting_on ws E"
  by (auto simp: waiting_on_def)

lemma clear_waiters_union:
  "clear_waiters (clear_waiters ws D) E = clear_waiters ws (D \<union> E)"
  by (auto simp: clear_waiters_def fun_eq_iff)

lemma wakes_after_wake: "wakes st a \<union> wakes (after_wake st a) b = wakes st a \<union> wakes st b"
proof -
  have "wakes (after_wake st a) b =
      waiting_on (clear_waiters (blob_waiters st) (fst (stored_here (store_id st) a)))
        (fst (stored_here (store_id st) b)) \<union>
      waiting_on (clear_waiters (manifest_waiters st) (snd (stored_here (store_id st) a)))
        (snd (stored_here (store_id st) b))"
    by (simp add: wakes_def after_wake_def)
  then show ?thesis
    using waiting_on_clear [of "blob_waiters st" "fst (stored_here (store_id st) a)"
        "fst (stored_here (store_id st) b)", unfolded waiting_on_Un]
      waiting_on_clear [of "manifest_waiters st" "snd (stored_here (store_id st) a)"
        "snd (stored_here (store_id st) b)", unfolded waiting_on_Un]
    by (auto simp: wakes_def)
qed

lemma all_wakes_Cons: "all_wakes st (a # as) = wakes st a \<union> all_wakes (after_wake st a) as"
proof -
  have "wakes st a \<union> all_wakes (after_wake st a) as =
      (\<Union>b \<in> set as. wakes st a \<union> wakes (after_wake st a) b) \<union> wakes st a"
    by (auto simp: all_wakes_def)
  then show ?thesis unfolding wakes_after_wake by (auto simp: all_wakes_def)
qed

lemma woken_wake_all: "woken (wake_all st as) = all_wakes st as \<union> woken st"
proof (induction as arbitrary: st)
  case (Cons a as)
  then show ?case by (auto simp: all_wakes_Cons)
qed (simp add: all_wakes_def)

lemma blob_waiters_wake_all:
  "blob_waiters (wake_all st as) =
     clear_waiters (blob_waiters st) (\<Union>a \<in> set as. fst (stored_here (store_id st) a))"
proof (induction as arbitrary: st)
  case (Cons a as)
  then show ?case by (simp add: after_wake_def clear_waiters_union)
qed simp

lemma manifest_waiters_wake_all:
  "manifest_waiters (wake_all st as) =
     clear_waiters (manifest_waiters st) (\<Union>a \<in> set as. snd (stored_here (store_id st) a))"
proof (induction as arbitrary: st)
  case (Cons a as)
  then show ?case by (simp add: after_wake_def clear_waiters_union)
qed simp

lemma refresh_all_blobs_Cons:
  "refresh_all_blobs (after_wake st a) as (refresh_all_blobs st [a] P) = refresh_all_blobs st (a # as) P"
  by (auto simp: refresh_all_blobs_def refreshed_def split: option.splits)

lemma refresh_all_manifests_Cons:
  "refresh_all_manifests (after_wake st a) as (refresh_all_manifests st [a] P) =
   refresh_all_manifests st (a # as) P"
  by (auto simp: refresh_all_manifests_def refreshed_def split: option.splits)

lemma fold_notify_eq:
  "fold_opt notify_action as (pb, pm, st) =
     (if all_wakes st as \<inter> gone st = {}
      then Some (refresh_all_blobs st as pb, refresh_all_manifests st as pm, wake_all st as)
      else None)"
proof (induction as arbitrary: pb pm st)
  case Nil
  then show ?case
    by (simp add: all_wakes_def refresh_all_blobs_def refresh_all_manifests_def refreshed_def)
next
  case (Cons a as)
  show ?case
    by (auto simp: notify_action_eq Cons.IH all_wakes_Cons refresh_all_blobs_Cons
        refresh_all_manifests_Cons)
qed

lemma notify_entries_eq:
  "notify_entries es st =
     (let as = concat (map entry_actions es)
      in if all_wakes st as \<inter> gone st = {}
         then Some ((wake_all st as)
           \<lparr>pending_blobs := refresh_all_blobs st as (pending_blobs st),
            pending_manifests := refresh_all_manifests st as (pending_manifests st)\<rparr>)
         else None)"
  by (simp add: notify_entries_def fold_notify_eq Let_def)

text \<open>The pending sets stay complete, and never name a row that is here.\<close>

lemma pending_ok_refresh:
  assumes before: "pending_ok i rows P"
    and after: "\<And>d. d \<in> P' \<longleftrightarrow> refreshed i rows' (touched d) d (d \<in> P)"
    and untouched: "\<And>d. \<not> touched d \<Longrightarrow> same_copies (rows d) (rows' d)"
  shows "pending_ok i rows' P'"
proof -
  have "(wanted i b \<longrightarrow> d \<in> P') \<and> (d \<in> P' \<longrightarrow> i \<notin> locations b)" if row: "rows' d = Some b" for d b
  proof (cases "touched d")
    case True
    with row after [of d] show ?thesis by (auto simp: refreshed_def wanted_def)
  next
    case False
    with row untouched [of d] have "locations b = (case rows d of None \<Rightarrow> {} | Some b \<Rightarrow> locations b)"
      by (simp add: same_copies_def)
    with False before after [of d] show ?thesis
      by (cases "rows d") (auto simp: refreshed_def pending_ok_def wanted_def)
  qed
  then show ?thesis by (auto simp: pending_ok_def)
qed

lemma apply_to_state_machine_Some:
  assumes "apply_to_state_machine es st = Some (st', rs)"
  obtains s' where "apply_transaction es (sm_db st) = Some (s', rs)"
    and "notify_entries es (st\<lparr>sm_db := s'\<rparr>) = Some st'"
  using assms by (auto simp: apply_to_state_machine_def split: option.splits)

lemma apply_to_state_machine_inv:
  assumes run: "apply_to_state_machine es st = Some (st', rs)" and inv: "store_inv st"
  shows "store_inv st'"
proof -
  obtain s' where s': "apply_transaction es (sm_db st) = Some (s', rs)"
    and n: "notify_entries es (st\<lparr>sm_db := s'\<rparr>) = Some st'"
    using apply_to_state_machine_Some [OF run] .
  let ?as = "concat (map entry_actions es)"
  let ?st = "st\<lparr>sm_db := s'\<rparr>"
  have st': "st' = (wake_all ?st ?as)\<lparr>pending_blobs := refresh_all_blobs ?st ?as (pending_blobs st),
      pending_manifests := refresh_all_manifests ?st ?as (pending_manifests st)\<rparr>"
    using n by (simp add: notify_entries_eq Let_def split: if_splits)
  have wf: "db_wf s'" using apply_transaction_result [OF s'] inv by (simp add: store_inv_def)
  have "pending_ok (store_id st) (get_blob ?st) (refresh_all_blobs ?st ?as (pending_blobs st))"
  proof (rule pending_ok_refresh)
    show "pending_ok (store_id st) (get_blob st) (pending_blobs st)" using inv by (simp add: store_inv_def)
    show "same_copies (get_blob st d) (get_blob ?st d)" if "\<not> (\<exists>a \<in> set ?as. touches_blob d a)" for d
      using apply_transaction_same_copies(1) [OF s', of d] that by (auto simp: get_blob_tx)
  qed (simp add: refresh_all_blobs_def)
  moreover have "pending_ok (store_id st) (get_manifest ?st)
      (refresh_all_manifests ?st ?as (pending_manifests st))"
  proof (rule pending_ok_refresh)
    show "pending_ok (store_id st) (get_manifest st) (pending_manifests st)"
      using inv by (simp add: store_inv_def)
    show "same_copies (get_manifest st d) (get_manifest ?st d)"
      if "\<not> (\<exists>a \<in> set ?as. touches_manifest d a)" for d
      using apply_transaction_same_copies(2) [OF s', of d] that by (auto simp: get_manifest_tx)
  qed (simp add: refresh_all_manifests_def)
  ultimately show ?thesis using wf unfolding st'
    by (simp add: store_inv_def get_blob_tx get_manifest_tx)
qed

section \<open>Properties of the pass\<close>

text \<open>
  C14. Applying log entries keeps the store's invariant: the trees stay well formed, every object
  another node holds and this node does not is pending, and no pending object is already here.
\<close>

theorem apply_preserves_store_inv:
  assumes "apply_to_state_machine es st = Some (st', rs)" and "store_inv st"
  shows "store_inv st'"
  using assms by (rule apply_to_state_machine_inv)

theorem apply_preserves_store_inv_witness:
  "\<exists>st' rs. apply_to_state_machine
      [\<lparr>entry_log_id = \<lparr>li_term = 1, li_node = 1, li_index = 1\<rparr>,
        payload = Normal (Transaction [
          BlobMounted 1 (Digest ''sha256'' ''aa'') (RepositoryName ''r'') ''u'',
          BlobStored 1 (Digest ''sha256'' ''aa'') 2 ''u''])\<rparr>] (new_store 1 empty_db) = Some (st', rs) \<and>
    pending_blobs st' = {Digest ''sha256'' ''aa''} \<and> store_inv st'"
proof -
  let ?es = "[\<lparr>entry_log_id = \<lparr>li_term = 1, li_node = 1, li_index = 1\<rparr>,
        payload = Normal (Transaction [
          BlobMounted 1 (Digest ''sha256'' ''aa'') (RepositoryName ''r'') ''u'',
          BlobStored 1 (Digest ''sha256'' ''aa'') 2 ''u''])\<rparr>]"
  obtain st' rs where run: "apply_to_state_machine ?es (new_store 1 empty_db) = Some (st', rs)"
    and p: "pending_blobs st' = {Digest ''sha256'' ''aa''}"
    by (simp add: apply_to_state_machine_def apply_transaction_def apply_entry_def Let_def
        apply_actions_def apply_blob_mounted_def apply_blob_stored_def tx_simps empty_db_def
        new_store_def new_blob_def notify_entries_def entry_actions_def refresh_pending_def
        get_blob_def pending_of_def)
  from apply_preserves_store_inv [OF run] new_store_inv [of empty_db 1] run p show ?thesis by auto
qed

text \<open>
  C32. \<open>apply_to_state_machine\<close> panics if and only if the transaction panics or one of the requests
  its actions wake has dropped its receiver: a client that disconnects while it waits for a
  download takes the node's apply loop down when the download completes.
\<close>

theorem apply_panics_iff:
  "apply_to_state_machine es st = None \<longleftrightarrow>
     (case apply_transaction es (sm_db st) of
        None \<Rightarrow> True
      | Some _ \<Rightarrow> all_wakes st (concat (map entry_actions es)) \<inter> gone st \<noteq> {})"
proof (cases "apply_transaction es (sm_db st)")
  case (Some p)
  have "all_wakes (st\<lparr>sm_db := fst p\<rparr>) as = all_wakes st as" for as
    by (simp add: all_wakes_def wakes_def)
  with Some show ?thesis
    by (auto simp: apply_to_state_machine_def notify_entries_eq Let_def split: prod.splits)
qed (simp add: apply_to_state_machine_def)

text \<open>
  C36. When this node records its own copy of a blob, every request that was waiting for that blob
  is woken, exactly once: its channel is sent to and it leaves the waiting list.
\<close>

theorem stored_blob_wakes_waiters:
  assumes "apply_to_state_machine es st = Some (st', rs)"
    and "e \<in> set es" and "BlobStored ts d (store_id st) u \<in> set (entry_actions e)"
    and "blob_waiters st d = Some ns"
  shows "set ns \<subseteq> woken st' \<and> blob_waiters st' d = None"
proof -
  obtain s' where s': "apply_transaction es (sm_db st) = Some (s', rs)"
    and n: "notify_entries es (st\<lparr>sm_db := s'\<rparr>) = Some st'"
    using apply_to_state_machine_Some [OF assms(1)] .
  let ?as = "concat (map entry_actions es)" and ?st = "st\<lparr>sm_db := s'\<rparr>"
  have a: "BlobStored ts d (store_id st) u \<in> set ?as" using assms(2,3) by auto
  have "set ns \<subseteq> wakes ?st (BlobStored ts d (store_id st) u)"
    using assms(4) by (simp add: wakes_def stored_here_def)
  then have "set ns \<subseteq> all_wakes ?st ?as" using a unfolding all_wakes_def by blast
  moreover have "d \<in> (\<Union>a \<in> set ?as. fst (stored_here (store_id st) a))"
    using a by (intro UN_I) (auto simp: stored_here_def)
  ultimately show ?thesis using n
    by (auto simp: notify_entries_eq Let_def woken_wake_all blob_waiters_wake_all
        clear_waiters_def split: if_splits)
qed

theorem stored_blob_wakes_waiters_witness:
  "\<exists>st' rs. apply_to_state_machine
      [\<lparr>entry_log_id = \<lparr>li_term = 1, li_node = 1, li_index = 1\<rparr>,
        payload = Normal (Transaction [
          BlobMounted 1 (Digest ''sha256'' ''aa'') (RepositoryName ''r'') ''u'',
          BlobStored 1 (Digest ''sha256'' ''aa'') 1 ''u''])\<rparr>]
      ((new_store 1 empty_db)\<lparr>blob_waiters := [Digest ''sha256'' ''aa'' \<mapsto> [5, 6]]\<rparr>) = Some (st', rs) \<and>
    {5, 6} \<subseteq> woken st' \<and> blob_waiters st' (Digest ''sha256'' ''aa'') = None"
proof -
  let ?e = "\<lparr>entry_log_id = \<lparr>li_term = 1, li_node = 1, li_index = 1\<rparr>,
        payload = Normal (Transaction [
          BlobMounted 1 (Digest ''sha256'' ''aa'') (RepositoryName ''r'') ''u'',
          BlobStored 1 (Digest ''sha256'' ''aa'') 1 ''u''])\<rparr>"
  let ?st = "(new_store 1 empty_db)\<lparr>blob_waiters := [Digest ''sha256'' ''aa'' \<mapsto> [5, 6]]\<rparr>"
  obtain st' rs where run: "apply_to_state_machine [?e] ?st = Some (st', rs)"
    by (simp add: apply_to_state_machine_def apply_transaction_def apply_entry_def Let_def
        apply_actions_def apply_blob_mounted_def apply_blob_stored_def tx_simps empty_db_def
        new_store_def new_blob_def notify_entries_def entry_actions_def refresh_pending_def
        get_blob_def pending_of_def wake_blob_def send_all_def)
  have "set [5, 6] \<subseteq> woken st' \<and> blob_waiters st' (Digest ''sha256'' ''aa'') = None"
    by (rule stored_blob_wakes_waiters [OF run, of ?e 1 _ "''u''"])
      (simp_all add: entry_actions_def new_store_def)
  with run show ?thesis by auto
qed

end
