(* ===== verification/Orphans.thy ===== *)
theory Orphans
  imports Pending "HOL-Library.While_Combinator"
begin

text \<open>
  The garbage queries of \<^verbatim>\<open>src/store/mod.rs\<close>: reading the trees into maps, the search of the
  dependency graph behind \<open>get_orphaned_blobs\<close>, and \<open>get_orphaned_manifests\<close>.

  The search takes any element of a \<open>HashSet\<close> at each turn; the choice is a function \<open>pick\<close> of
  the visited and the pending digests. A run never meets the same pair twice, so such functions
  cover every choice the code can make. The loop is \<open>while_option\<close>: that it ends is a theorem.
\<close>

section \<open>Reading the trees\<close>

definition read_blobs :: "(digest, blob) tree \<Rightarrow> (digest, blob) tree" where
  "read_blobs t = bt_insert_all t []"

definition read_manifests :: "(digest, manifest) tree \<Rightarrow> (digest, manifest) tree" where
  "read_manifests t = bt_insert_all t []"

definition get_blobs :: "registry_store \<Rightarrow> (digest, blob) tree" where
  "get_blobs st = read_blobs (blobs (sm_db st))"

definition get_manifests :: "registry_store \<Rightarrow> (digest, manifest) tree" where
  "get_manifests st = read_manifests (manifests (sm_db st))"

definition get_all_tags :: "registry_store \<Rightarrow> (tag_key, digest) tree" where
  "get_all_tags st = bt_insert_all (tags (sm_db st)) []"

lemma read_tree_wf:
  "bt_wf t \<Longrightarrow> read_blobs t = t" "bt_wf t \<Longrightarrow> read_manifests t = t"
  by (simp_all add: read_blobs_def read_manifests_def bt_insert_all_self)

section \<open>Orphaned blobs\<close>

text \<open>The digests the manifests depend on: where the search starts.\<close>

definition row_dependencies :: "obj \<Rightarrow> digest set" where
  "row_dependencies b = (case dependencies b of None \<Rightarrow> {} | Some ds \<Rightarrow> set ds)"

definition manifest_roots :: "(digest, manifest) tree \<Rightarrow> digest set" where
  "manifest_roots t = (\<Union>kv \<in> set t. row_dependencies (snd kv))"

text \<open>One turn of the loop on (\<open>visiting\<close>, \<open>visited\<close>).\<close>

definition visit_one ::
  "(digest set \<Rightarrow> digest set \<Rightarrow> digest) \<Rightarrow> (digest, blob) tree \<Rightarrow>
     digest set \<times> digest set \<Rightarrow> digest set \<times> digest set" where
  "visit_one pick t = (\<lambda>(visiting, visited).
     let d = pick visited visiting;
         visiting' = (case bt_get t d of
             Some b \<Rightarrow> (case dependencies b of
                 Some ds \<Rightarrow> visiting \<union> set [e \<leftarrow> ds. e \<notin> visited]
               | None \<Rightarrow> visiting)
           | None \<Rightarrow> visiting)
     in (visiting' - {d}, insert d visited))"

definition visit_all ::
  "(digest set \<Rightarrow> digest set \<Rightarrow> digest) \<Rightarrow> (digest, blob) tree \<Rightarrow> digest set \<Rightarrow>
     (digest set \<times> digest set) option" where
  "visit_all pick t roots = while_option (\<lambda>(visiting, _). visiting \<noteq> {}) (visit_one pick t) (roots, {})"

definition get_orphaned_blobs ::
  "(digest set \<Rightarrow> digest set \<Rightarrow> digest) \<Rightarrow> registry_store \<Rightarrow> (digest, blob) tree option" where
  "get_orphaned_blobs pick st =
     map_option (\<lambda>(_, visited). [kv \<leftarrow> get_blobs st. fst kv \<notin> visited])
       (visit_all pick (get_blobs st) (manifest_roots (get_manifests st)))"

definition get_orphaned_manifests :: "registry_store \<Rightarrow> (digest, manifest) tree" where
  "get_orphaned_manifests st =
     (let tagged = snd ` set (get_all_tags st)
      in [kv \<leftarrow> get_manifests st. fst kv \<notin> tagged])"

section \<open>What the search computes\<close>

definition picks :: "(digest set \<Rightarrow> digest set \<Rightarrow> digest) \<Rightarrow> bool" where
  "picks pick \<longleftrightarrow> (\<forall>V S. S \<noteq> {} \<and> finite S \<longrightarrow> pick V S \<in> S)"

definition depends :: "(digest, blob) tree \<Rightarrow> (digest \<times> digest) set" where
  "depends t = {(d, e). \<exists>b. bt_get t d = Some b \<and> e \<in> row_dependencies b}"

definition reachable_from :: "(digest, blob) tree \<Rightarrow> digest set \<Rightarrow> digest set" where
  "reachable_from t roots = (depends t)\<^sup>* `` roots"

lemma finite_row_dependencies [simp]: "finite (row_dependencies b)"
  by (simp add: row_dependencies_def split: option.splits)

lemma finite_manifest_roots [simp]: "finite (manifest_roots t)"
  by (simp add: manifest_roots_def)

lemma visit_one_eq:
  "visit_one pick t (S, V) =
     (let d = pick V S
      in (S \<union> {e. (d, e) \<in> depends t \<and> e \<notin> V} - {d}, insert d V))"
  by (auto simp: visit_one_def Let_def depends_def row_dependencies_def split: option.splits)

definition universe :: "(digest, blob) tree \<Rightarrow> digest set \<Rightarrow> digest set" where
  "universe t roots = roots \<union> snd ` depends t"

lemma finite_universe: "finite roots \<Longrightarrow> finite (universe t roots)"
proof -
  have "depends t \<subseteq> Sigma (dom (bt_get t)) (\<lambda>d. row_dependencies (the (bt_get t d)))"
    by (auto simp: depends_def)
  then have "finite (depends t)" by (rule finite_subset) auto
  then show "finite roots \<Longrightarrow> finite (universe t roots)" by (simp add: universe_def)
qed

text \<open>
  The invariant of the loop: nothing is visited twice, everything met is reachable, and the
  dependencies of what has been visited are visited or still to visit.
\<close>

definition search_inv ::
  "(digest, blob) tree \<Rightarrow> digest set \<Rightarrow> digest set \<times> digest set \<Rightarrow> bool" where
  "search_inv t roots SV \<longleftrightarrow>
     (let S = fst SV; V = snd SV
      in S \<inter> V = {} \<and> S \<union> V \<subseteq> universe t roots \<and> roots \<subseteq> S \<union> V \<and>
         S \<union> V \<subseteq> reachable_from t roots \<and> depends t `` V \<subseteq> S \<union> V)"

lemma search_inv_start: "search_inv t roots (roots, {})"
  by (auto simp: search_inv_def universe_def reachable_from_def)

lemma reachable_from_step:
  "d \<in> reachable_from t roots \<Longrightarrow> (d, e) \<in> depends t \<Longrightarrow> e \<in> reachable_from t roots"
  by (auto simp: reachable_from_def intro: rtrancl_into_rtrancl)

lemma search_inv_step:
  assumes inv: "search_inv t roots (S, V)" and d: "pick V S \<in> S"
  shows "search_inv t roots (visit_one pick t (S, V))"
proof -
  let ?d = "pick V S"
  define N where "N = {e. (?d, e) \<in> depends t}"
  define S' where "S' = S \<union> {e \<in> N. e \<notin> V} - {?d}"
  define V' where "V' = insert ?d V"
  have run: "visit_one pick t (S, V) = (S', V')"
    by (simp add: visit_one_eq Let_def S'_def V'_def N_def)
  have sub: "S \<union> V \<subseteq> universe t roots" "roots \<subseteq> S \<union> V" "S \<union> V \<subseteq> reachable_from t roots"
    and disj: "S \<inter> V = {}" and closed: "depends t `` V \<subseteq> S \<union> V"
    using inv by (simp_all add: search_inv_def)
  have N: "N \<subseteq> reachable_from t roots" "N \<subseteq> universe t roots"
    using sub(3) d by (force simp: N_def universe_def intro: reachable_from_step)+
  have un: "S' \<union> V' = S \<union> V \<union> N" using d by (auto simp: S'_def V'_def)
  have "S' \<inter> V' = {}" using disj by (auto simp: S'_def V'_def)
  moreover have "depends t `` V' \<subseteq> S \<union> V \<union> N"
    using closed by (auto simp: V'_def N_def)
  moreover have "S' \<union> V' \<subseteq> universe t roots" unfolding un using sub(1) N(2) by blast
  moreover have "S' \<union> V' \<subseteq> reachable_from t roots" unfolding un using sub(3) N(1) by blast
  moreover have "roots \<subseteq> S' \<union> V'" unfolding un using sub(2) by blast
  ultimately show ?thesis
    by (simp only: search_inv_def run Let_def un fst_conv snd_conv simp_thms)
qed

lemma search_closed:
  assumes "search_inv t roots ({}, V)"
  shows "V = reachable_from t roots"
proof
  show "V \<subseteq> reachable_from t roots" using assms by (simp add: search_inv_def)
  have "depends t `` V \<subseteq> V" "roots \<subseteq> V" using assms by (auto simp: search_inv_def)
  then show "reachable_from t roots \<subseteq> V"
    unfolding reachable_from_def by (metis Image_closed_trancl Image_mono order_refl)
qed

lemma visit_all_result:
  assumes pick: "picks pick" and fin: "finite roots"
  shows "visit_all pick t roots = Some ({}, reachable_from t roots)"
proof -
  let ?b = "\<lambda>(S, V). S \<noteq> {}" and ?c = "visit_one pick t" and ?P = "search_inv t roots"
  let ?f = "\<lambda>SV. card (universe t roots - snd SV)"
  have finU: "finite (universe t roots)" using fin by (rule finite_universe)
  have pickS: "pick V S \<in> S" if "search_inv t roots (S, V)" "S \<noteq> {}" for S V
  proof -
    have "finite S" using that(1) finU by (auto simp: search_inv_def intro: finite_subset)
    with that(2) pick show ?thesis by (simp add: picks_def)
  qed
  have "\<exists>SV. while_option ?b ?c (roots, {}) = Some SV"
  proof (rule measure_while_option_Some [where P = ?P and f = ?f])
    fix SV assume P: "?P SV" and b: "?b SV"
    obtain S V where SV: "SV = (S, V)" by (cases SV)
    have d: "pick V S \<in> S" using pickS P b unfolding SV by simp
    have "universe t roots - insert (pick V S) V \<subset> universe t roots - V"
      using P d unfolding SV by (auto simp: search_inv_def)
    then have "?f (?c SV) < ?f SV" using finU unfolding SV
      by (simp add: visit_one_eq Let_def psubset_card_mono)
    then show "?P (?c SV) \<and> ?f (?c SV) < ?f SV"
      using search_inv_step [of t roots S V pick] P d unfolding SV by simp
  qed (rule search_inv_start)
  then obtain S V where run: "while_option ?b ?c (roots, {}) = Some (S, V)" by auto
  have "S = {}" using while_option_stop [OF run] by simp
  have "?P (S, V)"
  proof (rule while_option_rule [where P = ?P, OF _ run search_inv_start])
    fix SV assume "?P SV" and "?b SV"
    then show "?P (?c SV)"
      using search_inv_step [of t roots "fst SV" "snd SV" pick] pickS [of "fst SV" "snd SV"]
      by (simp add: split_beta)
  qed
  with \<open>S = {}\<close> have "V = reachable_from t roots" using search_closed by simp
  with run \<open>S = {}\<close> show ?thesis by (simp add: visit_all_def)
qed

section \<open>Properties of the garbage queries\<close>

text \<open>The set the search computes does not depend on the order in which it takes its elements.\<close>

lemma get_orphaned_blobs_eq:
  assumes "db_wf (sm_db st)" and "picks pick"
  shows "get_orphaned_blobs pick st =
    Some [kv \<leftarrow> blobs (sm_db st).
      fst kv \<notin> reachable_from (blobs (sm_db st)) (manifest_roots (manifests (sm_db st)))]"
  using assms
  by (simp add: get_orphaned_blobs_def get_blobs_def get_manifests_def read_tree_wf db_wf_def
      visit_all_result)

text \<open>
  C17. \<open>get_orphaned_blobs\<close> ends, whichever elements of its \<open>HashSet\<close> it takes, on every dependency
  graph (cycles and dependencies without a row included), and returns exactly the blob rows that no
  manifest reaches through blob dependencies.
\<close>

theorem get_orphaned_blobs_unreachable:
  assumes "db_wf (sm_db st)" and "picks pick"
  shows "get_orphaned_blobs pick st =
    Some [kv \<leftarrow> blobs (sm_db st).
      fst kv \<notin> reachable_from (blobs (sm_db st)) (manifest_roots (manifests (sm_db st)))]"
  using assms by (rule get_orphaned_blobs_eq)

lemma picks_Min: "picks (\<lambda>V S. Min S)"
  by (simp add: picks_def)

theorem get_orphaned_blobs_unreachable_witness:
  "\<exists>r. get_orphaned_blobs (\<lambda>V S. Min S) (new_store 1 empty_db) = Some r \<and> r = []"
proof -
  have "db_wf (sm_db (new_store 1 empty_db))" by (simp add: new_store_def)
  from get_orphaned_blobs_unreachable [OF this picks_Min] show ?thesis
    by (simp add: new_store_def empty_db_def)
qed

text \<open>
  \<open>get_orphaned_manifests\<close> returns exactly the manifest rows whose digest no tag names. A
  manifest that only a tagged manifest list refers to is among them.
\<close>

theorem get_orphaned_manifests_untagged:
  assumes "db_wf (sm_db st)"
  shows "bt_get (get_orphaned_manifests st) d =
    (if \<exists>k. bt_get (tags (sm_db st)) k = Some d then None else bt_get (manifests (sm_db st)) d)"
proof -
  let ?t = "tags (sm_db st)"
  have T: "get_all_tags st = ?t" "get_manifests st = manifests (sm_db st)"
    using assms by (simp_all add: get_all_tags_def get_manifests_def read_tree_wf db_wf_def
        bt_insert_all_self)
  have wf: "bt_wf ?t" using assms by (simp add: db_wf_def)
  have tagged: "d \<in> snd ` set ?t \<longleftrightarrow> (\<exists>k. bt_get ?t k = Some d)"
    unfolding bt_get_iff [OF wf] by (force simp: image_iff)
  show ?thesis
    unfolding get_orphaned_manifests_def T Let_def
      bt_get_filter_key [where P = "\<lambda>k. k \<notin> snd ` set ?t"] tagged [symmetric]
    by simp
qed

theorem get_orphaned_manifests_untagged_witness:
  "bt_get (get_orphaned_manifests (new_store 1 empty_db)) (Digest ''sha256'' ''aa'') = None"
proof -
  have "db_wf (sm_db (new_store 1 empty_db))" by (simp add: new_store_def)
  from get_orphaned_manifests_untagged [OF this, of "Digest ''sha256'' ''aa''"] show ?thesis
    by (simp add: new_store_def empty_db_def split: if_splits)
qed

end
