(* ===== verification/Raft_Log.thy ===== *)
theory Raft_Log
  imports Orphans
begin

text \<open>
  The log storage of \<^verbatim>\<open>src/store/mod.rs\<close>: the \<open>logs\<close> tree keyed by the big endian bytes of the log
  index, the \<open>store\<close> tree (vote, last purged log id, snapshot index), and the operations raft calls.
  The contract raft relies on is the locale \<open>log_storage\<close>.

  A log entry is stored as itself (\<open>serde_json\<close> returns what was written). The vote is openraft's: a
  type parameter.
\<close>

section \<open>Log keys\<close>

fun be_bytes :: "nat \<Rightarrow> nat \<Rightarrow> bytes" where
  "be_bytes 0 n = []"
| "be_bytes (Suc k) n = char_of (n div 256 ^ k) # be_bytes k n"

definition be_value :: "nat \<Rightarrow> bytes \<Rightarrow> nat" where
  "be_value a bs = foldl (\<lambda>a c. a * 256 + of_char c) a bs"

definition id_to_bin :: "u64 \<Rightarrow> bytes" where
  "id_to_bin i = be_bytes 8 (unat i)"

definition bin_to_id :: "bytes \<Rightarrow> u64 option" where
  "bin_to_id buf = (if length buf < 8 then None else Some (of_nat (be_value 0 (take 8 buf))))"

lemma length_be_bytes [simp]: "length (be_bytes k n) = k"
  by (induction k) simp_all

lemma be_step: "(n::nat) mod 256 ^ Suc k = (n div 256 ^ k mod 256) * 256 ^ k + n mod 256 ^ k"
  using mod_mult2_eq [of n "256 ^ k" 256] by (simp add: mult.commute)

lemma be_value_bytes: "be_value a (be_bytes k n) = a * 256 ^ k + n mod 256 ^ k"
  unfolding be_value_def
proof (induction k arbitrary: a)
  case (Suc k)
  then show ?case using be_step [of n k]
    by (simp add: algebra_simps)
qed simp

lemma char_of_less: "(char_of (m::nat) < char_of (n::nat)) \<longleftrightarrow> m mod 256 < n mod 256"
  by (simp add: less_char_def)

lemma two_digits_less:
  fixes r s B :: nat
  assumes "r < B" "s < B"
  shows "p * B + r < q * B + s \<longleftrightarrow> p < q \<or> p = q \<and> r < s"
proof -
  have "p * B + r < q * B + s" if "p < q"
  proof -
    have "p * B + B \<le> q * B" using that by (metis Suc_leI add.commute mult_Suc mult_le_mono1)
    with assms show ?thesis by linarith
  qed
  moreover have "q * B + s < p * B + r" if "q < p"
  proof -
    have "q * B + B \<le> p * B" using that by (metis Suc_leI add.commute mult_Suc mult_le_mono1)
    with assms show ?thesis by linarith
  qed
  ultimately show ?thesis by (metis nat_add_left_cancel_less not_less_iff_gr_or_eq)
qed

lemma be_bytes_less: "be_bytes k m < be_bytes k n \<longleftrightarrow> m mod 256 ^ k < n mod 256 ^ k"
proof (induction k)
  case (Suc k)
  have c: "char_of (m div 256 ^ k) = (char_of (n div 256 ^ k) :: char) \<longleftrightarrow>
      m div 256 ^ k mod 256 = n div 256 ^ k mod 256"
    by (metis char_of_mod_256 of_char_of)
  show ?case
    unfolding be_step by (simp add: two_digits_less char_of_less c Suc)
qed simp

lemma unat_u64_less: "unat (i::u64) < 256 ^ 8"
  using unsigned_less [of i] by simp

lemma length_id_to_bin [simp]: "length (id_to_bin i) = 8"
  by (simp add: id_to_bin_def)

lemma bin_id [simp]: "bin_to_id (id_to_bin i) = Some i"
  using unat_u64_less [of i]
  by (simp add: bin_to_id_def id_to_bin_def be_value_bytes)

lemma id_to_bin_less [simp]: "id_to_bin i < id_to_bin j \<longleftrightarrow> i < j"
  using unat_u64_less [of i] unat_u64_less [of j]
  by (simp add: id_to_bin_def be_bytes_less word_less_nat_alt)

lemma id_to_bin_inj [simp]: "id_to_bin i = id_to_bin j \<longleftrightarrow> i = j"
  by (metis bin_id option.inject)

lemma id_to_bin_le [simp]: "id_to_bin i \<le> id_to_bin j \<longleftrightarrow> i \<le> j"
  by (simp add: le_less)


section \<open>The stored raft state\<close>

record snapshot_meta =
  meta_last_log_id :: "log_id option"
  meta_last_membership :: stored_membership
  meta_snapshot_id :: string

record registry_snapshot =
  snap_meta :: snapshot_meta
  snap_data :: bytes

record 'v raft_store =
  logs :: "(bytes, entry) tree"
  last_purged :: "log_id option"
  snapshot_index :: "u64 option"
  vote :: "'v option"
  current_snapshot :: "registry_snapshot option"

definition empty_raft_store :: "'v raft_store" where
  "empty_raft_store =
     \<lparr>logs = [], last_purged = None, snapshot_index = None, vote = None, current_snapshot = None\<rparr>"

definition get_last_purged :: "'v raft_store \<Rightarrow> log_id option" where
  "get_last_purged st = last_purged st"

definition set_last_purged :: "log_id \<Rightarrow> 'v raft_store \<Rightarrow> 'v raft_store" where
  "set_last_purged l st = st\<lparr>last_purged := Some l\<rparr>"

definition get_snapshot_index :: "'v raft_store \<Rightarrow> u64" where
  "get_snapshot_index st = (case snapshot_index st of None \<Rightarrow> 0 | Some n \<Rightarrow> n)"

definition set_snapshot_index :: "u64 \<Rightarrow> 'v raft_store \<Rightarrow> 'v raft_store" where
  "set_snapshot_index n st = st\<lparr>snapshot_index := Some n\<rparr>"

definition save_vote :: "'v \<Rightarrow> 'v raft_store \<Rightarrow> 'v raft_store" where
  "save_vote v st = st\<lparr>vote := Some v\<rparr>"

definition read_vote :: "'v raft_store \<Rightarrow> 'v option" where
  "read_vote st = vote st"

definition get_current_snapshot :: "'v raft_store \<Rightarrow> registry_snapshot option" where
  "get_current_snapshot st = current_snapshot st"

definition set_current_snapshot :: "registry_snapshot \<Rightarrow> 'v raft_store \<Rightarrow> 'v raft_store" where
  "set_current_snapshot s st = st\<lparr>current_snapshot := Some s\<rparr>"

section \<open>Log operations\<close>

datatype bound = Included u64 | Excluded u64 | Unbounded

fun range_contains :: "bound \<Rightarrow> bound \<Rightarrow> u64 \<Rightarrow> bool" where
  "range_contains lo hi i \<longleftrightarrow>
     (case lo of Included x \<Rightarrow> x \<le> i | Excluded x \<Rightarrow> x < i | Unbounded \<Rightarrow> True) \<and>
     (case hi of Included x \<Rightarrow> i \<le> x | Excluded x \<Rightarrow> i < x | Unbounded \<Rightarrow> True)"

fun range_start :: "bound \<Rightarrow> bytes" where
  "range_start (Included x) = id_to_bin x"
| "range_start (Excluded x) = id_to_bin (x + 1)"
| "range_start Unbounded = id_to_bin 0"

text \<open>The iterator is lazy: entries after the first one out of the range are not read.\<close>

fun scan_entries :: "(u64 \<Rightarrow> bool) \<Rightarrow> (bytes \<times> entry) list \<Rightarrow> entry list option" where
  "scan_entries P [] = Some []"
| "scan_entries P (kv # kvs) =
     (case bin_to_id (fst kv) of
        None \<Rightarrow> None
      | Some i \<Rightarrow>
          if i \<noteq> li_index (entry_log_id (snd kv)) then None
          else if P i then map_option ((#) (snd kv)) (scan_entries P kvs)
          else Some [])"

definition try_get_log_entries :: "bound \<Rightarrow> bound \<Rightarrow> 'v raft_store \<Rightarrow> entry list option" where
  "try_get_log_entries lo hi st =
     scan_entries (range_contains lo hi) (bt_from (range_start lo) (logs st))"

definition get_log_state :: "'v raft_store \<Rightarrow> log_id option \<times> log_id option" where
  "get_log_state st =
     (let purged = get_last_purged st;
          last_id = (if logs st = [] then None else Some (entry_log_id (snd (last (logs st)))))
      in (purged, case last_id of None \<Rightarrow> purged | Some x \<Rightarrow> Some x))"

definition append_to_log :: "entry list \<Rightarrow> 'v raft_store \<Rightarrow> 'v raft_store option" where
  "append_to_log es st =
     map_option (\<lambda>batch. st\<lparr>logs := bt_insert_all batch (logs st)\<rparr>)
       (fold_opt (\<lambda>e batch.
          let i = id_to_bin (li_index (entry_log_id e))
          in if bin_to_id i \<noteq> Some (li_index (entry_log_id e)) then None
             else Some (batch @ [(i, e)])) es [])"

definition delete_conflict_logs_since :: "log_id \<Rightarrow> 'v raft_store \<Rightarrow> 'v raft_store" where
  "delete_conflict_logs_since l st =
     (let from = id_to_bin (li_index l); to = id_to_bin 0xffffffffffffffff;
          doomed = [fst kv. kv \<leftarrow> logs st, from \<le> fst kv \<and> fst kv < to]
      in st\<lparr>logs := bt_remove_all doomed (logs st)\<rparr>)"

definition purge_logs_upto :: "log_id \<Rightarrow> 'v raft_store \<Rightarrow> 'v raft_store" where
  "purge_logs_upto l st =
     (let st' = set_last_purged l st;
          from = id_to_bin 0; to = id_to_bin (li_index l);
          doomed = [fst kv. kv \<leftarrow> logs st', from \<le> fst kv \<and> fst kv \<le> to]
      in st'\<lparr>logs := bt_remove_all doomed (logs st')\<rparr>)"

section \<open>The log as a map from indices\<close>

definition log_get :: "'v raft_store \<Rightarrow> u64 \<Rightarrow> entry option" where
  "log_get st i = bt_get (logs st) (id_to_bin i)"

definition entry_index :: "entry \<Rightarrow> u64" where
  "entry_index e = li_index (entry_log_id e)"

definition log_wf :: "'v raft_store \<Rightarrow> bool" where
  "log_wf st \<longleftrightarrow> bt_wf (logs st) \<and>
     (\<forall>kv \<in> set (logs st). fst kv = id_to_bin (entry_index (snd kv)))"

text \<open>What a batch of entries puts at an index: its last entry with that index.\<close>

definition batch_get :: "entry list \<Rightarrow> u64 \<Rightarrow> entry option" where
  "batch_get es i = map_of (rev (map (\<lambda>e. (entry_index e, e)) es)) i"

lemma log_wf_empty [simp]: "log_wf empty_raft_store"
  by (simp add: log_wf_def empty_raft_store_def)

lemma append_batch:
  "fold_opt (\<lambda>e batch.
      let i = id_to_bin (li_index (entry_log_id e))
      in if bin_to_id i \<noteq> Some (li_index (entry_log_id e)) then None
         else Some (batch @ [(i, e)])) es b =
   Some (b @ map (\<lambda>e. (id_to_bin (entry_index e), e)) es)"
  by (induction es arbitrary: b) (simp_all add: entry_index_def Let_def)

lemma append_to_log_eq:
  "append_to_log es st =
     Some (st\<lparr>logs := bt_insert_all (map (\<lambda>e. (id_to_bin (entry_index e), e)) es) (logs st)\<rparr>)"
  unfolding append_to_log_def append_batch by simp

lemma map_of_index_keys:
  "map_of (map (\<lambda>e. (id_to_bin (entry_index e), e)) es) (id_to_bin i) =
   map_of (map (\<lambda>e. (entry_index e, e)) es) i"
  by (induction es) auto

lemma log_get_append:
  "append_to_log es st = Some st' \<Longrightarrow>
   log_get st' i = (case batch_get es i of None \<Rightarrow> log_get st i | Some e \<Rightarrow> Some e)"
  by (auto simp: append_to_log_eq log_get_def bt_get_insert_all batch_get_def rev_map
      map_of_index_keys split: option.splits)

lemma doomed_iff:
  "log_wf st \<Longrightarrow>
   id_to_bin i \<in> set [fst kv. kv \<leftarrow> logs st, P (fst kv)] \<longleftrightarrow> log_get st i \<noteq> None \<and> P (id_to_bin i)"
  by (force simp: log_get_def bt_get_None_iff)

lemma log_get_delete:
  "log_wf st \<Longrightarrow>
   log_get (delete_conflict_logs_since l st) i =
     (if li_index l \<le> i \<and> i < 0xffffffffffffffff then None else log_get st i)"
  using doomed_iff [of st i "\<lambda>k. id_to_bin (li_index l) \<le> k \<and> k < id_to_bin 0xffffffffffffffff"]
  by (auto simp: delete_conflict_logs_since_def Let_def log_get_def bt_get_remove_all
      simp del: set_concat)

lemma log_get_purge:
  "log_wf st \<Longrightarrow>
   log_get (purge_logs_upto l st) i = (if i \<le> li_index l then None else log_get st i)"
  using doomed_iff [of st i "\<lambda>k. id_to_bin 0 \<le> k \<and> k \<le> id_to_bin (li_index l)"]
  by (auto simp: purge_logs_upto_def set_last_purged_def Let_def log_get_def bt_get_remove_all
      simp del: set_concat)


lemma bt_remove_all_subset: "set (bt_remove_all ks t) \<subseteq> set t"
proof (induction ks arbitrary: t)
  case (Cons k ks)
  have "set (bt_remove k t) \<subseteq> set t" by (auto simp: bt_remove_def)
  with Cons [of "bt_remove k t"] show ?case by (simp add: bt_remove_all_def)
qed (simp add: bt_remove_all_def)

lemma set_bt_insert: "set (bt_insert k v t) \<subseteq> insert (k, v) (set t)"
  by (induction t) auto

lemma set_bt_insert_all: "set (bt_insert_all kvs t) \<subseteq> set kvs \<union> set t"
proof (induction kvs arbitrary: t)
  case (Cons kv kvs)
  then show ?case using set_bt_insert [of "fst kv" "snd kv" t]
    by (fastforce simp: bt_insert_all_def split_beta)
qed (simp add: bt_insert_all_def)

lemma log_wf_append: "append_to_log es st = Some st' \<Longrightarrow> log_wf st \<Longrightarrow> log_wf st'"
  using set_bt_insert_all [of "map (\<lambda>e. (id_to_bin (entry_index e), e)) es" "logs st"]
  by (fastforce simp: append_to_log_eq log_wf_def intro: bt_wf_insert_all)

lemma log_wf_delete: "log_wf st \<Longrightarrow> log_wf (delete_conflict_logs_since l st)"
  using bt_remove_all_subset
  by (fastforce simp: delete_conflict_logs_since_def Let_def log_wf_def intro: bt_wf_remove_all)

lemma log_wf_purge: "log_wf st \<Longrightarrow> log_wf (purge_logs_upto l st)"
  using bt_remove_all_subset
  by (fastforce simp: purge_logs_upto_def set_last_purged_def Let_def log_wf_def
      intro: bt_wf_remove_all)

lemma log_get_index: "log_wf st \<Longrightarrow> log_get st i = Some e \<Longrightarrow> entry_index e = i"
  by (auto simp: log_wf_def log_get_def dest!: bt_get_in_set)

section \<open>The contract of a log\<close>

locale log_storage =
  fixes get :: "'s \<Rightarrow> u64 \<Rightarrow> entry option"
    and append :: "entry list \<Rightarrow> 's \<Rightarrow> 's option"
    and truncate :: "log_id \<Rightarrow> 's \<Rightarrow> 's"
    and purge :: "log_id \<Rightarrow> 's \<Rightarrow> 's"
    and invar :: "'s \<Rightarrow> bool"
  assumes append_total: "\<exists>s'. append es s = Some s'"
    and get_append: "append es s = Some s' \<Longrightarrow>
      get s' i = (case batch_get es i of None \<Rightarrow> get s i | Some e \<Rightarrow> Some e)"
    and get_truncate: "invar s \<Longrightarrow>
      get (truncate l s) i = (if li_index l \<le> i \<and> i < 0xffffffffffffffff then None else get s i)"
    and get_purge: "invar s \<Longrightarrow> get (purge l s) i = (if i \<le> li_index l then None else get s i)"
    and invar_append: "append es s = Some s' \<Longrightarrow> invar s \<Longrightarrow> invar s'"
    and invar_truncate: "invar s \<Longrightarrow> invar (truncate l s)"
    and invar_purge: "invar s \<Longrightarrow> invar (purge l s)"
begin

lemma append_again:
  "append es s = Some s' \<Longrightarrow> append es s' = Some s'' \<Longrightarrow> get s'' i = get s' i"
  using get_append [of es s s' i] get_append [of es s' s'' i] by (simp split: option.splits)

text \<open>Raft's repair of a follower: drop the suffix from the conflict on, then append.\<close>

lemma repaired_suffix:
  assumes "invar s" and "append es (truncate l s) = Some s'" and "i < 0xffffffffffffffff"
  shows "get s' i = (case batch_get es i of None \<Rightarrow> if li_index l \<le> i then None else get s i
    | Some e \<Rightarrow> Some e)"
  using get_append [OF assms(2), of i] get_truncate [OF assms(1), of l i] assms(3)
  by (simp split: option.splits)

lemma repaired_agree:
  assumes "invar s" and "invar t" and "\<And>j. j < li_index l \<Longrightarrow> get s j = get t j"
    and "append es (truncate l s) = Some s'" and "append es (truncate l t) = Some t'"
    and "i < 0xffffffffffffffff"
  shows "get s' i = get t' i"
  using repaired_suffix [OF assms(1,4,6)] repaired_suffix [OF assms(2,5,6)] assms(3) [of i]
  by (simp split: option.splits)

lemma purge_keeps_repair:
  assumes "invar s" and "append es (truncate l s) = Some s'"
    and "append es (truncate l (purge p s)) = Some t'" and "li_index p < i"
  shows "get t' i = get s' i"
  using get_append [OF assms(2), of i] get_append [OF assms(3), of i]
    get_truncate [OF assms(1), of l i] get_truncate [OF invar_purge [OF assms(1)], of l p i]
    get_purge [OF assms(1), of p i] assms(4) [folded not_le]
  by (simp split: option.splits)

end

interpretation raft_log: log_storage log_get append_to_log delete_conflict_logs_since
  purge_logs_upto log_wf
  by unfold_locales
    (auto simp: append_to_log_eq log_get_delete log_get_purge
      intro: log_get_append log_wf_append log_wf_delete log_wf_purge)

section \<open>Reading the log\<close>

lemma u64_inc_less: "(x::u64) < y \<Longrightarrow> x + 1 \<le> k \<Longrightarrow> x < k"
  by uint_arith

lemma scan_entries_takeWhile:
  assumes "\<And>kv. kv \<in> set kvs \<Longrightarrow> fst kv = id_to_bin (entry_index (snd kv))"
  shows "scan_entries P kvs = Some (takeWhile (\<lambda>e. P (entry_index e)) (map snd kvs))"
  using assms by (induction kvs) (auto simp: entry_index_def)

lemma try_get_log_entries_eq:
  assumes wf: "log_wf st"
  shows "try_get_log_entries lo hi st =
    Some [e \<leftarrow> map snd (logs st). range_contains lo hi (entry_index e)]"
proof -
  let ?ks = "bt_from (range_start lo) (logs st)" and ?Q = "\<lambda>e. range_contains lo hi (entry_index e)"
  have keys: "fst kv = id_to_bin (entry_index (snd kv))" if "kv \<in> set ?ks" for kv
    using that wf by (auto simp: log_wf_def bt_from_def)
  have start: "range_start lo \<le> fst kv"
    if "kv \<in> set (logs st)" "?Q (snd kv)" for kv
  proof -
    have "fst kv = id_to_bin (entry_index (snd kv))" using that(1) wf by (simp add: log_wf_def)
    then show ?thesis using that(2)
      by (cases lo) (auto simp: inc_le)
  qed
  have "sorted_wrt (\<lambda>x y. fst x < fst y) ?ks"
    using bt_wf_from [of "logs st" "range_start lo"] wf by (simp add: log_wf_def bt_wf_def sorted_wrt_map)
  then have "sorted_wrt (\<lambda>x y. ?Q (snd y) \<longrightarrow> ?Q (snd x)) ?ks"
  proof (rule sorted_wrt_mono_rel [rotated])
    fix x y assume xy: "x \<in> set ?ks" "y \<in> set ?ks" "fst x < fst y"
    then have i: "entry_index (snd x) < entry_index (snd y)" using keys by simp
    have "range_start lo \<le> fst x" using xy(1) by (simp add: bt_from_def)
    then show "?Q (snd y) \<longrightarrow> ?Q (snd x)"
      using i keys [OF xy(1)]
      by (cases lo; cases hi) (auto intro: u64_inc_less)
  qed
  then have "takeWhile ?Q (map snd ?ks) = filter ?Q (map snd ?ks)"
    by (intro takeWhile_sorted_filter) (simp add: sorted_wrt_map)
  also have "\<dots> = filter ?Q (map snd (logs st))"
    using start by (auto simp: bt_from_def filter_map comp_def intro!: arg_cong [where f = "map snd"] filter_cong)
  finally show ?thesis
    unfolding try_get_log_entries_def using scan_entries_takeWhile [OF keys] by simp
qed


section \<open>Properties of the log storage\<close>

text \<open>
  The key encoding is a faithful, order preserving one: decoding gives the id back, and sled's
  bytewise order of the keys is the order of the log indices.
\<close>

theorem id_to_bin_order:
  "bin_to_id (id_to_bin i) = Some i \<and> (id_to_bin i < id_to_bin j \<longleftrightarrow> i < j)"
  by simp

text \<open>
  Reading a range of the log neither panics nor stops early: it returns exactly the entries
  whose index is in the range, in the order of their indices, for every kind of bound.
\<close>

theorem try_get_log_entries_range:
  assumes "log_wf st"
  shows "\<exists>es. try_get_log_entries lo hi st = Some es \<and>
    sorted_wrt (\<lambda>e f. entry_index e < entry_index f) es \<and>
    (\<forall>e. e \<in> set es \<longleftrightarrow> log_get st (entry_index e) = Some e \<and> range_contains lo hi (entry_index e))"
proof -
  have wf: "bt_wf (logs st)"
    and keys: "\<And>kv. kv \<in> set (logs st) \<Longrightarrow> fst kv = id_to_bin (entry_index (snd kv))"
    using assms by (simp_all add: log_wf_def)
  have "sorted_wrt (\<lambda>x y. fst x < fst y) (logs st)" using wf by (simp add: bt_wf_def sorted_wrt_map)
  then have "sorted_wrt (\<lambda>x y. entry_index (snd x) < entry_index (snd y)) (logs st)"
    by (rule sorted_wrt_mono_rel [rotated]) (use keys in auto)
  then have "sorted_wrt (\<lambda>e f. entry_index e < entry_index f) (map snd (logs st))"
    by (simp add: sorted_wrt_map)
  moreover have "e \<in> set (map snd (logs st)) \<longleftrightarrow> log_get st (entry_index e) = Some e" for e
    using keys by (force simp: log_get_def bt_get_iff [OF wf])
  ultimately show ?thesis
    using try_get_log_entries_eq [OF assms] by (auto simp: sorted_wrt_filter)
qed

definition sample_entry :: "u64 \<Rightarrow> entry" where
  "sample_entry i = \<lparr>entry_log_id = \<lparr>li_term = 1, li_node = 1, li_index = i\<rparr>, payload = Blank\<rparr>"

theorem try_get_log_entries_range_witness:
  "\<exists>es. try_get_log_entries (Included 2) (Excluded 9) (empty_raft_store :: unit raft_store) = Some es"
  using try_get_log_entries_range [OF log_wf_empty] by blast

text \<open>
  C31. Conflict resolution: two nodes whose logs agree below the conflicting index, and which both
  drop everything from that index on and append the same entries, agree on every index below
  \<open>u64::MAX\<close>; their logs stay well formed.
\<close>

theorem log_repair_agrees:
  fixes s t :: "'v raft_store"
  assumes "log_wf s" and "log_wf t" and "\<And>j. j < li_index l \<Longrightarrow> log_get s j = log_get t j"
    and "append_to_log es (delete_conflict_logs_since l s) = Some s'"
    and "append_to_log es (delete_conflict_logs_since l t) = Some t'"
    and "i < 0xffffffffffffffff"
  shows "log_get s' i = log_get t' i \<and> log_wf s' \<and> log_wf t'"
  using raft_log.repaired_agree [OF assms] raft_log.invar_append [OF assms(4)]
    raft_log.invar_append [OF assms(5)] raft_log.invar_truncate assms(1,2) by blast

theorem log_repair_agrees_witness:
  "\<exists>s'. append_to_log [sample_entry 1]
      (delete_conflict_logs_since \<lparr>li_term = 1, li_node = 1, li_index = 1\<rparr>
        (empty_raft_store :: unit raft_store)) = Some s' \<and> log_wf s'"
proof -
  obtain s' where s: "append_to_log [sample_entry 1]
      (delete_conflict_logs_since \<lparr>li_term = 1, li_node = 1, li_index = 1\<rparr>
        (empty_raft_store :: unit raft_store)) = Some s'"
    using raft_log.append_total by blast
  show ?thesis using log_repair_agrees [OF log_wf_empty log_wf_empty refl s s, of 1] s by simp
qed

text \<open>
  After \<open>delete_conflict_logs_since\<close> no entry from that index on is left, except one at index
  \<open>u64::MAX\<close>, which the half-open range of the code never removes; after \<open>purge_logs_upto\<close> no entry up
  to the index is left and the purged id is recorded. Other entries are untouched.
\<close>

theorem log_deletion_ranges:
  assumes "log_wf st"
  shows "log_get (delete_conflict_logs_since l st) i =
      (if li_index l \<le> i \<and> i \<noteq> - 1 then None else log_get st i) \<and>
    log_get (purge_logs_upto l st) i = (if i \<le> li_index l then None else log_get st i) \<and>
    get_last_purged (purge_logs_upto l st) = Some l \<and>
    get_last_purged (delete_conflict_logs_since l st) = get_last_purged st"
proof -
  have max: "(0xffffffffffffffff :: u64) = - 1" by simp
  have "i < 0xffffffffffffffff \<longleftrightarrow> i \<noteq> - 1"
    unfolding max by (simp only: word_order.not_eq_extremum)
  moreover have "get_last_purged (purge_logs_upto l st) = Some l"
    and "get_last_purged (delete_conflict_logs_since l st) = get_last_purged st"
    by (simp_all add: get_last_purged_def purge_logs_upto_def delete_conflict_logs_since_def
        set_last_purged_def Let_def)
  ultimately show ?thesis by (simp add: log_get_delete [OF assms] log_get_purge [OF assms])
qed

theorem log_deletion_ranges_witness:
  "get_last_purged (purge_logs_upto \<lparr>li_term = 1, li_node = 1, li_index = 1\<rparr>
     (empty_raft_store :: unit raft_store)) = Some \<lparr>li_term = 1, li_node = 1, li_index = 1\<rparr>"
  using log_deletion_ranges [OF log_wf_empty] by blast

text \<open>
  \<open>get_log_state\<close> reports the entry with the greatest index, and when the log is empty the last
  purged log id.
\<close>

theorem get_log_state_last:
  assumes "log_wf st"
  shows "fst (get_log_state st) = last_purged st \<and>
    (if \<forall>i. log_get st i = None then snd (get_log_state st) = last_purged st
     else \<exists>e. log_get st (entry_index e) = Some e \<and> snd (get_log_state st) = Some (entry_log_id e) \<and>
       (\<forall>i. log_get st i \<noteq> None \<longrightarrow> i \<le> entry_index e))"
proof (cases "logs st = []")
  case True
  then show ?thesis by (simp add: get_log_state_def get_last_purged_def log_get_def Let_def)
next
  case False
  let ?kv = "last (logs st)"
  have wf: "bt_wf (logs st)"
    and keys: "\<And>kv. kv \<in> set (logs st) \<Longrightarrow> fst kv = id_to_bin (entry_index (snd kv))"
    using assms by (simp_all add: log_wf_def)
  have kv: "?kv \<in> set (logs st)" using False by simp
  have get: "log_get st (entry_index (snd ?kv)) = Some (snd ?kv)"
    unfolding log_get_def bt_get_iff [OF wf] using keys [OF kv] kv by (metis prod.collapse)
  have "fst x \<le> fst ?kv" if "x \<in> set (logs st)" for x
  proof -
    have "sorted (map fst (butlast (logs st)) @ [fst ?kv])"
      using bt_wf_sorted [OF wf] append_butlast_last_id [OF False]
      by (metis list.simps(8) list.simps(9) map_append)
    moreover have "x \<in> set (butlast (logs st)) \<or> x = ?kv"
      using that append_butlast_last_id [OF False] by (metis Un_iff empty_iff list.set(1) set_ConsD set_append)
    ultimately show ?thesis by (auto simp: sorted_append)
  qed
  then have "i \<le> entry_index (snd ?kv)" if "log_get st i \<noteq> None" for i
    using that keys [OF kv] by (force simp: log_get_def dest: bt_get_in_set)
  with get False show ?thesis
    by (auto simp: get_log_state_def get_last_purged_def Let_def)
qed

theorem get_log_state_last_witness:
  "snd (get_log_state (empty_raft_store :: unit raft_store)) = None"
  using get_log_state_last [OF log_wf_empty, where ?'a = unit]
  by (simp add: empty_raft_store_def log_get_def)

end
