(* ===== verification/Snapshot.thy ===== *)
theory Snapshot
  imports Raft_Log
begin

text \<open>
  Snapshots of \<^verbatim>\<open>src/store/mod.rs\<close>: the serializable form of the state machine, building a snapshot
  and installing one. \<open>serde_json\<close> is the pair of parameters \<open>to_json\<close> and \<open>from_json\<close>; what the code
  relies on is that decoding an encoded state gives the state back.
\<close>

section \<open>The serializable state machine\<close>

record serializable_sm =
  sr_last_applied :: "log_id option"
  sr_last_membership :: stored_membership
  sr_manifests :: "(digest, manifest) tree"
  sr_blobs :: "(digest, blob) tree"
  sr_tags :: "(repository_name, (string, digest) tree) tree"

definition group_tag ::
  "tag_key \<times> digest \<Rightarrow> (repository_name, (string, digest) tree) tree \<Rightarrow>
     (repository_name, (string, digest) tree) tree" where
  "group_tag kv t =
     (let r = tk_repository (fst kv);
          repo = (case bt_get t r of None \<Rightarrow> [] | Some m \<Rightarrow> m)
      in bt_insert r (bt_insert (tk_tag (fst kv)) (snd kv) repo) t)"

definition to_serializable :: "db \<Rightarrow> serializable_sm" where
  "to_serializable s =
     \<lparr>sr_last_applied = get_last_applied_log s,
      sr_last_membership = get_last_membership s,
      sr_manifests = bt_insert_all (manifests s) [],
      sr_blobs = bt_insert_all (blobs s) [],
      sr_tags = fold group_tag (tags s) []\<rparr>"

definition flat_tags ::
  "(repository_name, (string, digest) tree) tree \<Rightarrow> (tag_key \<times> digest) list" where
  "flat_tags t = [(TagKey (fst rm) (fst td), snd td). rm \<leftarrow> t, td \<leftarrow> snd rm]"

definition set_last_applied_log :: "log_id \<Rightarrow> db \<Rightarrow> db" where
  "set_last_applied_log l s = s\<lparr>db_last_applied := Some l\<rparr>"

definition set_last_membership :: "stored_membership \<Rightarrow> db \<Rightarrow> db" where
  "set_last_membership m s = s\<lparr>db_last_membership := Some m\<rparr>"

text \<open>The rows are inserted into the trees the node already has; nothing is removed from them.\<close>

definition from_serializable ::
  "u64 \<Rightarrow> serializable_sm \<Rightarrow> db \<Rightarrow> db \<times> digest set \<times> digest set" where
  "from_serializable i sm s =
     (let s = s\<lparr>blobs := bt_insert_all (sr_blobs sm) (blobs s)\<rparr>;
          pblob = fst ` set [kv \<leftarrow> sr_blobs sm. wanted i (snd kv)];
          s = s\<lparr>manifests := bt_insert_all (sr_manifests sm) (manifests s)\<rparr>;
          pmanifest = fst ` set [kv \<leftarrow> sr_manifests sm. wanted i (snd kv)];
          s = s\<lparr>tags := bt_insert_all (flat_tags (sr_tags sm)) (tags s)\<rparr>;
          s = (case sr_last_applied sm of None \<Rightarrow> s | Some l \<Rightarrow> set_last_applied_log l s);
          s = set_last_membership (sr_last_membership sm) s
      in (s, pblob, pmanifest))"

section \<open>Building and installing\<close>

text \<open>\<open>show_leader\<close> prints openraft's leader id.\<close>

definition snapshot_name :: "(log_id \<Rightarrow> string) \<Rightarrow> log_id option \<Rightarrow> u64 \<Rightarrow> string" where
  "snapshot_name show_leader applied idx =
     (case applied of
        Some l \<Rightarrow> show_leader l @ ''-'' @ show_u64 (li_index l) @ ''-'' @ show_u64 idx
      | None \<Rightarrow> ''--'' @ show_u64 idx)"

definition build_snapshot ::
  "(serializable_sm \<Rightarrow> bytes) \<Rightarrow> (log_id \<Rightarrow> string) \<Rightarrow> registry_store \<Rightarrow> 'v raft_store \<Rightarrow>
     registry_snapshot \<times> 'v raft_store" where
  "build_snapshot to_json show_leader st rs =
     (let sm = to_serializable (sm_db st);
          data = to_json sm;
          idx = get_snapshot_index rs + 1;
          rs = set_snapshot_index idx rs;
          meta = \<lparr>meta_last_log_id = sr_last_applied sm, meta_last_membership = sr_last_membership sm,
            meta_snapshot_id = snapshot_name show_leader (sr_last_applied sm) idx\<rparr>;
          snap = \<lparr>snap_meta = meta, snap_data = data\<rparr>
      in (snap, set_current_snapshot snap rs))"

datatype storage_error = SnapshotReadError

definition waiting :: "(digest \<Rightarrow> nat list option) \<Rightarrow> nat set" where
  "waiting w = {n. \<exists>d ns. w d = Some ns \<and> n \<in> set ns}"

definition install_snapshot ::
  "(bytes \<Rightarrow> serializable_sm option) \<Rightarrow> snapshot_meta \<Rightarrow> bytes \<Rightarrow> registry_store \<Rightarrow> 'v raft_store \<Rightarrow>
     storage_error + registry_store \<times> 'v raft_store" where
  "install_snapshot from_json meta data st rs =
     (let snap = \<lparr>snap_meta = meta, snap_data = data\<rparr>
      in case from_json data of
           None \<Rightarrow> Inl SnapshotReadError
         | Some sm \<Rightarrow>
             (case from_serializable (store_id st) sm (sm_db st) of
                (s, pblob, pmanifest) \<Rightarrow>
                  Inr (st\<lparr>sm_db := s, pending_blobs := pblob, pending_manifests := pmanifest,
                       blob_waiters := Map.empty, manifest_waiters := Map.empty,
                       failed := failed st \<union> waiting (blob_waiters st) \<union> waiting (manifest_waiters st),
                       channel := Suc (channel st)\<rparr>,
                     set_current_snapshot snap rs)))"

section \<open>Grouping and flattening tags\<close>

definition group_get ::
  "(repository_name, (string, digest) tree) tree \<Rightarrow> tag_key \<Rightarrow> digest option" where
  "group_get t k = (case bt_get t (tk_repository k) of None \<Rightarrow> None | Some m \<Rightarrow> bt_get m (tk_tag k))"

definition group_wf :: "(repository_name, (string, digest) tree) tree \<Rightarrow> bool" where
  "group_wf t \<longleftrightarrow> bt_wf t \<and> (\<forall>r m. bt_get t r = Some m \<longrightarrow> bt_wf m)"

lemma tag_key_eq_iff: "k = l \<longleftrightarrow> tk_repository k = tk_repository l \<and> tk_tag k = tk_tag l"
  by (cases k; cases l) simp

lemma group_get_tag:
  "group_get (group_tag kv t) k = (if k = fst kv then Some (snd kv) else group_get t k)"
  by (auto simp: group_get_def group_tag_def Let_def tag_key_eq_iff split: option.splits)

lemma group_wf_tag: "group_wf t \<Longrightarrow> group_wf (group_tag kv t)"
  by (auto simp: group_wf_def group_tag_def Let_def split: option.splits)

lemma group_all:
  "group_wf t \<Longrightarrow> group_wf (fold group_tag kvs t) \<and>
   group_get (fold group_tag kvs t) k =
     (case map_of (rev kvs) k of None \<Rightarrow> group_get t k | Some d \<Rightarrow> Some d)"
proof (induction kvs arbitrary: t)
  case (Cons kv kvs)
  show ?case using Cons.IH [OF group_wf_tag [OF Cons.prems, of kv]]
    by (cases kv) (auto simp: group_get_tag map_add_def split: option.splits)
qed simp

lemma map_of_flat_row:
  "map_of (map (\<lambda>td. (TagKey r (fst td), snd td)) m) k =
     (if tk_repository k = r then map_of m (tk_tag k) else None)"
  by (induction m) (auto simp: tag_key_eq_iff)

lemma map_of_flat_tags:
  assumes "distinct (map fst t)"
  shows "map_of (flat_tags t) k = group_get t k"
  using assms
proof (induction t)
  case (Cons rm t)
  have none: "bt_get t (fst rm) = None" using Cons.prems by (simp add: bt_get_None_iff)
  have "map_of (flat_tags (rm # t)) k =
      (case map_of (map (\<lambda>td. (TagKey (fst rm) (fst td), snd td)) (snd rm)) k of
        None \<Rightarrow> group_get t k | Some d \<Rightarrow> Some d)"
    using Cons by (simp add: flat_tags_def map_add_def split: option.splits)
  then show ?case using none
    by (auto simp: map_of_flat_row group_get_def bt_get_def split: option.splits)
qed (simp add: flat_tags_def group_get_def)

lemma flat_tags_Cons:
  "flat_tags (rm # t) = map (\<lambda>td. (TagKey (fst rm) (fst td), snd td)) (snd rm) @ flat_tags t"
  by (simp add: flat_tags_def)

lemma distinct_flat_tags:
  assumes "bt_wf t" and "\<And>rm. rm \<in> set t \<Longrightarrow> bt_wf (snd rm)"
  shows "distinct (map fst (flat_tags t))"
  using assms
proof (induction t)
  case (Cons rm t)
  have "distinct (map fst (map (\<lambda>td. (TagKey (fst rm) (fst td), snd td)) (snd rm)))"
    using bt_wf_distinct [OF Cons.prems(2) [of rm]] by (simp add: distinct_map inj_on_def comp_def)
  moreover have "distinct (map fst (flat_tags t))" using Cons by (simp add: bt_wf_Cons)
  moreover have "fst rm \<notin> fst ` set t" using bt_wf_distinct [OF Cons.prems(1)] by simp
  then have "fst ` set (map (\<lambda>td. (TagKey (fst rm) (fst td), snd td)) (snd rm)) \<inter>
      fst ` set (flat_tags t) = {}"
    by (fastforce simp: flat_tags_def)
  ultimately show ?case by (simp only: flat_tags_Cons map_append distinct_append set_map simp_thms)
qed (simp add: flat_tags_def)


section \<open>What an installed snapshot holds\<close>

lemma map_of_rev: "distinct (map fst t) \<Longrightarrow> map_of (rev t) = map_of t"
  by (metis distinct_rev map_of_eqI map_of_inject_set rev_map rev_rev_ident set_rev)

lemma bt_get_insert_tree:
  "bt_wf u \<Longrightarrow> bt_get (bt_insert_all u t) k = (case bt_get u k of None \<Rightarrow> bt_get t k | Some v \<Rightarrow> Some v)"
  by (simp add: bt_get_insert_all map_of_rev bt_wf_distinct) (simp add: bt_get_def)

definition merged :: "('k \<Rightarrow> 'v option) \<Rightarrow> ('k \<Rightarrow> 'v option) \<Rightarrow> 'k \<Rightarrow> 'v option" where
  "merged old new = (\<lambda>k. case new k of None \<Rightarrow> old k | Some v \<Rightarrow> Some v)"

definition spec_merge :: "registry_spec \<Rightarrow> registry_spec \<Rightarrow> registry_spec" where
  "spec_merge A B = \<lparr>sp_blobs = merged (sp_blobs A) (sp_blobs B),
     sp_manifests = merged (sp_manifests A) (sp_manifests B), sp_tags = merged (sp_tags A) (sp_tags B)\<rparr>"

lemma to_serializable_rows:
  assumes "db_wf s"
  shows "sr_blobs (to_serializable s) = blobs s" "sr_manifests (to_serializable s) = manifests s"
  using assms by (simp_all add: to_serializable_def db_wf_def bt_insert_all_self)

lemma to_serializable_tags:
  assumes "db_wf s"
  shows "map_of (rev (flat_tags (sr_tags (to_serializable s)))) = bt_get (tags s)"
proof -
  let ?g = "sr_tags (to_serializable s)"
  have wf: "group_wf ?g" and get: "group_get ?g k = bt_get (tags s) k" for k
    using group_all [of "[]" "tags s" k] bt_wf_distinct [of "tags s"] assms
    by (auto simp: to_serializable_def group_wf_def group_get_def db_wf_def map_of_rev bt_get_def
        split: option.splits)
  have t: "bt_wf ?g" using wf by (simp add: group_wf_def)
  have rows: "bt_wf (snd rm)" if "rm \<in> set ?g" for rm
    using that wf by (metis bt_get_iff group_wf_def prod.collapse)
  show ?thesis
    using map_of_rev [OF distinct_flat_tags [OF t rows]] map_of_flat_tags [OF bt_wf_distinct [OF t]]
      get by (simp add: fun_eq_iff)
qed

lemma from_serializable_eq:
  "fst (from_serializable i sm s) =
     s\<lparr>blobs := bt_insert_all (sr_blobs sm) (blobs s),
       manifests := bt_insert_all (sr_manifests sm) (manifests s),
       tags := bt_insert_all (flat_tags (sr_tags sm)) (tags s),
       db_last_applied := (case sr_last_applied sm of None \<Rightarrow> db_last_applied s | Some l \<Rightarrow> Some l),
       db_last_membership := Some (sr_last_membership sm)\<rparr>"
  by (simp add: from_serializable_def Let_def set_last_applied_log_def set_last_membership_def
      split: option.splits)

lemma installed_abs:
  assumes "db_wf s"
  shows "abs_db (fst (from_serializable i (to_serializable s) t)) = spec_merge (abs_db t) (abs_db s)"
  using assms to_serializable_tags [OF assms]
  by (simp add: abs_db_def spec_merge_def from_serializable_eq to_serializable_rows fun_eq_iff
      tx_get_blob_def tx_get_manifest_def merged_def bt_get_insert_tree db_wf_def
      bt_get_insert_all [of "flat_tags (sr_tags (to_serializable s))"]
      split: option.splits)

lemma installed_raft:
  "get_last_membership (fst (from_serializable i (to_serializable s) t)) = get_last_membership s"
  "get_last_applied_log (fst (from_serializable i (to_serializable s) t)) =
     (case get_last_applied_log s of None \<Rightarrow> get_last_applied_log t | Some l \<Rightarrow> Some l)"
  by (simp_all add: from_serializable_eq get_last_membership_def get_last_applied_log_def
      to_serializable_def split: option.splits)

lemma installed_wf:
  assumes "db_wf s" and "db_wf t"
  shows "db_wf (fst (from_serializable i (to_serializable s) t))"
proof -
  let ?u = "fst (from_serializable i (to_serializable s) t)"
  have trees: "bt_wf (blobs ?u)" "bt_wf (manifests ?u)" "bt_wf (tags ?u)"
    using assms by (simp_all add: from_serializable_eq db_wf_def bt_wf_insert_all)
  have abs: "sp_blobs (abs_db ?u) = merged (tx_get_blob t) (tx_get_blob s)"
      "sp_manifests (abs_db ?u) = merged (tx_get_manifest t) (tx_get_manifest s)"
    unfolding installed_abs [OF assms(1)] by (simp_all add: spec_merge_def)
  show ?thesis unfolding db_wf_def using trees abs assms
    by (auto simp: merged_def db_wf_def split: option.splits)
qed


section \<open>Properties of snapshots\<close>

text \<open>A snapshot built by one store and installed by another.\<close>

definition installed_store :: "serializable_sm \<Rightarrow> registry_store \<Rightarrow> registry_store" where
  "installed_store sm st = st\<lparr>sm_db := fst (from_serializable (store_id st) sm (sm_db st)),
     pending_blobs := pending_of (store_id st) (sr_blobs sm),
     pending_manifests := pending_of (store_id st) (sr_manifests sm),
     blob_waiters := Map.empty, manifest_waiters := Map.empty,
     failed := failed st \<union> waiting (blob_waiters st) \<union> waiting (manifest_waiters st),
     channel := Suc (channel st)\<rparr>"

lemma install_snapshot_Some:
  "from_json (snap_data snap) = Some sm \<Longrightarrow>
   install_snapshot from_json (snap_meta snap) (snap_data snap) st rs =
     Inr (installed_store sm st, set_current_snapshot snap rs)"
  by (cases snap) (simp add: install_snapshot_def installed_store_def from_serializable_def Let_def pending_of_def)

lemma build_snapshot_data:
  "build_snapshot to_json show_leader st rs = (snap, rs') \<Longrightarrow>
   snap_data snap = to_json (to_serializable (sm_db st)) \<and> get_current_snapshot rs' = Some snap"
  by (auto simp: build_snapshot_def Let_def get_current_snapshot_def set_current_snapshot_def)

text \<open>
  C26. Installing a snapshot merges: afterwards a row or tag is the snapshot's where the snapshot has
  one, and the node's own old one where it has none. The membership is the snapshot's, the node
  reports the snapshot as its current one, and its log is untouched.
\<close>

theorem install_snapshot_merges:
  fixes rs rs' rs1 :: "'v raft_store"
  assumes "db_wf (sm_db st)"
    and "from_json (to_json (to_serializable (sm_db st))) = Some (to_serializable (sm_db st))"
    and "build_snapshot to_json show_leader st rs = (snap, rs')"
  shows "\<exists>st2 rs2. install_snapshot from_json (snap_meta snap) (snap_data snap) st1 rs1 = Inr (st2, rs2) \<and>
    abs_db (sm_db st2) = spec_merge (abs_db (sm_db st1)) (abs_db (sm_db st)) \<and>
    get_last_membership (sm_db st2) = get_last_membership (sm_db st) \<and>
    get_current_snapshot rs2 = Some snap \<and> logs rs2 = logs rs1"
  using install_snapshot_Some [of from_json snap, where st = st1 and rs = rs1]
    build_snapshot_data [OF assms(3)] installed_abs [OF assms(1)] installed_raft(1) assms(2)
  by (auto simp: installed_store_def get_current_snapshot_def set_current_snapshot_def)

definition sample_db :: db where
  "sample_db = empty_db\<lparr>tags := [(TagKey (RepositoryName ''r'') ''t'', Digest ''sha256'' ''aa'')]\<rparr>"

lemma sample_db_wf: "db_wf sample_db"
  by (simp add: sample_db_def db_wf_def empty_db_def tx_get_blob_def tx_get_manifest_def bt_wf_def)

lemma sample_db_wf_store: "db_wf (sm_db (new_store i sample_db))"
  by (simp add: new_store_def sample_db_wf)

lemma sample_json:
  "(\<lambda>_. Some (to_serializable (sm_db (new_store i sample_db))))
     ((\<lambda>_. ''x'') (to_serializable (sm_db (new_store i sample_db)))) =
   Some (to_serializable (sm_db (new_store i sample_db)))"
  by simp

theorem install_snapshot_merges_witness:
  "\<exists>st2 rs2. install_snapshot (\<lambda>_. Some (to_serializable sample_db))
      (snap_meta (fst (build_snapshot (\<lambda>_. ''x'') (\<lambda>_. ''1-1'') (new_store 1 sample_db)
        (empty_raft_store :: unit raft_store)))) ''x''
      (new_store 2 empty_db) (empty_raft_store :: unit raft_store) = Inr (st2, rs2) \<and>
    abs_db (sm_db st2) = spec_merge (abs_db empty_db) (abs_db sample_db)"
proof -
  let ?b = "build_snapshot (\<lambda>_. ''x'') (\<lambda>_. ''1-1'') (new_store 1 sample_db)
    (empty_raft_store :: unit raft_store)"
  have b: "?b = (fst ?b, snd ?b)" by simp
  have "snap_data (fst ?b) = ''x''" using build_snapshot_data [OF b] by simp
  with install_snapshot_merges [OF sample_db_wf_store sample_json b, of "new_store 2 empty_db"
      "empty_raft_store :: unit raft_store"]
  show ?thesis by (auto simp: new_store_def)
qed

lemma merged_eq_iff: "merged old new = new \<longleftrightarrow> dom old \<subseteq> dom new"
proof -
  have "merged old new k = new k \<longleftrightarrow> (new k = None \<longrightarrow> old k = None)" for k
    by (simp add: merged_def split: option.splits)
  then show ?thesis by (auto simp: fun_eq_iff dom_def)
qed

text \<open>
  C37. The installing node ends with the builder's registry if and only if it had no row and no tag
  that the builder has not: rows deleted since the node's last entry survive the snapshot, and the
  replicas differ.
\<close>

theorem install_snapshot_replaces_iff:
  assumes "db_wf s"
  shows "abs_db (fst (from_serializable i (to_serializable s) t)) = abs_db s \<longleftrightarrow>
    dom (bt_get (blobs t)) \<subseteq> dom (bt_get (blobs s)) \<and>
    dom (bt_get (manifests t)) \<subseteq> dom (bt_get (manifests s)) \<and>
    dom (bt_get (tags t)) \<subseteq> dom (bt_get (tags s))"
  unfolding installed_abs [OF assms]
  by (simp add: spec_merge_def abs_db_def merged_eq_iff tx_get_blob_def [abs_def]
      tx_get_manifest_def [abs_def])

theorem install_snapshot_replaces_iff_witness:
  "abs_db (fst (from_serializable 1 (to_serializable empty_db) sample_db)) \<noteq> abs_db empty_db"
  using install_snapshot_replaces_iff [OF db_wf_empty, of 1 sample_db]
  by (simp add: sample_db_def empty_db_def dom_def)

text \<open>
  On a node without stale rows (a fresh one, for instance) an installed snapshot leaves the
  pending sets exactly right: they hold every row to fetch and nothing that is here. Every request
  that was waiting is resumed with an error, and the watch channels are new ones.
\<close>

theorem install_snapshot_store_inv:
  assumes "db_wf s" and "db_wf (sm_db st)"
    and "dom (bt_get (blobs (sm_db st))) \<subseteq> dom (bt_get (blobs s))"
    and "dom (bt_get (manifests (sm_db st))) \<subseteq> dom (bt_get (manifests s))"
    and "from_json data = Some (to_serializable s)"
  shows "\<exists>st2. install_snapshot from_json meta data st rs =
      Inr (st2, set_current_snapshot \<lparr>snap_meta = meta, snap_data = data\<rparr> rs) \<and>
    store_inv st2 \<and> channel st2 \<noteq> channel st \<and>
    waiting (blob_waiters st) \<union> waiting (manifest_waiters st) \<subseteq> failed st2"
proof -
  let ?st = "installed_store (to_serializable s) st"
  have run: "install_snapshot from_json meta data st rs =
      Inr (?st, set_current_snapshot \<lparr>snap_meta = meta, snap_data = data\<rparr> rs)"
    using install_snapshot_Some [of from_json "\<lparr>snap_meta = meta, snap_data = data\<rparr>"
        "to_serializable s" st rs] assms(5) by simp
  have wf: "db_wf (sm_db ?st)" using installed_wf [OF assms(1,2)] by (simp add: installed_store_def)
  have trees: "bt_wf (blobs s)" "bt_wf (manifests s)" using assms(1) by (simp_all add: db_wf_def)
  have "bt_get (bt_insert_all (blobs s) (blobs (sm_db st))) = bt_get (blobs s)"
    using assms(3) merged_eq_iff [of "bt_get (blobs (sm_db st))" "bt_get (blobs s)"]
    by (simp add: fun_eq_iff bt_get_insert_tree [OF trees(1)] merged_def)
  moreover have "bt_get (bt_insert_all (manifests s) (manifests (sm_db st))) = bt_get (manifests s)"
    using assms(4) merged_eq_iff [of "bt_get (manifests (sm_db st))" "bt_get (manifests s)"]
    by (simp add: fun_eq_iff bt_get_insert_tree [OF trees(2)] merged_def)
  ultimately have "get_blob ?st = bt_get (blobs s)" "get_manifest ?st = bt_get (manifests s)"
    by (simp_all add: get_blob_def [abs_def] get_manifest_def [abs_def] installed_store_def
        from_serializable_eq to_serializable_rows [OF assms(1)])
  then have "store_inv ?st" using wf
    by (auto simp: store_inv_def installed_store_def to_serializable_rows [OF assms(1)]
        pending_ok_def pending_of_iff [OF trees(1)] pending_of_iff [OF trees(2)] wanted_def)
  then show ?thesis using run by (auto simp: installed_store_def)
qed

theorem install_snapshot_store_inv_witness:
  "\<exists>st2 rs2. install_snapshot (\<lambda>_. Some (to_serializable sample_db))
      \<lparr>meta_last_log_id = None, meta_last_membership = default_membership, meta_snapshot_id = ''--1''\<rparr>
      ''x'' (new_store 2 empty_db) (empty_raft_store :: unit raft_store) = Inr (st2, rs2) \<and>
    store_inv st2"
proof -
  let ?meta = "\<lparr>meta_last_log_id = None, meta_last_membership = default_membership,
    meta_snapshot_id = ''--1''\<rparr>"
  have wf: "db_wf (sm_db (new_store 2 empty_db))" by (simp add: new_store_def)
  have none: "dom (bt_get (blobs (sm_db (new_store 2 empty_db)))) \<subseteq> dom (bt_get (blobs sample_db))"
    "dom (bt_get (manifests (sm_db (new_store 2 empty_db)))) \<subseteq> dom (bt_get (manifests sample_db))"
    by (simp_all add: new_store_def empty_db_def dom_def)
  show ?thesis
    using install_snapshot_store_inv [OF sample_db_wf wf none refl, where meta = ?meta and
        rs = "empty_raft_store :: unit raft_store"] by blast
qed

end
