(* ===== verification/Http.thy ===== *)
theory Http
  imports Registry_Types
begin

text \<open>
  What the registry's handlers answer with: \<^verbatim>\<open>src/registry/errors.rs\<close> and \<open>simple_oci_error\<close> of
  \<^verbatim>\<open>src/registry/utils.rs\<close>. A JSON body is kept as its value, a file body as its path.
\<close>

section \<open>Responses\<close>

datatype json =
  JNull | JBool bool | JNum int | JStr string | JArr "json list" | JObj "(string \<times> json) list"

datatype body = Empty_Body | Json_Body json | Text_Body string | File_Body "string list"

record http_response =
  status :: nat
  headers :: "(string \<times> string) list"
  body :: body

definition respond :: "nat \<Rightarrow> (string \<times> string) list \<Rightarrow> body \<Rightarrow> http_response" where
  "respond n hs b = \<lparr>status = n, headers = hs, body = b\<rparr>"

definition header :: "string \<Rightarrow> http_response \<Rightarrow> string option" where
  "header n r = map_of (headers r) n"

section \<open>Errors\<close>

datatype registry_error =
  MustAuthenticate (challenge: string)
| AccessDenied
| RepositoryNotFound
| ManifestNotFound
| ManifestInvalid
| DigestInvalid
| BlobNotFound
| UploadNotFound
| UploadInvalid
| RangeNotSatisfiable repository_name string u64

definition simple_oci_error :: "string \<Rightarrow> string \<Rightarrow> json" where
  "simple_oci_error code message =
     JObj [(''errors'', JArr [JObj [(''code'', JStr code), (''message'', JStr message)]])]"

fun error_response :: "registry_error \<Rightarrow> http_response" where
  "error_response (MustAuthenticate c) =
     respond 401 [(''Www-Authenticate'', c)]
       (Json_Body (simple_oci_error ''UNAUTHORIZED'' ''authentication required''))"
| "error_response AccessDenied =
     respond 403 [] (Json_Body (simple_oci_error ''DENIED''
       ''requested access to the resource is denied''))"
| "error_response RepositoryNotFound =
     respond 404 [] (Json_Body (simple_oci_error ''NAME_UNKNOWN''
       ''repository name not known to registry''))"
| "error_response ManifestNotFound =
     respond 404 [] (Json_Body (simple_oci_error ''MANIFEST_NOT_FOUND'' ''manifest not found''))"
| "error_response ManifestInvalid =
     respond 400 [] (Json_Body (simple_oci_error ''MANIFEST_INVALID'' ''upload was invalid''))"
| "error_response DigestInvalid =
     respond 400 [] (Json_Body (simple_oci_error ''DIGEST_INVALID''
       ''provided digest did not match uploaded content''))"
| "error_response BlobNotFound =
     respond 404 [] (Json_Body (simple_oci_error ''BLOB_NOT_FOUND'' ''blob not found''))"
| "error_response UploadNotFound =
     respond 404 [] (Json_Body (simple_oci_error ''BLOB_UPLOAD_UNKNOWN''
       ''blob upload unknown to registry''))"
| "error_response UploadInvalid =
     respond 400 [] (Json_Body (simple_oci_error ''BLOB_UPLOAD_INVALID'' ''the upload was invalid''))"
| "error_response (RangeNotSatisfiable r upload_id sz) =
     (let range_end = if 0 < sz then sz - 1 else 0
      in respond 416
        [(''Location'', ''/v2/'' @ repository_name_to_string r @ ''/blobs/uploads/'' @ upload_id),
         (''Range'', ''0-'' @ show_u64 range_end),
         (''Content-Length'', ''0''),
         (''Blob-Upload-Session-ID'', upload_id),
         (''Docker-Upload-UUID'', upload_id)] Empty_Body)"

lemma error_response_status:
  "status (error_response e) \<in> {400, 401, 403, 404, 416}"
  "status (error_response e) = 401 \<longleftrightarrow> (\<exists>c. e = MustAuthenticate c)"
  "status (error_response e) = 403 \<longleftrightarrow> e = AccessDenied"
  by (cases e; simp add: respond_def Let_def)+

section \<open>Replies of a handler\<close>

text \<open>
  A handler answers with a response, an error, or it panics (\<open>None\<close>). With its effect on the world
  \<open>'w\<close>: the actions it logged, the files it wrote.
\<close>

type_synonym reply = "registry_error + http_response"

text \<open>The response actix sends for a reply: the \<open>ResponseError\<close> of an error is rendered by \<open>error_response\<close>.\<close>

definition rendered :: "reply \<Rightarrow> http_response" where
  "rendered r = (case r of Inl e \<Rightarrow> error_response e | Inr h \<Rightarrow> h)"

definition reply_status :: "reply \<Rightarrow> nat" where
  "reply_status r = (case r of Inl e \<Rightarrow> status (error_response e) | Inr h \<Rightarrow> status h)"

end
