(* ===== verification/Token.thy ===== *)
theory Token
  imports Http
begin

text \<open>
  \<^verbatim>\<open>src/extractors/token.rs\<close>: the token of a request and what it allows, and \<open>Configuration::id\<close> of
  \<^verbatim>\<open>src/config.rs\<close>. Verifying a JWT is the parameter \<open>verify\<close>: the custom access claims and the subject
  of a token the library accepts.
\<close>

section \<open>Tokens\<close>

record access =
  acc_repository :: repository_name
  permissions :: "string set"

record token =
  access_list :: "access list"
  sub :: string
  validated_token :: bool
  admin :: bool
  realm :: "string option"
  service :: "string option"

record token_config =
  tc_issuer :: string
  tc_service :: string
  tc_realm :: string

datatype token_error = Missing | Invalid

definition token_error_response :: "token_error \<Rightarrow> http_response" where
  "token_error_response e = respond 403 [] Empty_Body"

record claims =
  claim_access :: "access list"
  subject :: "string option"

section \<open>Challenges\<close>

definition scope_of :: "(string set \<Rightarrow> string list) \<Rightarrow> access \<Rightarrow> string" where
  "scope_of it a = ''repository:'' @ repository_name_to_string (acc_repository a) @ '':'' @
     join '','' (it (permissions a))"

definition get_challenge :: "(string set \<Rightarrow> string list) \<Rightarrow> token \<Rightarrow> access list \<Rightarrow> string option" where
  "get_challenge it t as =
     (case service t of
        None \<Rightarrow> None
      | Some srv \<Rightarrow>
          (case realm t of
             None \<Rightarrow> None
           | Some rlm \<Rightarrow>
               Some (''Bearer realm=\"'' @ rlm @ ''\",service=\"'' @ srv @ ''\",scope=\"'' @
                 join '' '' (map (scope_of it) as) @ ''\"'')))"

definition get_pull_challenge ::
  "(string set \<Rightarrow> string list) \<Rightarrow> token \<Rightarrow> repository_name \<Rightarrow> string option" where
  "get_pull_challenge it t r =
     get_challenge it t [\<lparr>acc_repository = r, permissions = {''pull''}\<rparr>]"

definition get_push_challenge ::
  "(string set \<Rightarrow> string list) \<Rightarrow> token \<Rightarrow> repository_name \<Rightarrow> string option" where
  "get_push_challenge it t r =
     get_challenge it t [\<lparr>acc_repository = r, permissions = {''pull'', ''push''}\<rparr>]"

definition get_general_challenge :: "token \<Rightarrow> string option" where
  "get_general_challenge t =
     (case service t of
        None \<Rightarrow> None
      | Some srv \<Rightarrow>
          (case realm t of
             None \<Rightarrow> None
           | Some rlm \<Rightarrow> Some (''Bearer realm=\"'' @ rlm @ ''\",service=\"'' @ srv @ ''\"'')))"

section \<open>Permissions\<close>

fun grants :: "access list \<Rightarrow> repository_name \<Rightarrow> string \<Rightarrow> bool" where
  "grants [] r p = False"
| "grants (a # as) r p = (if acc_repository a = r \<and> p \<in> permissions a then True else grants as r p)"

definition has_permission :: "token \<Rightarrow> repository_name \<Rightarrow> string \<Rightarrow> bool" where
  "has_permission t r p =
     (if \<not> validated_token t then False
      else if admin t then True
      else grants (access_list t) r p)"

section \<open>The token of a request\<close>

text \<open>\<open>HeaderValue::to_str\<close> accepts visible ASCII and tabs only; its error is unwrapped.\<close>

definition visible_ascii :: "string \<Rightarrow> bool" where
  "visible_ascii s \<longleftrightarrow> list_all (\<lambda>c. (32 \<le> (of_char c :: nat) \<and> (of_char c :: nat) < 127) \<or>
     (of_char c :: nat) = 9) s"

definition from_request ::
  "(token_config \<Rightarrow> string \<Rightarrow> claims option) \<Rightarrow> token_config option \<Rightarrow> string option \<Rightarrow>
     (token_error + token) option" where
  "from_request verify config authorization =
     (case config of
        None \<Rightarrow> Some (Inr \<lparr>access_list = [], sub = ''anonymous'', validated_token = True,
          admin = True, realm = None, service = None\<rparr>)
      | Some cfg \<Rightarrow>
          (case authorization of
             None \<Rightarrow> Some (Inr \<lparr>access_list = [], sub = ''anonymous'', validated_token = False,
               admin = False, realm = Some (tc_realm cfg), service = Some (tc_service cfg)\<rparr>)
           | Some h \<Rightarrow>
               if \<not> visible_ascii h then None
               else case split_once (CHR '' '') h of
                 None \<Rightarrow> Some (Inl Missing)
               | Some (token_type, token_bytes) \<Rightarrow>
                   if ascii_lower token_type \<noteq> ''bearer'' then Some (Inl Invalid)
                   else case verify cfg token_bytes of
                     None \<Rightarrow> Some (Inl Invalid)
                   | Some cl \<Rightarrow>
                       (case subject cl of
                          None \<Rightarrow> Some (Inl Invalid)
                        | Some s \<Rightarrow> Some (Inr \<lparr>access_list = claim_access cl, sub = s,
                            validated_token = True, admin = False,
                            realm = Some (tc_realm cfg), service = Some (tc_service cfg)\<rparr>))))"

section \<open>Facts\<close>

lemma grants_iff: "grants as r p \<longleftrightarrow> (\<exists>a \<in> set as. acc_repository a = r \<and> p \<in> permissions a)"
  by (induction as) auto

lemma challenge_Some_iff:
  "get_challenge it t as \<noteq> None \<longleftrightarrow> service t \<noteq> None \<and> realm t \<noteq> None"
  "get_general_challenge t \<noteq> None \<longleftrightarrow> service t \<noteq> None \<and> realm t \<noteq> None"
  by (auto simp: get_challenge_def get_general_challenge_def split: option.splits)

lemma from_request_unvalidated:
  "from_request verify config authorization = Some (Inr t) \<Longrightarrow> \<not> validated_token t \<Longrightarrow>
   service t \<noteq> None \<and> realm t \<noteq> None"
  by (auto simp: from_request_def split: option.splits if_splits)

text \<open>A token the extractor produces: one that can be challenged unless it is validated.\<close>

definition token_ok :: "token \<Rightarrow> bool" where
  "token_ok t \<longleftrightarrow> validated_token t \<or> (service t \<noteq> None \<and> realm t \<noteq> None)"

lemma from_request_ok: "from_request verify config authorization = Some (Inr t) \<Longrightarrow> token_ok t"
  using from_request_unvalidated by (auto simp: token_ok_def)

section \<open>Node identifiers\<close>

datatype config_error = InvalidIdentifier | IdentifierNotNumber

definition config_id :: "string \<Rightarrow> config_error + u64" where
  "config_id identifier =
     (case rsplit_once (CHR ''-'') identifier of
        None \<Rightarrow> Inl InvalidIdentifier
      | Some (_, n) \<Rightarrow>
          (case parse_u64 n of
             None \<Rightarrow> Inl IdentifierNotNumber
           | Some i \<Rightarrow> Inr (i + 1)))"


section \<open>Properties of tokens\<close>

text \<open>
  When a token server is configured, a request has a permission on a repository only if it
  carries an authorization header of the form \<open>bearer <token>\<close> (in any case), the JWT library accepted
  that token, the token names a subject, and one of its access entries grants the permission on that
  very repository.
\<close>

theorem permission_needs_verified_token:
  assumes "from_request verify (Some cfg) authorization = Some (Inr t)"
    and "has_permission t r p"
  shows "\<exists>h ty tok cl. authorization = Some h \<and> split_once (CHR '' '') h = Some (ty, tok) \<and>
    ascii_lower ty = ''bearer'' \<and> verify cfg tok = Some cl \<and> subject cl = Some (sub t) \<and>
    (\<exists>a \<in> set (claim_access cl). acc_repository a = r \<and> p \<in> permissions a)"
  using assms
  by (auto simp: from_request_def has_permission_def grants_iff split: option.splits if_splits) blast

definition sample_claims :: claims where
  "sample_claims = \<lparr>claim_access = [\<lparr>acc_repository = RepositoryName ''r'', permissions = {''pull''}\<rparr>],
     subject = Some ''bob''\<rparr>"

theorem permission_needs_verified_token_witness:
  "\<exists>t h. from_request (\<lambda>_ _. Some sample_claims)
      (Some \<lparr>tc_issuer = ''i'', tc_service = ''s'', tc_realm = ''u''\<rparr>) (Some h) = Some (Inr t) \<and>
    has_permission t (RepositoryName ''r'') ''pull'' \<and> split_once (CHR '' '') h \<noteq> None"
proof -
  let ?cfg = "\<lparr>tc_issuer = ''i'', tc_service = ''s'', tc_realm = ''u''\<rparr>"
  let ?t = "\<lparr>access_list = claim_access sample_claims, sub = ''bob'', validated_token = True,
    admin = False, realm = Some ''u'', service = Some ''s''\<rparr>"
  have "ascii_lower ''Bearer'' = ''bearer''" by code_simp
  then have t: "from_request (\<lambda>_ _. Some sample_claims) (Some ?cfg) (Some ''Bearer x'') = Some (Inr ?t)"
    by (simp add: from_request_def visible_ascii_def sample_claims_def)
  have p: "has_permission ?t (RepositoryName ''r'') ''pull''"
    by (simp add: has_permission_def sample_claims_def)
  from permission_needs_verified_token [OF t p] t p show ?thesis by blast
qed

text \<open>
  Challenging a request never panics: whatever token the extractor hands to a handler, if it is
  not validated then the pull, push and general challenges all exist, and it has no permission.
\<close>

theorem unvalidated_token_challenged:
  assumes "from_request verify config authorization = Some (Inr t)" and "\<not> validated_token t"
  shows "get_pull_challenge it t r \<noteq> None \<and> get_push_challenge it t r \<noteq> None \<and>
    get_general_challenge t \<noteq> None \<and> \<not> has_permission t r p"
  using from_request_unvalidated [OF assms] assms(2)
  unfolding get_pull_challenge_def get_push_challenge_def challenge_Some_iff
  by (simp add: has_permission_def)

theorem unvalidated_token_challenged_witness:
  "\<exists>t. from_request (\<lambda>_ _. None) (Some \<lparr>tc_issuer = ''i'', tc_service = ''s'', tc_realm = ''u''\<rparr>) None =
      Some (Inr t) \<and> get_push_challenge (\<lambda>_. [''pull'', ''push'']) t (RepositoryName ''r'') \<noteq> None"
proof -
  let ?t = "\<lparr>access_list = [], sub = ''anonymous'', validated_token = False, admin = False,
    realm = Some ''u'', service = Some ''s''\<rparr>"
  have t: "from_request (\<lambda>_ _. None) (Some \<lparr>tc_issuer = ''i'', tc_service = ''s'', tc_realm = ''u''\<rparr>) None =
      Some (Inr ?t)" by (simp add: from_request_def)
  have "\<not> validated_token ?t" by simp
  from unvalidated_token_challenged [OF t this] t show ?thesis by blast
qed

text \<open>
  The node id of an identifier \<open><name>-<n>\<close> is \<open>n + 1\<close> for every name, hyphens included, so the
  ordinals of a stateful set give distinct ids.
\<close>

theorem config_id_ordinal: "config_id (name @ ''-'' @ show_u64 n) = Inr (n + 1)"
proof -
  have "CHR ''-'' \<notin> set (show_u64 n)"
    using show_u64_chars [of "CHR ''-''" n] by (auto simp: digit_value_def)
  then have "rsplit_once (CHR ''-'') (name @ CHR ''-'' # show_u64 n) = Some (name, show_u64 n)"
    by (simp add: rsplit_once_Some_iff)
  then show ?thesis by (simp add: config_id_def parse_show_u64)
qed

end
