(* ===== verification/Tag_List.thy ===== *)
theory Tag_List
  imports Orphans Token
begin

text \<open>
  The tags of a repository: \<open>get_tags\<close> of \<^verbatim>\<open>src/store/mod.rs\<close>, which scans a range of the sled tree,
  and the paginated listing of \<^verbatim>\<open>src/registry/tags/get.rs\<close>.

  The tree is ordered by the bytes of its keys, which bincode encodes field by field; its encoding
  of a string is the parameter \<open>ser\<close>. The code relies on it being self delimiting (a length comes
  first) and on the empty string having the least encoding.
\<close>

section \<open>Scanning the tag tree\<close>

definition tag_bytes :: "(string \<Rightarrow> bytes) \<Rightarrow> tag_key \<Rightarrow> bytes" where
  "tag_bytes ser k = ser (repo_name (tk_repository k)) @ ser (tk_tag k)"

definition sled_rows :: "(string \<Rightarrow> bytes) \<Rightarrow> (tag_key, digest) tree \<Rightarrow> (tag_key \<times> digest) list" where
  "sled_rows ser t = sort_key (\<lambda>kv. tag_bytes ser (fst kv)) t"

fun scan_tags :: "repository_name \<Rightarrow> (tag_key \<times> digest) list \<Rightarrow> string list" where
  "scan_tags r [] = []"
| "scan_tags r (kv # kvs) =
     (if tk_repository (fst kv) \<noteq> r then [] else tk_tag (fst kv) # scan_tags r kvs)"

definition get_tags ::
  "(string \<Rightarrow> bytes) \<Rightarrow> repository_name \<Rightarrow> registry_store \<Rightarrow> string list option" where
  "get_tags ser r st =
     Some (scan_tags r [kv \<leftarrow> sled_rows ser (tags (sm_db st)).
       tag_bytes ser (TagKey r '''') \<le> tag_bytes ser (fst kv)])"

definition string_encoding :: "(string \<Rightarrow> bytes) \<Rightarrow> bool" where
  "string_encoding ser \<longleftrightarrow>
     (\<forall>s t x y. ser s @ x = ser t @ y \<longrightarrow> s = t) \<and> (\<forall>s. ser '''' \<le> ser s)"

lemma scan_tags_takeWhile:
  "scan_tags r kvs = map (tk_tag \<circ> fst) (takeWhile (\<lambda>kv. tk_repository (fst kv) = r) kvs)"
  by (induction kvs) auto

lemma append_le_append: "(p @ a \<le> p @ b) \<longleftrightarrow> a \<le> (b :: 'a::linorder list)"
  by (induction p) auto

lemma prefix_between:
  "p @ a \<le> x \<Longrightarrow> x \<le> p @ b \<Longrightarrow> \<exists>z. x = p @ (z :: 'a::linorder list)"
proof (induction p arbitrary: x)
  case (Cons c p)
  then obtain d y where x: "x = d # y" by (cases x) auto
  have "c = d" and "p @ a \<le> y" "y \<le> p @ b" using Cons.prems unfolding x by auto
  then show ?case using Cons.IH x by auto
qed simp

lemma tag_bytes_inj:
  assumes "string_encoding ser" and "tag_bytes ser k = tag_bytes ser l"
  shows "k = l"
proof -
  have r: "repo_name (tk_repository k) = repo_name (tk_repository l)"
    using assms unfolding string_encoding_def tag_bytes_def by blast
  then have "ser (tk_tag k) @ [] = ser (tk_tag l) @ []" using assms(2) by (simp add: tag_bytes_def)
  then have "tk_tag k = tk_tag l" using assms(1) unfolding string_encoding_def by blast
  with r show ?thesis by (metis repository_name.expand tag_key.expand)
qed

lemma repository_rows_from_start:
  "string_encoding ser \<Longrightarrow> tk_repository k = r \<Longrightarrow>
   tag_bytes ser (TagKey r '''') \<le> tag_bytes ser k"
  by (auto simp: tag_bytes_def append_le_append string_encoding_def)

lemma repository_rows_first:
  assumes enc: "string_encoding ser" and r: "tk_repository l = r"
    and start: "tag_bytes ser (TagKey r '''') \<le> tag_bytes ser k" and le: "tag_bytes ser k \<le> tag_bytes ser l"
  shows "tk_repository k = r"
proof -
  obtain z where "tag_bytes ser k = ser (repo_name r) @ z"
    using prefix_between [of "ser (repo_name r)" "ser ''''" "tag_bytes ser k" "ser (tk_tag l)"]
      start le r by (auto simp: tag_bytes_def)
  then have "repo_name (tk_repository k) = repo_name r"
    using enc by (auto simp: tag_bytes_def string_encoding_def)
  then show ?thesis by (metis repository_name.expand)
qed

lemma get_tags_eq:
  assumes enc: "string_encoding ser"
  shows "get_tags ser r st = Some (map (tk_tag \<circ> fst)
    [kv \<leftarrow> sled_rows ser (tags (sm_db st)). tk_repository (fst kv) = r])"
proof -
  let ?rows = "sled_rows ser (tags (sm_db st))" and ?key = "\<lambda>kv. tag_bytes ser (fst kv)"
  let ?from = "[kv \<leftarrow> ?rows. tag_bytes ser (TagKey r '''') \<le> ?key kv]"
  let ?Q = "\<lambda>kv :: tag_key \<times> digest. tk_repository (fst kv) = r"
  have "sorted (map ?key ?rows)" by (simp add: sled_rows_def)
  then have "sorted_wrt (\<lambda>x y. ?key x \<le> ?key y) ?from" by (simp add: sorted_wrt_map sorted_wrt_filter)
  then have "sorted_wrt (\<lambda>x y. ?Q y \<longrightarrow> ?Q x) ?from"
    by (rule sorted_wrt_mono_rel [rotated]) (auto intro: repository_rows_first [OF enc])
  then have "takeWhile ?Q ?from = filter ?Q ?from" by (rule takeWhile_sorted_filter)
  also have "\<dots> = filter ?Q ?rows"
    using repository_rows_from_start [OF enc] by (auto intro: filter_cong)
  finally show ?thesis by (simp add: get_tags_def scan_tags_takeWhile)
qed

lemma get_tags_result:
  assumes "string_encoding ser" and "bt_wf (tags (sm_db st))"
  shows "\<exists>ts. get_tags ser r st = Some ts \<and> distinct ts \<and>
    set ts = {t. bt_get (tags (sm_db st)) (TagKey r t) \<noteq> None}"
proof -
  let ?rows = "[kv \<leftarrow> sled_rows ser (tags (sm_db st)). tk_repository (fst kv) = r]"
  have "distinct (map fst (sled_rows ser (tags (sm_db st))))"
    using bt_wf_distinct [OF assms(2)] by (simp add: sled_rows_def distinct_map distinct_sort)
  then have "distinct (map fst ?rows)" by (rule distinct_map_filter)
  moreover have "inj_on tk_tag (set (map fst ?rows))"
    by (auto simp: inj_on_def intro: tag_key.expand)
  ultimately have "distinct (map tk_tag (map fst ?rows))" by (simp only: distinct_map)
  then have "distinct (map (tk_tag \<circ> fst) ?rows)" by (simp only: map_map)
  moreover have "set (map (tk_tag \<circ> fst) ?rows) = {t. bt_get (tags (sm_db st)) (TagKey r t) \<noteq> None}"
  proof (rule set_eqI)
    fix t
    have "t \<in> set (map (tk_tag \<circ> fst) ?rows) \<longleftrightarrow> (\<exists>d. (TagKey r t, d) \<in> set (tags (sm_db st)))"
      by (force simp: sled_rows_def)
    then show "t \<in> set (map (tk_tag \<circ> fst) ?rows) \<longleftrightarrow>
        t \<in> {t. bt_get (tags (sm_db st)) (TagKey r t) \<noteq> None}"
      using bt_get_iff [OF assms(2)] by auto
  qed
  ultimately show ?thesis using get_tags_eq [OF assms(1)] by blast
qed


section \<open>The paginated list\<close>

fun position :: "('a \<Rightarrow> bool) \<Rightarrow> 'a list \<Rightarrow> nat option" where
  "position P [] = None"
| "position P (x # xs) = (if P x then Some 0 else map_option Suc (position P xs))"

text \<open>The page: its tags and whether a \<open>Link\<close> header follows. \<open>None\<close> is a panic.\<close>

definition tags_page ::
  "string list \<Rightarrow> string option \<Rightarrow> nat option \<Rightarrow> (string list \<times> bool) option" where
  "tags_page ts start n =
     (let ts = sort ts;
          ts = (case start of
              None \<Rightarrow> Some ts
            | Some l \<Rightarrow> map_option (\<lambda>i. drop i ts) (position (\<lambda>r. r = l) ts))
      in case ts of
           None \<Rightarrow> None
         | Some ts \<Rightarrow>
             (case n of
                None \<Rightarrow> Some (ts, False)
              | Some n \<Rightarrow> if n \<le> length ts then Some (take n ts, n < length ts) else None))"

definition next_link :: "repository_name \<Rightarrow> string list \<Rightarrow> nat option \<Rightarrow> string" where
  "next_link r ts n =
     (let fragments = (if ts = [] then [] else [''last='' @ last ts]) @
            (case n of None \<Rightarrow> [] | Some n \<Rightarrow> [''n='' @ nat_digits n]);
          suffix = (if fragments \<noteq> [] then ''?'' @ join ''&'' fragments else [])
      in ''/v2/'' @ repository_name_to_string r @ ''/tags/list'' @ suffix @ ''; rel=\"next\"'')"

definition tags_list_get ::
  "(string set \<Rightarrow> string list) \<Rightarrow> (string \<Rightarrow> bytes) \<Rightarrow> registry_store \<Rightarrow> token \<Rightarrow> repository_name \<Rightarrow>
     string option \<Rightarrow> nat option \<Rightarrow> reply option" where
  "tags_list_get it ser st tok r start n =
     (if \<not> validated_token tok
      then map_option (\<lambda>c. Inl (MustAuthenticate c)) (get_pull_challenge it tok r)
      else if \<not> has_permission tok r ''pull'' then Some (Inl AccessDenied)
      else case get_tags ser r st of
        None \<Rightarrow> Some (Inl RepositoryNotFound)
      | Some ts \<Rightarrow>
          map_option (\<lambda>(ts, include_link).
              Inr (respond 200 (if include_link then [(''Link'', next_link r ts n)] else [])
                (Json_Body (JObj [(''name'', JStr (repository_name_to_string r)),
                  (''tags'', JArr (map JStr ts))]))))
            (tags_page ts start n))"

lemma position_None_iff: "position P xs = None \<longleftrightarrow> (\<forall>x \<in> set xs. \<not> P x)"
  by (induction xs) auto

lemma position_Some:
  "position P xs = Some i \<Longrightarrow> i < length xs \<and> P (xs ! i) \<and> (\<forall>j < i. \<not> P (xs ! j))"
proof (induction xs arbitrary: i)
  case (Cons x xs)
  then show ?case by (auto simp: less_Suc_eq_0_disj split: if_splits)
qed simp

lemma drop_position_sorted:
  assumes "sorted xs" and "distinct xs" and "position (\<lambda>r. r = l) xs = Some i"
  shows "drop i xs = [x \<leftarrow> xs. l \<le> x]"
  using assms
proof (induction xs arbitrary: i)
  case (Cons x xs)
  show ?case
  proof (cases "x = l")
    case True
    then show ?thesis using Cons.prems by (auto simp: filter_id_conv)
  next
    case False
    then obtain j where j: "position (\<lambda>r. r = l) xs = Some j" "i = Suc j"
      using Cons.prems(3) by auto
    have "l \<in> set xs" using j(1) position_Some [OF j(1)] by (metis nth_mem)
    then have "x < l" using Cons.prems(1) False by auto
    then show ?thesis using Cons j by auto
  qed
qed simp

section \<open>Properties of the tag list\<close>

text \<open>
  C38. The range scan of the tag tree returns every tag of the repository, each once, and no tag of
  another repository, whatever other names share a prefix with it.
\<close>

theorem get_tags_repository:
  assumes "string_encoding ser" and "bt_wf (tags (sm_db st))"
  shows "\<exists>ts. get_tags ser r st = Some ts \<and> distinct ts \<and>
    set ts = {t. get_tag (sm_db st) r t \<noteq> None}"
  using get_tags_result [OF assms] by (simp add: get_tag_def)

text \<open>A self-delimiting encoding: every byte is preceded by a 1, and a 0 ends the string.\<close>

fun escape_string :: "string \<Rightarrow> bytes" where
  "escape_string [] = [CHR 0x00]"
| "escape_string (c # cs) = CHR 0x01 # c # escape_string cs"

lemma escape_string_encoding: "string_encoding escape_string"
proof -
  have "s = t" if "escape_string s @ x = escape_string t @ y" for s t x y
    using that
  proof (induction s arbitrary: t)
    case Nil
    then show ?case by (cases t) auto
  next
    case (Cons c s)
    then show ?case by (cases t) auto
  qed
  moreover have "escape_string [] \<le> escape_string s" for s
    by (cases s) auto
  ultimately show ?thesis unfolding string_encoding_def by blast
qed

definition tagged_db :: db where
  "tagged_db = empty_db\<lparr>tags := [(TagKey (RepositoryName ''a'') ''x'', Digest ''sha256'' ''aa''),
     (TagKey (RepositoryName ''ab'') ''y'', Digest ''sha256'' ''bb'')]\<rparr>"

lemma tagged_db_wf: "bt_wf (tags (sm_db (new_store 1 tagged_db)))"
  by (simp add: tagged_db_def new_store_def empty_db_def bt_wf_def less_tag_key_def less_repository_name_def)

theorem get_tags_repository_witness:
  "\<exists>ts. get_tags escape_string (RepositoryName ''a'') (new_store 1 tagged_db) = Some ts \<and> set ts = {''x''}"
  using get_tags_repository [OF escape_string_encoding tagged_db_wf, of "RepositoryName ''a''"]
  by (auto simp: tagged_db_def new_store_def empty_db_def get_tag_def split: if_splits)

text \<open>
  Listing the tags panics exactly when the client names a \<open>last\<close> tag that is not (or no longer)
  in the repository, or asks for more tags than are left from it.
\<close>

theorem tags_page_panics_iff:
  assumes "distinct ts"
  shows "tags_page ts start n = None \<longleftrightarrow>
    (\<exists>l. start = Some l \<and> l \<notin> set ts) \<or>
    (\<exists>k. n = Some k \<and> length [t \<leftarrow> ts. case start of None \<Rightarrow> True | Some l \<Rightarrow> l \<le> t] < k)"
proof (cases start)
  case None
  then show ?thesis by (auto simp: tags_page_def Let_def split: option.splits)
next
  case (Some l)
  show ?thesis
  proof (cases "position (\<lambda>r. r = l) (sort ts)")
    case none: None
    then have "l \<notin> set ts" by (auto simp: position_None_iff)
    then show ?thesis using Some none by (simp add: tags_page_def)
  next
    case pos: (Some i)
    have "l \<in> set ts" using position_Some [OF pos] by (metis nth_mem set_sort)
    moreover have "length (drop i (sort ts)) = length [t \<leftarrow> ts. l \<le> t]"
      using drop_position_sorted [OF sorted_sort _ pos] assms
      by (metis distinct_sort filter_sort length_sort)
    ultimately show ?thesis using Some pos
      by (auto simp: tags_page_def Let_def split: option.splits)
  qed
qed

theorem tags_page_panics_iff_witness:
  "tags_page [''b'', ''a''] None (Some 3) = None"
  using tags_page_panics_iff [of "[''b'', ''a'']" None "Some 3"] by simp

end
