(* ===== verification/Files.thy ===== *)
theory Files
  imports Registry_Types
begin

text \<open>
  The part of the file system the registry uses (\<open>std::fs\<close>, \<open>tokio::fs\<close>, \<open>std::path\<close>), the storage
  layout of \<^verbatim>\<open>src/utils.rs\<close>, and \<open>upload_part\<close>, \<open>get_hash\<close> and \<open>validate_hash\<close> of
  \<^verbatim>\<open>src/registry/utils.rs\<close>.

  A path is the list of its components; an absolute one starts with the component \<open>/\<close>. Every
  operation can fail for reasons outside the model: the oracle \<open>io\<close> says which do.
\<close>

section \<open>Paths\<close>

type_synonym path = "string list"

definition components :: "string \<Rightarrow> path" where
  "components s =
     (if starts_with ''/'' s then [''/''] else []) @
     [c \<leftarrow> split_on (CHR ''/'') s. c \<noteq> [] \<and> c \<noteq> ''.'']"

definition path_push :: "path \<Rightarrow> string \<Rightarrow> path" where
  "path_push p s = (if starts_with ''/'' s then components s else p @ components s)"

definition path_parent :: "path \<Rightarrow> path option" where
  "path_parent p = (if p = [] \<or> p = [''/''] then None else Some (butlast p))"

section \<open>The file system\<close>

record filesystem =
  files :: "path \<Rightarrow> bytes option"
  dirs :: "path set"

datatype io_op =
  Open path | Write path nat | Sync path | Read path | Read_String path | Stat path | Rename path path
| Remove_File path | Read_Dir path | Remove_Dir path | Create_Dir path

type_synonym io = "io_op \<Rightarrow> bool"

definition is_file :: "path \<Rightarrow> filesystem \<Rightarrow> bool" where
  "is_file p f \<longleftrightarrow> files f p \<noteq> None"

definition path_exists :: "path \<Rightarrow> filesystem \<Rightarrow> bool" where
  "path_exists p f \<longleftrightarrow> files f p \<noteq> None \<or> p \<in> dirs f"

definition parent_exists :: "path \<Rightarrow> filesystem \<Rightarrow> bool" where
  "parent_exists p f \<longleftrightarrow> (case path_parent p of None \<Rightarrow> False | Some q \<Rightarrow> q \<in> dirs f)"

text \<open>\<open>OpenOptions::append(true).create(true)\<close>\<close>

definition open_append :: "io \<Rightarrow> path \<Rightarrow> filesystem \<Rightarrow> filesystem option" where
  "open_append io p f =
     (if io (Open p) \<and> parent_exists p f \<and> p \<notin> dirs f
      then Some (f\<lparr>files := (files f)(p \<mapsto> (case files f p of None \<Rightarrow> [] | Some b \<Rightarrow> b))\<rparr>)
      else None)"

definition append_file :: "path \<Rightarrow> bytes \<Rightarrow> filesystem \<Rightarrow> filesystem" where
  "append_file p bs f =
     f\<lparr>files := (files f)(p \<mapsto> (case files f p of None \<Rightarrow> [] | Some b \<Rightarrow> b) @ bs)\<rparr>"

definition file_len :: "io \<Rightarrow> path \<Rightarrow> filesystem \<Rightarrow> u64 option" where
  "file_len io p f = (if io (Stat p) then map_option (\<lambda>b. of_nat (length b)) (files f p) else None)"

text \<open>\<open>read_to_string\<close> also fails when the content is not UTF-8; the oracle covers that.\<close>

definition read_to_string :: "io \<Rightarrow> path \<Rightarrow> filesystem \<Rightarrow> string option" where
  "read_to_string io p f = (if io (Read_String p) then files f p else None)"

definition rename_file :: "io \<Rightarrow> path \<Rightarrow> path \<Rightarrow> filesystem \<Rightarrow> filesystem option" where
  "rename_file io p q f =
     (case files f p of
        None \<Rightarrow> None
      | Some b \<Rightarrow>
          if io (Rename p q) \<and> parent_exists q f \<and> q \<notin> dirs f
          then Some (f\<lparr>files := (files f)(p := None, q \<mapsto> b)\<rparr>) else None)"

definition remove_file :: "io \<Rightarrow> path \<Rightarrow> filesystem \<Rightarrow> filesystem option" where
  "remove_file io p f =
     (if io (Remove_File p) \<and> files f p \<noteq> None then Some (f\<lparr>files := (files f)(p := None)\<rparr>) else None)"

definition create_dir_all :: "io \<Rightarrow> path \<Rightarrow> filesystem \<Rightarrow> filesystem option" where
  "create_dir_all io p f =
     (if io (Create_Dir p) \<and> list_all (\<lambda>n. files f (take n p) = None) [0..<Suc (length p)]
      then Some (f\<lparr>dirs := dirs f \<union> {take n p | n. n \<le> length p}\<rparr>) else None)"

section \<open>The storage layout\<close>

definition get_blob_path ::
  "io \<Rightarrow> path \<Rightarrow> digest \<Rightarrow> filesystem \<Rightarrow> (path \<times> filesystem) option" where
  "get_blob_path io root d f =
     (let h = hash d; path = path_push root ''blobs''
      in case (str_slice h 0 2, str_slice h 2 4, str_slice h 4 6, str_slice_from h 6) of
           (Some a, Some b, Some c, Some rest) \<Rightarrow>
             (let path = path_push (path_push (path_push path a) b) c
              in case create_dir_all io path f of
                   None \<Rightarrow> None
                 | Some f' \<Rightarrow> Some (path_push path rest, f'))
         | _ \<Rightarrow> None)"

definition get_manifest_path ::
  "io \<Rightarrow> path \<Rightarrow> digest \<Rightarrow> filesystem \<Rightarrow> (path \<times> filesystem) option" where
  "get_manifest_path io root d f =
     (let h = hash d; path = path_push root ''manifests''
      in case (str_slice h 0 2, str_slice h 2 4, str_slice h 4 6, str_slice_from h 6) of
           (Some a, Some b, Some c, Some rest) \<Rightarrow>
             (let path = path_push (path_push (path_push path a) b) c
              in case create_dir_all io path f of
                   None \<Rightarrow> None
                 | Some f' \<Rightarrow> Some (path_push path rest, f'))
         | _ \<Rightarrow> None)"

text \<open>\<open>Digest::to_path\<close>: where a digest stands below the directory of its kind; \<open>None\<close> when slicing panics.\<close>

definition to_path :: "digest \<Rightarrow> path option" where
  "to_path d =
     (let h = hash d
      in case (str_slice h 0 2, str_slice h 2 4, str_slice h 4 6, str_slice_from h 6) of
           (Some a, Some b, Some c, Some rest) \<Rightarrow>
             Some (path_push (path_push (path_push (components a) b) c) rest)
         | _ \<Rightarrow> None)"

definition get_upload_path :: "path \<Rightarrow> string \<Rightarrow> path" where
  "get_upload_path root upload_id = path_push (path_push root ''uploads'') (''blob-'' @ upload_id)"

text \<open>The two temporary paths take a fresh UUID.\<close>

definition get_temp_path :: "string \<Rightarrow> path \<Rightarrow> path" where
  "get_temp_path uuid root = path_push (path_push root ''uploads'') (''manifest-'' @ uuid)"

definition get_temp_mirror_path :: "string \<Rightarrow> path \<Rightarrow> path" where
  "get_temp_mirror_path uuid root = path_push (path_push root ''uploads'') (''mirror-'' @ uuid)"

section \<open>Uploading and hashing\<close>

text \<open>
  The chunks of a request body; \<open>None\<close> is a transport error, which the code unwraps. The result is
  the file system and the answer, \<open>None\<close> for a panic.
\<close>

fun write_chunks ::
  "io \<Rightarrow> path \<Rightarrow> nat \<Rightarrow> bytes option list \<Rightarrow> filesystem \<Rightarrow> filesystem \<times> bool option" where
  "write_chunks io p n [] f = (f, Some (io (Sync p)))"
| "write_chunks io p n (None # cs) f = (f, None)"
| "write_chunks io p n (Some bs # cs) f =
     (if io (Write p n) then write_chunks io p (Suc n) cs (append_file p bs f) else (f, Some False))"

definition upload_part ::
  "io \<Rightarrow> path \<Rightarrow> bytes option list \<Rightarrow> filesystem \<Rightarrow> filesystem \<times> bool option" where
  "upload_part io p cs f =
     (case open_append io p f of
        None \<Rightarrow> (f, Some False)
      | Some f' \<Rightarrow> write_chunks io p 0 cs f')"

text \<open>SHA-256 and hex encoding are the parameters \<open>sha\<close> and \<open>hexlower\<close>.\<close>

definition get_hash ::
  "(bytes \<Rightarrow> bytes) \<Rightarrow> (bytes \<Rightarrow> string) \<Rightarrow> io \<Rightarrow> path \<Rightarrow> filesystem \<Rightarrow> digest option" where
  "get_hash sha hexlower io p f =
     (case files f p of
        None \<Rightarrow> None
      | Some b \<Rightarrow>
          if io (Open p) \<and> io (Read p) then Some (from_sha256 hexlower (sha b)) else None)"

definition validate_hash ::
  "(bytes \<Rightarrow> bytes) \<Rightarrow> (bytes \<Rightarrow> string) \<Rightarrow> io \<Rightarrow> path \<Rightarrow> digest \<Rightarrow> filesystem \<Rightarrow> bool" where
  "validate_hash sha hexlower io p d f =
     (case get_hash sha hexlower io p f of None \<Rightarrow> False | Some actual \<Rightarrow> actual = d)"

section \<open>Facts about the layout\<close>

text \<open>
  The digests the node computes itself: lower-case hex, long enough for the layout. Nothing else is
  ever stored under a digest, see the handlers.
\<close>

definition hex_char :: "char \<Rightarrow> bool" where
  "hex_char c \<longleftrightarrow> c \<in> set ''0123456789abcdef''"

definition hex_digest :: "digest \<Rightarrow> bool" where
  "hex_digest d \<longleftrightarrow> algo d = ''sha256'' \<and> 6 < length (hash d) \<and> list_all hex_char (hash d)"

definition object_path :: "string \<Rightarrow> path \<Rightarrow> digest \<Rightarrow> path" where
  "object_path kind root d =
     (let h = hash d in root @ [kind, take 2 h, take 2 (drop 2 h), take 2 (drop 4 h), drop 6 h])"

abbreviation "blob_file \<equiv> object_path ''blobs''"
abbreviation "manifest_file \<equiv> object_path ''manifests''"

lemma object_path_inj:
  assumes "hex_digest d" and "hex_digest e" and "object_path k root d = object_path k root e"
  shows "d = e"
proof -
  have "hash d = take 2 (hash d) @ take 2 (drop 2 (hash d)) @ take 2 (drop 4 (hash d)) @ drop 6 (hash d)"
    for d
    by (metis (no_types, lifting) add_2_eq_Suc' append_take_drop_id drop_drop numeral_2_eq_2
        numeral_Bit0 add_numeral_left arith_simps(2) one_plus_numeral semiring_norm(2,3,5))
  from this [of d] this [of e] assms show ?thesis
    by (simp add: object_path_def Let_def hex_digest_def digest.expand)
qed

definition plain :: "string \<Rightarrow> bool" where
  "plain s \<longleftrightarrow> s \<noteq> [] \<and> s \<noteq> ''.'' \<and> CHR ''/'' \<notin> set s"

lemma components_plain: "plain s \<Longrightarrow> components s = [s]"
  by (auto simp: plain_def components_def split_on_no_sep starts_with_iff)

lemma path_push_plain: "plain s \<Longrightarrow> path_push p s = p @ [s]"
  by (auto simp: path_push_def components_plain plain_def starts_with_iff)

lemma hex_char_cases: "hex_char c \<Longrightarrow> (of_char c :: nat) < 128 \<and> c \<noteq> CHR ''/'' \<and> c \<noteq> CHR ''.'' \<and> c \<noteq> CHR '':''"
  by (auto simp: hex_char_def)

lemma str_slice_hex:
  assumes "list_all hex_char s" and "a \<le> b" and "b \<le> length s"
  shows "str_slice s a b = Some (take (b - a) (drop a s))"
proof -
  have "is_char_boundary s i" if "i \<le> length s" for i
    using assms(1) that hex_char_cases [of "s ! i"]
    by (cases "i = length s") (auto simp: is_char_boundary_def list_all_length)
  with assms show ?thesis by (simp add: str_slice_def)
qed

lemma hex_plain: "list_all hex_char s \<Longrightarrow> s \<noteq> [] \<Longrightarrow> plain s"
  using hex_char_cases by (cases s) (auto simp: plain_def list_all_iff)

lemma hex_parts:
  assumes "hex_digest d"
  shows "str_slice (hash d) 0 2 = Some (take 2 (hash d))"
    "str_slice (hash d) 2 4 = Some (take 2 (drop 2 (hash d)))"
    "str_slice (hash d) 4 6 = Some (take 2 (drop 4 (hash d)))"
    "str_slice_from (hash d) 6 = Some (drop 6 (hash d))"
    "plain (take 2 (hash d))" "plain (take 2 (drop 2 (hash d)))" "plain (take 2 (drop 4 (hash d)))"
    "plain (drop 6 (hash d))"
proof -
  have h: "list_all hex_char (hash d)" "6 < length (hash d)" using assms by (simp_all add: hex_digest_def)
  show "str_slice (hash d) 0 2 = Some (take 2 (hash d))"
    "str_slice (hash d) 2 4 = Some (take 2 (drop 2 (hash d)))"
    "str_slice (hash d) 4 6 = Some (take 2 (drop 4 (hash d)))"
    "str_slice_from (hash d) 6 = Some (drop 6 (hash d))"
    using h by (simp_all add: str_slice_hex str_slice_from_def)
  show "plain (take 2 (hash d))" "plain (take 2 (drop 2 (hash d)))" "plain (take 2 (drop 4 (hash d)))"
    "plain (drop 6 (hash d))"
    using h by (auto intro!: hex_plain simp: list_all_iff dest!: in_set_takeD in_set_dropD)
qed

lemma kind_plain: "plain ''blobs''" "plain ''manifests''" "plain ''uploads''"
  by (simp_all add: plain_def)

lemma get_blob_path_hex:
  "hex_digest d \<Longrightarrow> get_blob_path io root d f =
     map_option (\<lambda>f'. (blob_file root d, f')) (create_dir_all io (butlast (blob_file root d)) f)"
  by (simp add: get_blob_path_def hex_parts path_push_plain kind_plain object_path_def Let_def
      butlast_append split: option.splits)

lemma get_manifest_path_hex:
  "hex_digest d \<Longrightarrow> get_manifest_path io root d f =
     map_option (\<lambda>f'. (manifest_file root d, f')) (create_dir_all io (butlast (manifest_file root d)) f)"
  by (simp add: get_manifest_path_def hex_parts path_push_plain kind_plain object_path_def Let_def
      butlast_append split: option.splits)

text \<open>The layout of \<open>get_blob_path\<close> and \<open>get_manifest_path\<close> is the one of \<open>Digest::to_path\<close>.\<close>

lemma object_path_to_path:
  "hex_digest d \<Longrightarrow> map_option ((@) (root @ [kind])) (to_path d) = Some (object_path kind root d)"
  by (simp add: to_path_def hex_parts path_push_plain components_plain object_path_def Let_def)

lemma create_dir_all_files: "create_dir_all io p f = Some f' \<Longrightarrow> files f' = files f \<and> dirs f \<subseteq> dirs f'"
  by (auto simp: create_dir_all_def split: if_splits)

lemma create_dir_all_dir: "create_dir_all io p f = Some f' \<Longrightarrow> p \<in> dirs f'"
  by (auto simp: create_dir_all_def split: if_splits intro!: exI [of _ "length p"])

lemma create_dir_all_not_dir:
  assumes "create_dir_all io (butlast p) f = Some f'" and "p \<noteq> []" and "p \<notin> dirs f"
  shows "p \<notin> dirs f'"
proof -
  have "length (take k (butlast p)) < length p" for k using assms(2) by (cases p) auto
  then have "p \<noteq> take k (butlast p)" for k by (metis less_irrefl)
  then show ?thesis using assms(1,3) by (auto simp: create_dir_all_def split: if_splits)
qed

section \<open>The contract of a layout\<close>

locale object_layout =
  fixes locate :: "io \<Rightarrow> path \<Rightarrow> digest \<Rightarrow> filesystem \<Rightarrow> (path \<times> filesystem) option"
    and kind :: string
  assumes locate_hex: "hex_digest d \<Longrightarrow> locate io root d f =
      map_option (\<lambda>f'. (object_path kind root d, f'))
        (create_dir_all io (butlast (object_path kind root d)) f)"
begin

lemma locate_path:
  assumes "hex_digest d" and "locate io root d f = Some (p, f')"
  shows "p = object_path kind root d" "files f' = files f" "dirs f \<subseteq> dirs f'" "parent_exists p f'"
proof -
  have p: "p = object_path kind root d" and f': "create_dir_all io (butlast p) f = Some f'"
    using assms by (auto simp: locate_hex)
  show "p = object_path kind root d" by (rule p)
  show "files f' = files f" "dirs f \<subseteq> dirs f'" using create_dir_all_files [OF f'] by auto
  have "p \<noteq> []" "p \<noteq> [''/'']" unfolding p by (auto simp: object_path_def Let_def Cons_eq_append_conv)
  moreover have "butlast p \<in> dirs f'" using create_dir_all_dir [OF f'] .
  ultimately show "parent_exists p f'" by (simp add: parent_exists_def path_parent_def)
qed

lemma locate_inj:
  assumes "hex_digest d" and "hex_digest e"
    and "locate io root d f = Some (p, f')" and "locate io' root e g = Some (p, g')"
  shows "d = e"
  using locate_path(1) [OF assms(1,3)] locate_path(1) [OF assms(2,4)] object_path_inj assms(1,2)
  by metis

end

interpretation blob_layout: object_layout get_blob_path "''blobs''"
  by unfold_locales (rule get_blob_path_hex)

interpretation manifest_layout: object_layout get_manifest_path "''manifests''"
  by unfold_locales (rule get_manifest_path_hex)

lemma object_path_kinds: "k \<noteq> k' \<Longrightarrow> object_path k root d \<noteq> object_path k' root e"
  by (simp add: object_path_def Let_def)

section \<open>Properties of the layout\<close>

text \<open>
  Objects never share a file: the paths of two different digests differ, and so do the paths of a
  blob and a manifest, wherever the storage root is.
\<close>

theorem stored_paths_distinct:
  assumes "hex_digest d" and "hex_digest e"
    and "get_blob_path io root d f = Some (p, f1)" and "get_blob_path io root e f = Some (q, f2)"
    and "get_manifest_path io root d f = Some (r, f3)" and "get_manifest_path io root e f = Some (s, f4)"
  shows "(p = q \<longleftrightarrow> d = e) \<and> (r = s \<longleftrightarrow> d = e) \<and> p \<noteq> s \<and> q \<noteq> r"
proof -
  have P: "p = blob_file root d" "q = blob_file root e" "r = manifest_file root d" "s = manifest_file root e"
    using blob_layout.locate_path(1) manifest_layout.locate_path(1) assms by blast+
  show ?thesis
    unfolding P using object_path_inj [OF assms(1,2)] object_path_kinds [of "''blobs''" "''manifests''"]
    by blast
qed

definition sample_digest :: digest where
  "sample_digest = Digest ''sha256'' ''abcdef0123''"

definition empty_fs :: filesystem where
  "empty_fs = \<lparr>files = Map.empty, dirs = {[''var''], [''var'', ''uploads'']}\<rparr>"

lemma sample_digest_hex [simp]: "hex_digest sample_digest"
  by (simp add: sample_digest_def hex_digest_def hex_char_def)

lemma empty_fs_create: "create_dir_all (\<lambda>_. True) p empty_fs \<noteq> None"
  by (simp add: create_dir_all_def empty_fs_def list_all_iff)

theorem stored_paths_distinct_witness:
  "\<exists>p r f1 f2. get_blob_path (\<lambda>_. True) [''var''] sample_digest empty_fs = Some (p, f1) \<and>
    get_manifest_path (\<lambda>_. True) [''var''] sample_digest empty_fs = Some (r, f2) \<and> p \<noteq> r"
proof -
  obtain f1 where b: "get_blob_path (\<lambda>_. True) [''var''] sample_digest empty_fs =
      Some (blob_file [''var''] sample_digest, f1)"
    using empty_fs_create by (auto simp: get_blob_path_hex)
  obtain f2 where m: "get_manifest_path (\<lambda>_. True) [''var''] sample_digest empty_fs =
      Some (manifest_file [''var''] sample_digest, f2)"
    using empty_fs_create by (auto simp: get_manifest_path_hex)
  from stored_paths_distinct [OF sample_digest_hex sample_digest_hex b b m m] b m show ?thesis by blast
qed

end
