(* ===== verification/App.thy ===== *)
theory App
  imports Snapshot Tag_List Files
begin

text \<open>
  \<^verbatim>\<open>src/app.rs\<close>: submitting writes to raft and waiting for an object to arrive. The raft library is a
  record of parameters: what \<open>client_write\<close> and the leader's HTTP endpoint answer, and what the
  successive looks at the raft metrics show.
\<close>

section \<open>Writing through raft\<close>

datatype client_write_error = Forward_To_Leader "u64 option" "string option" | Other_Error

datatype metrics_look = Look (last_applied: "log_id option") | Closed

record raft =
  client_write :: "registry_request \<Rightarrow> client_write_error + registry_response"
  remote_write :: "u64 \<Rightarrow> string \<Rightarrow> registry_request \<Rightarrow> registry_response option"
  metrics :: "nat \<Rightarrow> metrics_look"

definition submit_write :: "raft \<Rightarrow> registry_action list \<Rightarrow> bool" where
  "submit_write r as =
     (let req = Transaction as
      in case client_write r req of
           Inr _ \<Rightarrow> True
         | Inl (Forward_To_Leader (Some leader_id) (Some addr)) \<Rightarrow>
             (case remote_write r leader_id addr req of Some _ \<Rightarrow> True | None \<Rightarrow> False)
         | Inl _ \<Rightarrow> False)"

text \<open>
  The loop of \<open>consistent_write\<close>: look at the metrics until the index has been applied. It may run
  for ever, and panics when raft shuts down; both are \<open>None\<close>.
\<close>

partial_function (option) wait_applied :: "(nat \<Rightarrow> metrics_look) \<Rightarrow> u64 \<Rightarrow> nat \<Rightarrow> bool option" where
  "wait_applied ms target i =
     (case ms i of
        Closed \<Rightarrow> None
      | Look None \<Rightarrow> wait_applied ms target (Suc i)
      | Look (Some l) \<Rightarrow>
          if target \<le> li_index l then Some True else wait_applied ms target (Suc i))"

definition consistent_write :: "raft \<Rightarrow> registry_action list \<Rightarrow> bool option" where
  "consistent_write r as =
     (let req = Transaction as
      in case client_write r req of
           Inr resp \<Rightarrow> wait_applied (metrics r) (response_value resp) 0
         | Inl (Forward_To_Leader (Some leader_id) (Some addr)) \<Rightarrow>
             (case remote_write r leader_id addr req of
                Some resp \<Rightarrow> wait_applied (metrics r) (response_value resp) 0
              | None \<Rightarrow> Some False)
         | Inl _ \<Rightarrow> Some False)"

text \<open>The response raft gives a request, here or forwarded to the leader.\<close>

definition write_response :: "raft \<Rightarrow> registry_action list \<Rightarrow> registry_response option" where
  "write_response r as =
     (case client_write r (Transaction as) of
        Inr resp \<Rightarrow> Some resp
      | Inl (Forward_To_Leader (Some leader_id) (Some addr)) \<Rightarrow>
          remote_write r leader_id addr (Transaction as)
      | Inl _ \<Rightarrow> None)"

definition reaches :: "(nat \<Rightarrow> metrics_look) \<Rightarrow> u64 \<Rightarrow> nat \<Rightarrow> bool" where
  "reaches ms target j \<longleftrightarrow>
     (\<exists>l. ms j = Look (Some l) \<and> target \<le> li_index l) \<and> (\<forall>k < j. ms k \<noteq> Closed)"

definition returned :: "(nat \<Rightarrow> metrics_look) \<Rightarrow> u64 \<Rightarrow> nat \<Rightarrow> bool \<Rightarrow> bool" where
  "returned ms target i b \<longleftrightarrow>
     (\<exists>j l. b \<and> i \<le> j \<and> ms j = Look (Some l) \<and> target \<le> li_index l \<and>
       (\<forall>k. i \<le> k \<and> k < j \<longrightarrow> ms k \<noteq> Closed))"

lemma returned_later:
  assumes "returned ms target (Suc i) b" and "ms i \<noteq> Closed"
  shows "returned ms target i b"
proof -
  obtain j l where j: "b" "Suc i \<le> j" "ms j = Look (Some l)" "target \<le> li_index l"
    and before: "\<forall>k. Suc i \<le> k \<and> k < j \<longrightarrow> ms k \<noteq> Closed"
    using assms(1) by (auto simp: returned_def)
  have "ms k \<noteq> Closed" if "i \<le> k" "k < j" for k
    using that before assms(2) by (cases "k = i") auto
  with j show ?thesis unfolding returned_def by (meson Suc_leD)
qed

lemma wait_applied_sound:
  assumes "wait_applied ms target i = Some b"
  shows "returned ms target i b"
proof (rule wait_applied.raw_induct [where P = returned, OF _ assms])
  fix wait :: "(nat \<Rightarrow> metrics_look) \<Rightarrow> u64 \<Rightarrow> nat \<Rightarrow> bool option" and ms target i b
  assume IH: "\<And>ms target i b. wait ms target i = Some b \<Longrightarrow> returned ms target i b"
    and run: "(case ms i of
        Closed \<Rightarrow> None
      | Look None \<Rightarrow> wait ms target (Suc i)
      | Look (Some l) \<Rightarrow>
          if target \<le> li_index l then Some True else wait ms target (Suc i)) = Some b"
  have now: "returned ms target i True" if "ms i = Look (Some l)" "target \<le> li_index l" for l
    using that unfolding returned_def by (metis leD order_refl)
  show "returned ms target i b"
    using run IH [of ms target "Suc i" b] now returned_later [of ms target i b]
    by (auto split: metrics_look.splits option.splits if_splits)
qed

lemma wait_applied_complete:
  assumes "i \<le> j" and "ms j = Look (Some l)" and "target \<le> li_index l"
    and "\<And>k. i \<le> k \<Longrightarrow> k < j \<Longrightarrow> ms k \<noteq> Closed"
  shows "wait_applied ms target i = Some True"
  using assms
proof (induction "j - i" arbitrary: i)
  case 0
  then show ?case by (subst wait_applied.simps) simp
next
  case (Suc n)
  have "wait_applied ms target (Suc i) = Some True"
    using Suc.hyps(2) Suc.prems by (intro Suc.hyps(1)) auto
  moreover have "ms i \<noteq> Closed" using Suc.hyps(2) Suc.prems(4) [of i] by simp
  ultimately show ?case
    by (subst wait_applied.simps) (auto split: metrics_look.splits option.splits)
qed

lemma consistent_write_eq:
  "consistent_write r as =
     (case write_response r as of
        None \<Rightarrow> Some False
      | Some resp \<Rightarrow> wait_applied (metrics r) (response_value resp) 0)"
  by (simp add: consistent_write_def write_response_def Let_def
      split: sum.splits client_write_error.splits option.splits)

lemma submit_write_eq: "submit_write r as \<longleftrightarrow> write_response r as \<noteq> None"
  by (auto simp: submit_write_def write_response_def Let_def
      split: sum.splits client_write_error.splits option.splits)

section \<open>Waiting for an object\<close>

definition wait_for_blob :: "digest \<Rightarrow> nat \<Rightarrow> registry_store \<Rightarrow> registry_store" where
  "wait_for_blob d n st =
     st\<lparr>blob_waiters := (blob_waiters st)(d \<mapsto>
       (case blob_waiters st d of None \<Rightarrow> [] | Some ns \<Rightarrow> ns) @ [n])\<rparr>"

definition wait_for_manifest :: "digest \<Rightarrow> nat \<Rightarrow> registry_store \<Rightarrow> registry_store" where
  "wait_for_manifest d n st =
     st\<lparr>manifest_waiters := (manifest_waiters st)(d \<mapsto>
       (case manifest_waiters st d of None \<Rightarrow> [] | Some ns \<Rightarrow> ns) @ [n])\<rparr>"

lemma wait_for_store_inv [simp]:
  "store_inv (wait_for_blob d n st) \<longleftrightarrow> store_inv st"
  "store_inv (wait_for_manifest d n st) \<longleftrightarrow> store_inv st"
  by (simp_all add: store_inv_def wait_for_blob_def wait_for_manifest_def get_blob_def [abs_def]
      get_manifest_def [abs_def])

section \<open>The node a handler runs on\<close>

text \<open>
  The store, the files under the storage root, the transactions handed to raft so far, and the events
  queued for the webhooks. The
  environment holds what the handlers read from outside: the clock, a fresh UUID, the raft client,
  and the hash functions.
\<close>

record event =
  ev_repository :: repository_name
  ev_digest :: digest
  ev_tag :: string
  ev_content_type :: string

record node =
  node_store :: registry_store
  node_fs :: filesystem
  submitted :: "registry_action list list"
  events :: "event list"

record env =
  root :: path
  env_io :: io
  clock :: "nat \<Rightarrow> timestamp"
  env_raft :: raft
  sha256 :: "bytes \<Rightarrow> bytes"
  hexlower :: "bytes \<Rightarrow> string"
  uuid :: string
  set_order :: "string set \<Rightarrow> string list"

definition node_id :: "node \<Rightarrow> u64" where
  "node_id n = store_id (node_store n)"

definition write_node :: "env \<Rightarrow> registry_action list \<Rightarrow> node \<Rightarrow> node \<times> bool option" where
  "write_node E as n = (n\<lparr>submitted := submitted n @ [as]\<rparr>, consistent_write (env_raft E) as)"

section \<open>Properties of the writes\<close>

text \<open>
  \<open>consistent_write\<close> answers \<open>true\<close> exactly when raft has accepted the transaction and this node's
  own metrics then show an applied index at or beyond the transaction's, so a read that follows sees
  its effect. It answers \<open>false\<close> exactly when raft refused it; otherwise it never returns.
\<close>

theorem consistent_write_visible:
  "(consistent_write r as = Some True \<longleftrightarrow>
      (\<exists>resp j. write_response r as = Some resp \<and> reaches (metrics r) (response_value resp) j)) \<and>
   (consistent_write r as = Some False \<longleftrightarrow> write_response r as = None)"
proof -
  have "wait_applied ms target 0 = Some True \<longleftrightarrow> (\<exists>j. reaches ms target j)" for ms target
  proof
    assume "wait_applied ms target 0 = Some True"
    from wait_applied_sound [OF this] show "\<exists>j. reaches ms target j"
      by (auto simp: reaches_def returned_def)
  next
    assume "\<exists>j. reaches ms target j"
    then show "wait_applied ms target 0 = Some True"
      by (auto simp: reaches_def intro: wait_applied_complete)
  qed
  moreover have "wait_applied ms target 0 \<noteq> Some False" for ms target
    using wait_applied_sound [of ms target 0 False] by (auto simp: returned_def)
  ultimately show ?thesis by (simp add: consistent_write_eq split: option.splits)
qed

end
