(* ===== verification/Uploads.thy ===== *)
theory Uploads
  imports App
begin

text \<open>
  The blob upload endpoints of \<^verbatim>\<open>src/registry/blobs/uploads/\<close>: post, put, patch, get and delete. A
  handler maps the node to the node it leaves and the reply; \<open>None\<close> is no reply at all (a panic, or
  a write that is never applied). The guard every handler starts with is the locale \<open>guarded\<close>.
\<close>

section \<open>Shared steps\<close>

definition unauthorized :: "string option \<Rightarrow> reply option" where
  "unauthorized c = map_option (\<lambda>c. Inl (MustAuthenticate c)) c"

definition blob_created :: "repository_name \<Rightarrow> digest \<Rightarrow> http_response" where
  "blob_created r d = respond 201
     [(''Location'', ''/v2/'' @ repository_name_to_string r @ ''/blobs/'' @ digest_to_string d),
      (''Range'', ''0-0''), (''Content-Length'', ''0''),
      (''Docker-Content-Digest'', digest_to_string d)] Empty_Body"

definition upload_headers :: "repository_name \<Rightarrow> string \<Rightarrow> u64 \<Rightarrow> (string \<times> string) list" where
  "upload_headers r upload_id range_end =
     [(''Location'', ''/v2/'' @ repository_name_to_string r @ ''/blobs/uploads/'' @ upload_id),
      (''Range'', ''0-'' @ show_u64 range_end), (''Content-Length'', ''0''),
      (''Blob-Upload-Session-ID'', upload_id), (''Docker-Upload-UUID'', upload_id)]"

definition upload_actions ::
  "env \<Rightarrow> token \<Rightarrow> repository_name \<Rightarrow> digest \<Rightarrow> u64 \<Rightarrow> u64 \<Rightarrow> registry_action list" where
  "upload_actions E tok r d sz i =
     [BlobMounted (clock E 0) d r (sub tok), BlobStat (clock E 1) d sz,
      BlobStored (clock E 2) d i (sub tok)]"

text \<open>The end of a post with a digest and of a put: check the hash, move the file, log the actions.\<close>

definition commit_upload ::
  "env \<Rightarrow> token \<Rightarrow> repository_name \<Rightarrow> path \<Rightarrow> digest \<Rightarrow> node \<Rightarrow> node \<times> reply option" where
  "commit_upload E tok r filename d n =
     (if \<not> validate_hash (sha256 E) (hexlower E) (env_io E) filename d (node_fs n)
      then (n, Some (Inl DigestInvalid))
      else case get_blob_path (env_io E) (root E) d (node_fs n) of
        None \<Rightarrow> (n, None)
      | Some (dest, f) \<Rightarrow>
          (let n = n\<lparr>node_fs := f\<rparr>
           in case file_len (env_io E) filename f of
                None \<Rightarrow> (n, Some (Inl UploadInvalid))
              | Some sz \<Rightarrow>
                  (case rename_file (env_io E) filename dest f of
                     None \<Rightarrow> (n, Some (Inl UploadInvalid))
                   | Some f \<Rightarrow>
                       (case write_node E (upload_actions E tok r d sz (node_id n)) (n\<lparr>node_fs := f\<rparr>) of
                          (n, None) \<Rightarrow> (n, None)
                        | (n, Some False) \<Rightarrow> (n, Some (Inl UploadInvalid))
                        | (n, Some True) \<Rightarrow> (n, Some (Inr (blob_created r d)))))))"

text \<open>Append a request body to a file and go on, if that succeeds.\<close>

definition with_upload ::
  "env \<Rightarrow> path \<Rightarrow> bytes option list \<Rightarrow> registry_error \<Rightarrow> (node \<Rightarrow> node \<times> reply option) \<Rightarrow>
     node \<Rightarrow> node \<times> reply option" where
  "with_upload E p chunks err k n =
     (case upload_part (env_io E) p chunks (node_fs n) of
        (f, None) \<Rightarrow> (n\<lparr>node_fs := f\<rparr>, None)
      | (f, Some False) \<Rightarrow> (n\<lparr>node_fs := f\<rparr>, Some (Inl err))
      | (f, Some True) \<Rightarrow> k (n\<lparr>node_fs := f\<rparr>))"

section \<open>The endpoints\<close>

definition upload_put ::
  "env \<Rightarrow> token \<Rightarrow> repository_name \<Rightarrow> string \<Rightarrow> digest \<Rightarrow> bytes option list \<Rightarrow> node \<Rightarrow>
     node \<times> reply option" where
  "upload_put E tok r upload_id d chunks n =
     (if \<not> validated_token tok then (n, unauthorized (get_push_challenge (set_order E) tok r))
      else if \<not> has_permission tok r ''push'' then (n, Some (Inl AccessDenied))
      else if algo d \<noteq> ''sha256'' then (n, Some (Inl UploadInvalid))
      else let filename = get_upload_path (root E) upload_id
        in if \<not> is_file filename (node_fs n) then (n, Some (Inl UploadInvalid))
           else with_upload E filename chunks UploadInvalid (commit_upload E tok r filename d) n)"

definition mount_blob ::
  "env \<Rightarrow> token \<Rightarrow> repository_name \<Rightarrow> digest \<Rightarrow> node \<Rightarrow> node \<times> reply option" where
  "mount_blob E tok r d n =
     (case write_node E [BlobMounted (clock E 0) d r (sub tok)] n of
        (n, None) \<Rightarrow> (n, None)
      | (n, Some False) \<Rightarrow> (n, Some (Inl UploadInvalid))
      | (n, Some True) \<Rightarrow> (n, Some (Inr (blob_created r d))))"

definition start_upload ::
  "env \<Rightarrow> token \<Rightarrow> repository_name \<Rightarrow> digest option \<Rightarrow> bytes option list \<Rightarrow> node \<Rightarrow>
     node \<times> reply option" where
  "start_upload E tok r digest chunks n =
     (let filename = get_upload_path (root E) (uuid E)
      in case digest of
           Some d \<Rightarrow> with_upload E filename chunks UploadInvalid (commit_upload E tok r filename d) n
         | None \<Rightarrow>
             (case open_append (env_io E) filename (node_fs n) of
                None \<Rightarrow> (n, Some (Inl UploadInvalid))
              | Some f \<Rightarrow>
                  (n\<lparr>node_fs := f\<rparr>, Some (Inr (respond 202
                     [(''Location'', ''/v2/'' @ repository_name_to_string r @ ''/blobs/uploads/'' @ uuid E),
                      (''Range'', ''0-0''), (''Content-Length'', ''0''),
                      (''Docker-Upload-UUID'', uuid E)] Empty_Body)))))"

definition upload_post ::
  "env \<Rightarrow> token \<Rightarrow> repository_name \<Rightarrow> digest option \<Rightarrow> repository_name option \<Rightarrow> digest option \<Rightarrow>
     bytes option list \<Rightarrow> node \<Rightarrow> node \<times> reply option" where
  "upload_post E tok r mount source digest chunks n =
     (if \<not> validated_token tok
      then (n, unauthorized (get_challenge (set_order E) tok
        ([\<lparr>acc_repository = r, permissions = {''pull'', ''push''}\<rparr>] @
         (case source of None \<Rightarrow> [] | Some s \<Rightarrow> [\<lparr>acc_repository = s, permissions = {''pull''}\<rparr>]))))
      else if \<not> has_permission tok r ''push'' then (n, Some (Inl AccessDenied))
      else case (mount, source) of
        (Some d, Some s) \<Rightarrow>
          if s = r then (n, Some (Inl UploadInvalid))
          else if \<not> has_permission tok s ''pull'' then (n, Some (Inl UploadInvalid))
          else (case get_blob (node_store n) d of
              Some b \<Rightarrow>
                if s \<in> repositories b then mount_blob E tok r d n
                else start_upload E tok r digest chunks n
            | None \<Rightarrow> start_upload E tok r digest chunks n)
      | _ \<Rightarrow> start_upload E tok r digest chunks n)"

text \<open>The \<open>Content-Range\<close> header; a header that is not visible ASCII panics.\<close>

definition get_http_range :: "string option \<Rightarrow> (u64 \<times> u64) option option" where
  "get_http_range h =
     (case h of
        None \<Rightarrow> Some None
      | Some s \<Rightarrow>
          if \<not> visible_ascii s then None
          else case split_once (CHR ''-'') s of
            None \<Rightarrow> Some None
          | Some (a, b) \<Rightarrow>
              (case parse_u64 a of
                 None \<Rightarrow> Some None
               | Some start \<Rightarrow>
                   (case parse_u64 b of
                      None \<Rightarrow> Some None
                    | Some stop \<Rightarrow> Some (Some (start, stop)))))"

definition patch_body ::
  "env \<Rightarrow> repository_name \<Rightarrow> string \<Rightarrow> bytes option list \<Rightarrow> node \<Rightarrow> node \<times> reply option" where
  "patch_body E r upload_id chunks n =
     (let filename = get_upload_path (root E) upload_id
      in with_upload E filename chunks UploadInvalid
           (\<lambda>n. case file_len (env_io E) filename (node_fs n) of
              None \<Rightarrow> (n, Some (Inl UploadInvalid))
            | Some sz \<Rightarrow>
                (n, Some (Inr (respond 202
                   (upload_headers r upload_id (if 0 < sz then sz - 1 else 0)) Empty_Body)))) n)"

definition upload_patch ::
  "env \<Rightarrow> token \<Rightarrow> repository_name \<Rightarrow> string \<Rightarrow> string option \<Rightarrow> bytes option list \<Rightarrow> node \<Rightarrow>
     node \<times> reply option" where
  "upload_patch E tok r upload_id content_range chunks n =
     (if \<not> validated_token tok then (n, unauthorized (get_push_challenge (set_order E) tok r))
      else if \<not> has_permission tok r ''push'' then (n, Some (Inl AccessDenied))
      else let filename = get_upload_path (root E) upload_id
        in if \<not> is_file filename (node_fs n) then (n, Some (Inl UploadInvalid))
           else case get_http_range content_range of
             None \<Rightarrow> (n, None)
           | Some None \<Rightarrow> patch_body E r upload_id chunks n
           | Some (Some (start, stop)) \<Rightarrow>
               (let sz = (case file_len (env_io E) filename (node_fs n) of None \<Rightarrow> 0 | Some s \<Rightarrow> s)
                in if stop < start then (n, Some (Inl (RangeNotSatisfiable r upload_id sz)))
                   else if start \<noteq> sz then (n, Some (Inl (RangeNotSatisfiable r upload_id sz)))
                   else patch_body E r upload_id chunks n))"

text \<open>\<open>size - 1\<close> is not guarded here: the subtraction wraps.\<close>

definition upload_get ::
  "env \<Rightarrow> token \<Rightarrow> repository_name \<Rightarrow> string \<Rightarrow> node \<Rightarrow> node \<times> reply option" where
  "upload_get E tok r upload_id n =
     (if \<not> validated_token tok then (n, unauthorized (get_push_challenge (set_order E) tok r))
      else if \<not> has_permission tok r ''pull'' then (n, Some (Inl AccessDenied))
      else let filename = get_upload_path (root E) upload_id
        in if \<not> is_file filename (node_fs n) then (n, Some (Inl UploadNotFound))
           else case file_len (env_io E) filename (node_fs n) of
             None \<Rightarrow> (n, Some (Inl UploadInvalid))
           | Some sz \<Rightarrow>
               (n, Some (Inr (respond 204 (upload_headers r upload_id (sz - 1)) Empty_Body))))"

definition upload_delete ::
  "env \<Rightarrow> token \<Rightarrow> repository_name \<Rightarrow> string \<Rightarrow> node \<Rightarrow> node \<times> reply option" where
  "upload_delete E tok r upload_id n =
     (if \<not> validated_token tok then (n, unauthorized (get_push_challenge (set_order E) tok r))
      else if \<not> has_permission tok r ''push'' then (n, Some (Inl AccessDenied))
      else let filename = get_upload_path (root E) upload_id
        in if \<not> is_file filename (node_fs n) then (n, Some (Inl UploadInvalid))
           else case remove_file (env_io E) filename (node_fs n) of
             None \<Rightarrow> (n, Some (Inl UploadInvalid))
           | Some f \<Rightarrow> (n\<lparr>node_fs := f\<rparr>, Some (Inr (respond 204 [] Empty_Body))))"

section \<open>The guard of a handler\<close>

locale guarded =
  fixes handler :: "env \<Rightarrow> token \<Rightarrow> repository_name \<Rightarrow> 'q \<Rightarrow> node \<Rightarrow> node \<times> reply option"
    and challenge_for :: "env \<Rightarrow> token \<Rightarrow> repository_name \<Rightarrow> 'q \<Rightarrow> string option"
    and perm :: string
  assumes not_validated: "\<not> validated_token tok \<Longrightarrow>
      handler E tok r q n = (n, unauthorized (challenge_for E tok r q))"
    and not_permitted: "validated_token tok \<Longrightarrow> \<not> has_permission tok r perm \<Longrightarrow>
      handler E tok r q n = (n, Some (Inl AccessDenied))"
    and challenge_total: "token_ok tok \<Longrightarrow> \<not> validated_token tok \<Longrightarrow> challenge_for E tok r q \<noteq> None"
begin

lemma effect_permitted: "fst (handler E tok r q n) \<noteq> n \<Longrightarrow> has_permission tok r perm"
  using not_validated not_permitted by (metis fst_conv)

lemma success_permitted:
  "snd (handler E tok r q n) = Some (Inr resp) \<Longrightarrow> has_permission tok r perm"
  using not_validated [of tok E r q n] not_permitted [of tok r E q n]
  by (cases "validated_token tok"; cases "has_permission tok r perm") (auto simp: unauthorized_def)

lemma refused:
  assumes "token_ok tok" and "\<not> has_permission tok r perm"
  shows "\<exists>rep. handler E tok r q n = (n, Some rep) \<and> reply_status rep = (if validated_token tok then 403 else 401)"
proof (cases "validated_token tok")
  case True
  then show ?thesis using not_permitted assms(2) by (simp add: reply_status_def respond_def)
next
  case False
  then obtain c where "challenge_for E tok r q = Some c" using challenge_total assms(1) by blast
  then show ?thesis using not_validated False by (simp add: unauthorized_def reply_status_def respond_def)
qed

end

lemma challenges_total:
  "token_ok tok \<Longrightarrow> \<not> validated_token tok \<Longrightarrow> get_challenge it tok as \<noteq> None"
  "token_ok tok \<Longrightarrow> \<not> validated_token tok \<Longrightarrow> get_push_challenge it tok r \<noteq> None"
  "token_ok tok \<Longrightarrow> \<not> validated_token tok \<Longrightarrow> get_pull_challenge it tok r \<noteq> None"
  unfolding get_push_challenge_def get_pull_challenge_def challenge_Some_iff
  by (auto simp: token_ok_def)

interpretation put_guard: guarded "\<lambda>E tok r (i, d, cs). upload_put E tok r i d cs"
  "\<lambda>E tok r q. get_push_challenge (set_order E) tok r" "''push''"
  by unfold_locales (auto simp: upload_put_def dest: challenges_total)

interpretation post_guard: guarded "\<lambda>E tok r (m, s, d, cs). upload_post E tok r m s d cs"
  "\<lambda>E tok r (m, s, d, cs). get_challenge (set_order E) tok
     ([\<lparr>acc_repository = r, permissions = {''pull'', ''push''}\<rparr>] @
      (case s of None \<Rightarrow> [] | Some s \<Rightarrow> [\<lparr>acc_repository = s, permissions = {''pull''}\<rparr>]))" "''push''"
  by unfold_locales (auto simp: upload_post_def dest: challenges_total)

interpretation patch_guard: guarded "\<lambda>E tok r (i, cr, cs). upload_patch E tok r i cr cs"
  "\<lambda>E tok r q. get_push_challenge (set_order E) tok r" "''push''"
  by unfold_locales (auto simp: upload_patch_def dest: challenges_total)

interpretation upload_get_guard: guarded "\<lambda>E tok r i. upload_get E tok r i"
  "\<lambda>E tok r q. get_push_challenge (set_order E) tok r" "''pull''"
  by unfold_locales (auto simp: upload_get_def dest: challenges_total)

interpretation upload_delete_guard: guarded "\<lambda>E tok r i. upload_delete E tok r i"
  "\<lambda>E tok r q. get_push_challenge (set_order E) tok r" "''push''"
  by unfold_locales (auto simp: upload_delete_def dest: challenges_total)

section \<open>What the steps do to the files\<close>

definition content_digest :: "env \<Rightarrow> bytes \<Rightarrow> digest" where
  "content_digest E b = from_sha256 (hexlower E) (sha256 E b)"

text \<open>SHA-256 in hex: sixty-four lower-case hex digits.\<close>

definition hash_ok :: "env \<Rightarrow> bool" where
  "hash_ok E \<longleftrightarrow>
     (\<forall>b. length (hexlower E (sha256 E b)) = 64 \<and> list_all hex_char (hexlower E (sha256 E b)))"

text \<open>Content addressing: the file of an object has the content its digest says.\<close>

definition files_ok :: "env \<Rightarrow> filesystem \<Rightarrow> bool" where
  "files_ok E f \<longleftrightarrow>
     (\<forall>d b. hex_digest d \<and> files f (blob_file (root E) d) = Some b \<longrightarrow> content_digest E b = d) \<and>
     (\<forall>d b. hex_digest d \<and> files f (manifest_file (root E) d) = Some b \<longrightarrow> content_digest E b = d)"

lemma content_digest_hex: "hash_ok E \<Longrightarrow> hex_digest (content_digest E b)"
  by (simp add: hash_ok_def hex_digest_def content_digest_def from_sha256_def)

lemma write_chunks_facts:
  "write_chunks io p k cs f = (f', ok) \<Longrightarrow>
   dirs f' = dirs f \<and> (\<forall>q. q \<noteq> p \<longrightarrow> files f' q = files f q) \<and>
   (ok = Some True \<longrightarrow> None \<notin> set cs \<and>
     (files f p \<noteq> None \<longrightarrow> files f' p = Some (the (files f p) @ concat (map the cs))))"
proof (induction io p k cs f rule: write_chunks.induct)
  case (3 io p k bs cs f)
  then show ?case
    by (cases "io (Write p k)") (auto simp: append_file_def split: option.splits)
qed auto

lemma upload_part_facts:
  assumes "upload_part io p cs f = (f', ok)"
  shows "dirs f' = dirs f" "q \<noteq> p \<Longrightarrow> files f' q = files f q"
    "ok = Some True \<Longrightarrow> None \<notin> set cs"
    "ok = Some True \<Longrightarrow>
      files f' p = Some ((case files f p of None \<Rightarrow> [] | Some b \<Rightarrow> b) @ concat (map the cs))"
proof -
  have "dirs f' = dirs f \<and> (q \<noteq> p \<longrightarrow> files f' q = files f q) \<and> (ok = Some True \<longrightarrow> None \<notin> set cs \<and>
      files f' p = Some ((case files f p of None \<Rightarrow> [] | Some b \<Rightarrow> b) @ concat (map the cs)))"
  proof (cases "open_append io p f")
    case None
    then show ?thesis using assms by (auto simp: upload_part_def)
  next
    case (Some g)
    then have g: "g = f\<lparr>files := (files f)(p \<mapsto> (case files f p of None \<Rightarrow> [] | Some b \<Rightarrow> b))\<rparr>"
      by (auto simp: open_append_def split: if_splits)
    have "write_chunks io p 0 cs g = (f', ok)" using assms Some by (simp add: upload_part_def)
    from write_chunks_facts [OF this] show ?thesis by (simp add: g)
  qed
  then show "dirs f' = dirs f" "q \<noteq> p \<Longrightarrow> files f' q = files f q"
    "ok = Some True \<Longrightarrow> None \<notin> set cs"
    "ok = Some True \<Longrightarrow>
      files f' p = Some ((case files f p of None \<Rightarrow> [] | Some b \<Rightarrow> b) @ concat (map the cs))"
    by blast+
qed

lemma uploads_path_shape: "plain s \<Longrightarrow> path_push (path_push p ''uploads'') s = p @ [''uploads'', s]"
  by (simp add: path_push_plain kind_plain)

lemma under_uploads:
  "k \<noteq> ''uploads'' \<Longrightarrow> c \<noteq> CHR ''/'' \<Longrightarrow>
   path_push (path_push p ''uploads'') (c # s) \<noteq> object_path k p d"
  by (auto simp: components_plain kind_plain path_push_def object_path_def Let_def starts_with_iff)

lemma upload_path_not_object:
  "k \<noteq> ''uploads'' \<Longrightarrow> get_upload_path p i \<noteq> object_path k p d"
  "k \<noteq> ''uploads'' \<Longrightarrow> get_temp_path i p \<noteq> object_path k p d"
  "k \<noteq> ''uploads'' \<Longrightarrow> get_temp_mirror_path i p \<noteq> object_path k p d"
  by (simp_all add: get_upload_path_def get_temp_path_def get_temp_mirror_path_def under_uploads)

lemma files_ok_outside:
  assumes "files_ok E f"
    and "\<And>k d. k = ''blobs'' \<or> k = ''manifests'' \<Longrightarrow>
      files f' (object_path k (root E) d) = files f (object_path k (root E) d)"
  shows "files_ok E f'"
  using assms by (simp add: files_ok_def)

lemma files_ok_move_blob:
  assumes "files_ok E f" and "content_digest E b = d" and "hex_digest d"
    and "\<And>k e. k = ''blobs'' \<or> k = ''manifests'' \<Longrightarrow> p \<noteq> object_path k (root E) e"
    and "files f' = (files f)(p := None, blob_file (root E) d \<mapsto> b)"
  shows "files_ok E f'"
  using assms object_path_inj [of _ d "''blobs''" "root E"]
    object_path_kinds [of "''manifests''" "''blobs''" "root E" _ d]
  by (auto simp: files_ok_def)

lemma files_ok_move_manifest:
  assumes "files_ok E f" and "content_digest E b = d" and "hex_digest d"
    and "\<And>k e. k = ''blobs'' \<or> k = ''manifests'' \<Longrightarrow> p \<noteq> object_path k (root E) e"
    and "files f' = (files f)(p := None, manifest_file (root E) d \<mapsto> b)"
  shows "files_ok E f'"
  using assms object_path_inj [of _ d "''manifests''" "root E"]
    object_path_kinds [of "''blobs''" "''manifests''" "root E" _ d]
  by (auto simp: files_ok_def)

lemma validate_hash_iff:
  "validate_hash (sha256 E) (hexlower E) io p d f \<longleftrightarrow>
     (\<exists>b. files f p = Some b \<and> io (Open p) \<and> io (Read p) \<and> content_digest E b = d)"
  by (auto simp: validate_hash_def get_hash_def content_digest_def split: option.splits)

lemma commit_upload_facts:
  assumes "hash_ok E" and "commit_upload E tok r p d n = (n', rep)"
  shows "node_store n' = node_store n \<and>
    ((files (node_fs n') = files (node_fs n) \<and> submitted n' = submitted n \<and> (\<forall>h. rep \<noteq> Some (Inr h))) \<or>
     (\<exists>b. files (node_fs n) p = Some b \<and> content_digest E b = d \<and>
       files (node_fs n') = (files (node_fs n))(p := None, blob_file (root E) d \<mapsto> b) \<and>
       submitted n' = submitted n @ [upload_actions E tok r d (of_nat (length b)) (node_id n)] \<and>
       (\<forall>h. rep = Some (Inr h) \<longrightarrow> h = blob_created r d \<and>
         consistent_write (env_raft E) (upload_actions E tok r d (of_nat (length b)) (node_id n)) = Some True)))"
proof (cases "validate_hash (sha256 E) (hexlower E) (env_io E) p d (node_fs n)")
  case False
  then show ?thesis using assms by (auto simp: commit_upload_def)
next
  case True
  then obtain b where b: "files (node_fs n) p = Some b" "content_digest E b = d"
    by (auto simp: validate_hash_iff)
  have hex: "hex_digest d" using content_digest_hex [OF assms(1)] b(2) by blast
  show ?thesis
  proof (cases "get_blob_path (env_io E) (root E) d (node_fs n)")
    case None
    then show ?thesis using assms True by (auto simp: commit_upload_def)
  next
    case (Some df)
    then obtain dest f where df: "get_blob_path (env_io E) (root E) d (node_fs n) = Some (dest, f)"
      by (cases df) auto
    have dest: "dest = blob_file (root E) d" "files f = files (node_fs n)"
      using blob_layout.locate_path [OF hex df] by auto
    show ?thesis using assms(2) True b df
      by (auto simp: commit_upload_def Let_def dest file_len_def rename_file_def write_node_def node_id_def
          split: option.splits if_splits bool.splits)
  qed
qed

lemma with_upload_cases:
  assumes "with_upload E p cs err k n = (n', rep)"
  obtains (stop) f rep' where "n' = n\<lparr>node_fs := f\<rparr>" "upload_part (env_io E) p cs (node_fs n) = (f, rep')"
      "\<And>h. rep \<noteq> Some (Inr h)"
    | (go_on) f where "upload_part (env_io E) p cs (node_fs n) = (f, Some True)" "k (n\<lparr>node_fs := f\<rparr>) = (n', rep)"
  using assms by (auto simp: with_upload_def split: prod.splits option.splits bool.splits)

lemma upload_part_files_ok:
  assumes "files_ok E f" and "upload_part io p cs f = (f', ok)"
    and "\<And>k d. k = ''blobs'' \<or> k = ''manifests'' \<Longrightarrow> p \<noteq> object_path k (root E) d"
  shows "files_ok E f'"
  using assms(1) by (rule files_ok_outside) (metis assms(2,3) upload_part_facts(2))

lemma commit_upload_files_ok:
  assumes "hash_ok E" and "files_ok E (node_fs n)"
    and "\<And>k e. k = ''blobs'' \<or> k = ''manifests'' \<Longrightarrow> p \<noteq> object_path k (root E) e"
  shows "files_ok E (node_fs (fst (commit_upload E tok r p d n)))"
proof -
  obtain n' rep where run: "commit_upload E tok r p d n = (n', rep)" by (cases "commit_upload E tok r p d n")
  show ?thesis
  proof (cases "files (node_fs n') = files (node_fs n)")
    case True
    then show ?thesis using run assms(2) by (simp add: files_ok_def)
  next
    case False
    then obtain b where "content_digest E b = d"
        "files (node_fs n') = (files (node_fs n))(p := None, blob_file (root E) d \<mapsto> b)"
      using commit_upload_facts [OF assms(1) run] by blast
    then show ?thesis
      using files_ok_move_blob [OF assms(2) _ _ assms(3)] content_digest_hex [OF assms(1), of b] run
      by auto
  qed
qed

lemma upload_commit_files_ok:
  assumes "hash_ok E" and "files_ok E (node_fs n)"
    and "\<And>k e. k = ''blobs'' \<or> k = ''manifests'' \<Longrightarrow> p \<noteq> object_path k (root E) e"
  shows "files_ok E (node_fs (fst (with_upload E p cs err (commit_upload E tok r p d) n)))"
proof -
  obtain n' rep where run: "with_upload E p cs err (commit_upload E tok r p d) n = (n', rep)"
    by (cases "with_upload E p cs err (commit_upload E tok r p d) n")
  from run show ?thesis
  proof (cases rule: with_upload_cases)
    case (stop f rep')
    then show ?thesis using upload_part_files_ok [OF assms(2) stop(2) assms(3)] run by simp
  next
    case (go_on f)
    then show ?thesis
      using commit_upload_files_ok [OF assms(1) _ assms(3), of "n\<lparr>node_fs := f\<rparr>" tok r d]
        upload_part_files_ok [OF assms(2) go_on(1) assms(3)] run by simp
  qed
qed

lemma upload_path_outside:
  "k = ''blobs'' \<or> k = ''manifests'' \<Longrightarrow> get_upload_path (root E) i \<noteq> object_path k (root E) e"
  using upload_path_not_object(1) by auto

lemma upload_put_files_ok:
  "hash_ok E \<Longrightarrow> files_ok E (node_fs n) \<Longrightarrow> files_ok E (node_fs (fst (upload_put E tok r i d cs n)))"
  using upload_commit_files_ok [OF _ _ upload_path_outside] by (simp add: upload_put_def Let_def)

lemma start_upload_files_ok:
  assumes "hash_ok E" and "files_ok E (node_fs n)"
  shows "files_ok E (node_fs (fst (start_upload E tok r d cs n)))"
proof (cases d)
  case None
  have "files_ok E f" if "open_append (env_io E) (get_upload_path (root E) (uuid E)) (node_fs n) = Some f" for f
    using assms(2)
    by (rule files_ok_outside) (use that in \<open>auto simp: open_append_def upload_path_not_object [symmetric] split: if_splits\<close>)
  then show ?thesis using None assms(2) by (simp add: start_upload_def Let_def split: option.splits)
qed (use upload_commit_files_ok [OF assms upload_path_outside] in \<open>simp add: start_upload_def Let_def\<close>)

lemma upload_post_files_ok:
  assumes "hash_ok E" and "files_ok E (node_fs n)"
  shows "files_ok E (node_fs (fst (upload_post E tok r m s d cs n)))"
  using assms start_upload_files_ok [OF assms]
  by (auto simp: upload_post_def mount_blob_def write_node_def split: option.splits bool.splits)

lemma patch_body_files_ok:
  assumes "files_ok E (node_fs n)"
  shows "files_ok E (node_fs (fst (patch_body E r i cs n)))"
proof -
  obtain n' rep where run: "patch_body E r i cs n = (n', rep)" by (cases "patch_body E r i cs n")
  have "\<exists>f ok. upload_part (env_io E) (get_upload_path (root E) i) cs (node_fs n) = (f, ok) \<and> node_fs n' = f"
    using run by (auto simp: patch_body_def Let_def with_upload_def split: prod.splits option.splits bool.splits)
  with upload_part_files_ok [OF assms _ upload_path_outside] run show ?thesis by auto
qed

lemma upload_patch_files_ok:
  "files_ok E (node_fs n) \<Longrightarrow> files_ok E (node_fs (fst (upload_patch E tok r i cr cs n)))"
  using patch_body_files_ok by (auto simp: upload_patch_def Let_def split: option.splits)

lemma upload_delete_files_ok:
  "files_ok E (node_fs n) \<Longrightarrow> files_ok E (node_fs (fst (upload_delete E tok r i n)))"
  by (auto simp: upload_delete_def Let_def remove_file_def files_ok_def split: option.splits if_splits)

lemma upload_actions_effect:
  "\<exists>s' row. apply_actions (upload_actions E tok r d sz i) s = Some s' \<and> tx_get_blob s' d = Some row \<and>
     r \<in> repositories row \<and> i \<in> locations row \<and> obj_size row = Some sz"
  by (cases "bt_get (blobs s) d")
    (auto simp: upload_actions_def apply_actions_def apply_blob_mounted_def apply_blob_stat_def
      apply_blob_stored_def tx_simps Let_def)

section \<open>Properties of the uploads\<close>

text \<open>
  Content addressing is an invariant of the upload endpoints: whatever the requests, their bodies
  and the I/O failures, a file in a blob or manifest directory always has the content its digest
  names.
\<close>

theorem uploads_keep_content_addressing:
  assumes "hash_ok E" and "files_ok E (node_fs n)"
  shows "files_ok E (node_fs (fst (upload_put E tok r i d cs n))) \<and>
    files_ok E (node_fs (fst (upload_post E tok r m s od cs n))) \<and>
    files_ok E (node_fs (fst (upload_patch E tok r i cr cs n))) \<and>
    files_ok E (node_fs (fst (upload_delete E tok r i n)))"
  using upload_put_files_ok [OF assms] upload_post_files_ok [OF assms]
    upload_patch_files_ok [OF assms(2)] upload_delete_files_ok [OF assms(2)] by blast

definition sample_raft :: raft where
  "sample_raft = \<lparr>client_write = (\<lambda>_. Inr \<lparr>response_value = 3\<rparr>), remote_write = (\<lambda>_ _ _. None),
     metrics = (\<lambda>_. Look (Some \<lparr>li_term = 1, li_node = 1, li_index = 3\<rparr>))\<rparr>"

definition sample_env :: env where
  "sample_env = \<lparr>root = [''var''], env_io = (\<lambda>_. True), clock = (\<lambda>k. int k), env_raft = sample_raft,
     sha256 = (\<lambda>b. b), hexlower = (\<lambda>b. replicate 64 (CHR ''a'')), uuid = ''u'',
     set_order = (\<lambda>_. [''pull'', ''push''])\<rparr>"

definition admin_token :: token where
  "admin_token = \<lparr>access_list = [], sub = ''anonymous'', validated_token = True, admin = True,
     realm = None, service = None\<rparr>"

definition sample_node :: node where
  "sample_node = \<lparr>node_store = new_store 1 empty_db, node_fs = empty_fs, submitted = [], events = []\<rparr>"

lemma sample_env_sel [simp]:
  "root sample_env = [''var'']" "env_io sample_env = (\<lambda>_. True)" "env_raft sample_env = sample_raft"
  "uuid sample_env = ''u''"
  by (simp_all add: sample_env_def)

lemma sample_env_hash: "hash_ok sample_env"
  by (simp add: hash_ok_def sample_env_def hex_char_def list_all_iff)

lemma sample_node_files: "files_ok sample_env (node_fs sample_node)"
  by (simp add: files_ok_def sample_node_def empty_fs_def)

theorem uploads_keep_content_addressing_witness:
  "files_ok sample_env (node_fs (fst (upload_put sample_env admin_token (RepositoryName ''r'') ''u''
     sample_digest [Some ''xyz''] sample_node)))"
  using uploads_keep_content_addressing [OF sample_env_hash sample_node_files] by blast

text \<open>
  C15. A successful put of an upload means what it says: the caller may push to the repository, the
  bytes sent so far followed by this request's bytes hash to the requested digest, exactly those
  bytes are now the blob's file and the upload is gone, one transaction was handed to raft and
  applied here, and applying it to any state yields a row that mounts the blob in the repository,
  places it on this node and records its size.
\<close>

theorem upload_put_created:
  assumes "hash_ok E" and "upload_put E tok r i d cs n = (n', Some (Inr h))"
  shows "\<exists>old as. files (node_fs n) (get_upload_path (root E) i) = Some old \<and> None \<notin> set cs \<and>
    (let b = old @ concat (map the cs)
     in content_digest E b = d \<and> files (node_fs n') (blob_file (root E) d) = Some b \<and>
        files (node_fs n') (get_upload_path (root E) i) = None \<and>
        submitted n' = submitted n @ [as] \<and> consistent_write (env_raft E) as = Some True \<and>
        (\<forall>s. \<exists>s' row. apply_actions as s = Some s' \<and> tx_get_blob s' d = Some row \<and>
           r \<in> repositories row \<and> node_id n \<in> locations row \<and> obj_size row = Some (of_nat (length b)))) \<and>
    has_permission tok r ''push'' \<and> status h = 201"
proof -
  let ?p = "get_upload_path (root E) i"
  have perm: "has_permission tok r ''push''"
    using put_guard.success_permitted [of E tok r "(i, d, cs)" n h] assms(2) by simp
  have valid: "validated_token tok" using perm by (simp add: has_permission_def split: if_splits)
  have isf: "is_file ?p (node_fs n)" and alg: "algo d = ''sha256''"
    and run: "with_upload E ?p cs UploadInvalid (commit_upload E tok r ?p d) n = (n', Some (Inr h))"
    using assms(2) perm valid by (auto simp: upload_put_def Let_def split: if_splits)
  obtain old where old: "files (node_fs n) ?p = Some old" using isf by (auto simp: is_file_def)
  from run obtain f where f: "upload_part (env_io E) ?p cs (node_fs n) = (f, Some True)"
    and commit: "commit_upload E tok r ?p d (n\<lparr>node_fs := f\<rparr>) = (n', Some (Inr h))"
    by (cases rule: with_upload_cases) auto
  have fp: "files f ?p = Some (old @ concat (map the cs))" and cs: "None \<notin> set cs"
    using upload_part_facts(3,4) [OF f] old by auto
  let ?b = "old @ concat (map the cs)"
  let ?as = "upload_actions E tok r d (of_nat (length ?b)) (node_id n)"
  have C: "content_digest E ?b = d" "h = blob_created r d"
    "files (node_fs n') = (files f)(?p := None, blob_file (root E) d \<mapsto> ?b)"
    "submitted n' = submitted n @ [?as]" "consistent_write (env_raft E) ?as = Some True"
    using commit_upload_facts [OF assms(1) commit] fp by (auto simp: node_id_def)
  have "?p \<noteq> blob_file (root E) d" using upload_path_outside by blast
  then have "files (node_fs n') (blob_file (root E) d) = Some ?b" "files (node_fs n') ?p = None"
    using C(3) by auto
  moreover have "status h = 201" using C(2) by (simp add: blob_created_def respond_def)
  ultimately show ?thesis
    using old cs C upload_actions_effect [of E tok r d "of_nat (length ?b)" "node_id n"] perm
    unfolding Let_def by blast
qed

definition uploading_node :: node where
  "uploading_node = sample_node\<lparr>node_fs := empty_fs\<lparr>files := [[''var'', ''uploads'', ''blob-u''] \<mapsto> ''ab'']\<rparr>\<rparr>"

definition a64 :: digest where
  "a64 = Digest ''sha256'' (replicate 64 (CHR ''a''))"

lemma sample_consistent: "consistent_write sample_raft as = Some True"
  by (simp add: consistent_write_def sample_raft_def Let_def wait_applied.simps)

lemma sample_upload_path: "get_upload_path [''var''] ''u'' = [''var'', ''uploads'', ''blob-u'']"
  by (simp add: get_upload_path_def path_push_plain kind_plain plain_def)

lemma a64_hex [simp]: "hex_digest a64"
  by (simp add: a64_def hex_digest_def list_all_iff hex_char_def)

lemma sample_content [simp]: "content_digest sample_env b = a64"
  by (simp add: content_digest_def sample_env_def a64_def from_sha256_def)

lemma sample_create:
  "files f = [[''var'', ''uploads'', s] \<mapsto> b] \<Longrightarrow> k \<noteq> ''uploads'' \<Longrightarrow>
   \<exists>f'. create_dir_all (\<lambda>_. True) (butlast (object_path k [''var''] a64)) f = Some f'"
  by (auto simp: create_dir_all_def list_all_iff object_path_def Let_def take_Cons' a64_def)

lemma sample_commit:
  assumes "files (node_fs n) = [[''var'', ''uploads'', ''blob-u''] \<mapsto> b]"
    and "blob_file [''var''] a64 \<notin> dirs (node_fs n)"
  shows "\<exists>n' h. commit_upload sample_env admin_token r [''var'', ''uploads'', ''blob-u''] a64 n = (n', Some (Inr h))"
proof -
  let ?p = "[''var'', ''uploads'', ''blob-u'']" and ?dest = "blob_file [''var''] a64"
  have valid: "validate_hash (sha256 sample_env) (hexlower sample_env) (\<lambda>_. True) ?p a64 (node_fs n)"
    using assms(1) by (simp add: validate_hash_iff)
  obtain f where f: "create_dir_all (\<lambda>_. True) (butlast ?dest) (node_fs n) = Some f"
    using sample_create [OF assms(1), of "''blobs''"] by auto
  then have path: "get_blob_path (\<lambda>_. True) [''var''] a64 (node_fs n) = Some (?dest, f)"
    by (simp add: get_blob_path_hex)
  have ff: "files f = files (node_fs n)" and par: "parent_exists ?dest f"
    using blob_layout.locate_path [OF a64_hex path] by auto
  have "?dest \<notin> dirs f"
    using create_dir_all_not_dir [OF f] assms(2) by (simp add: object_path_def Let_def)
  with valid path par show ?thesis
    by (simp add: commit_upload_def sample_env_def file_len_def rename_file_def ff assms(1) write_node_def
        sample_consistent)
qed

lemma upload_put_sample:
  "\<exists>n' h. upload_put sample_env admin_token (RepositoryName ''r'') ''u'' a64 [Some ''c''] uploading_node =
     (n', Some (Inr h))"
proof -
  let ?p = "[''var'', ''uploads'', ''blob-u'']"
  let ?f = "empty_fs\<lparr>files := [?p \<mapsto> ''abc'']\<rparr>"
  have part: "upload_part (\<lambda>_. True) ?p [Some ''c''] (node_fs uploading_node) = (?f, Some True)"
    by (simp add: upload_part_def open_append_def parent_exists_def path_parent_def uploading_node_def
        empty_fs_def append_file_def)
  obtain n' h where "commit_upload sample_env admin_token (RepositoryName ''r'') ?p a64
      (uploading_node\<lparr>node_fs := ?f\<rparr>) = (n', Some (Inr h))"
    using sample_commit [of "uploading_node\<lparr>node_fs := ?f\<rparr>" "''abc''" "RepositoryName ''r''"]
    by (auto simp: empty_fs_def object_path_def Let_def)
  with part show ?thesis
    by (simp add: upload_put_def admin_token_def has_permission_def sample_upload_path with_upload_def
        is_file_def uploading_node_def) (simp add: a64_def)
qed

theorem upload_put_created_witness:
  "\<exists>n' h. upload_put sample_env admin_token (RepositoryName ''r'') ''u'' a64 [Some ''c''] uploading_node =
     (n', Some (Inr h)) \<and> files (node_fs n') (blob_file [''var''] a64) = Some ''abc''"
proof -
  obtain n' h where run: "upload_put sample_env admin_token (RepositoryName ''r'') ''u'' a64 [Some ''c'']
      uploading_node = (n', Some (Inr h))" using upload_put_sample by blast
  from upload_put_created [OF sample_env_hash run] run show ?thesis
    by (auto simp: Let_def sample_env_def uploading_node_def sample_upload_path)
qed

text \<open>
  C33. Patching an upload honours its \<open>Content-Range\<close>: a range that is reversed, or does not start at
  the present size of the upload, is answered with 416 and changes nothing; when the reply is a
  success, the file holds its old bytes followed by the body, and \<open>Range\<close> ends at its last byte.
\<close>

theorem upload_patch_range:
  assumes "upload_patch E tok r i cr cs n = (n', rep)" and "has_permission tok r ''push''"
    and "files (node_fs n) (get_upload_path (root E) i) = Some old"
    and "env_io E (Stat (get_upload_path (root E) i))"
  shows "(\<forall>start stop. get_http_range cr = Some (Some (start, stop)) \<longrightarrow>
      (stop < start \<or> start \<noteq> of_nat (length old)) \<longrightarrow>
        n' = n \<and> rep = Some (Inl (RangeNotSatisfiable r i (of_nat (length old))))) \<and>
    (\<forall>h. rep = Some (Inr h) \<longrightarrow>
      files (node_fs n') (get_upload_path (root E) i) = Some (old @ concat (map the cs)) \<and>
      header ''Range'' h = Some (''0-'' @ show_u64 (let sz = of_nat (length (old @ concat (map the cs)))
        in if 0 < sz then sz - 1 else 0)))"
proof -
  let ?p = "get_upload_path (root E) i"
  have valid: "validated_token tok" using assms(2) by (simp add: has_permission_def split: if_splits)
  have body: "files (node_fs n') ?p = Some (old @ concat (map the cs)) \<and>
      header ''Range'' h = Some (''0-'' @ show_u64 (let sz = of_nat (length (old @ concat (map the cs)))
        in if 0 < sz then sz - 1 else 0))"
    if "patch_body E r i cs n = (n', Some (Inr h))" for h
  proof -
    from that obtain f where f: "upload_part (env_io E) ?p cs (node_fs n) = (f, Some True)"
      and k: "(case file_len (env_io E) ?p f of
          None \<Rightarrow> (n\<lparr>node_fs := f\<rparr>, Some (Inl UploadInvalid))
        | Some sz \<Rightarrow> (n\<lparr>node_fs := f\<rparr>, Some (Inr (respond 202
            (upload_headers r i (if 0 < sz then sz - 1 else 0)) Empty_Body)))) = (n', Some (Inr h))"
      by (auto simp: patch_body_def Let_def elim!: with_upload_cases)
    have "files f ?p = Some (old @ concat (map the cs))"
      using upload_part_facts(4) [OF f] assms(3) by simp
    with k assms(4) show ?thesis
      by (auto simp: file_len_def upload_headers_def header_def respond_def Let_def)
  qed
  show ?thesis using assms valid body
    by (auto simp: upload_patch_def Let_def is_file_def file_len_def split: if_splits option.splits)
qed

theorem upload_patch_range_witness:
  "upload_patch sample_env admin_token (RepositoryName ''r'') ''u'' (Some ''7-9'') [Some ''c''] uploading_node =
     (uploading_node, Some (Inl (RangeNotSatisfiable (RepositoryName ''r'') ''u'' 2)))"
proof -
  obtain n' rep where run: "upload_patch sample_env admin_token (RepositoryName ''r'') ''u'' (Some ''7-9'')
      [Some ''c''] uploading_node = (n', rep)" by (metis surj_pair)
  have p: "has_permission admin_token (RepositoryName ''r'') ''push''"
    by (simp add: has_permission_def admin_token_def)
  have f: "files (node_fs uploading_node) (get_upload_path (root sample_env) ''u'') = Some ''ab''"
    by (simp add: uploading_node_def sample_env_def sample_upload_path)
  have s: "env_io sample_env (Stat (get_upload_path (root sample_env) ''u''))" by (simp add: sample_env_def)
  have "get_http_range (Some ''7-9'') = Some (Some (7, 9))"
    by (simp add: get_http_range_def visible_ascii_def parse_u64_def digit_value_def Let_def)
  with upload_patch_range [OF run p f s] run show ?thesis by auto
qed

text \<open>
  C39. Asking for the state of an upload that has received nothing wraps: the reply's \<open>Range\<close> ends at
  \<open>u64::MAX\<close> instead of 0.
\<close>

theorem upload_get_empty_wraps:
  assumes "has_permission tok r ''pull''" and "files (node_fs n) (get_upload_path (root E) i) = Some []"
    and "env_io E (Stat (get_upload_path (root E) i))"
  shows "\<exists>h. upload_get E tok r i n = (n, Some (Inr h)) \<and>
    header ''Range'' h = Some (''0-'' @ show_u64 (- 1))"
proof -
  have "validated_token tok" using assms(1) by (simp add: has_permission_def split: if_splits)
  then show ?thesis using assms
    by (simp add: upload_get_def Let_def is_file_def file_len_def upload_headers_def header_def respond_def)
qed

theorem upload_get_empty_wraps_witness:
  "\<exists>h. upload_get sample_env admin_token (RepositoryName ''r'') ''u''
      (uploading_node\<lparr>node_fs := empty_fs\<lparr>files := [[''var'', ''uploads'', ''blob-u''] \<mapsto> []]\<rparr>\<rparr>) =
      (uploading_node\<lparr>node_fs := empty_fs\<lparr>files := [[''var'', ''uploads'', ''blob-u''] \<mapsto> []]\<rparr>\<rparr>, Some (Inr h)) \<and>
    header ''Range'' h = Some (''0-'' @ show_u64 (- 1))"
  by (rule upload_get_empty_wraps)
    (simp_all add: has_permission_def admin_token_def sample_env_def sample_upload_path)

text \<open>
  No upload endpoint does anything for a caller without the permission: the node is unchanged and
  the reply is 401 for a request without a valid token, 403 otherwise; there is always a reply.
\<close>

theorem uploads_refuse:
  assumes "token_ok tok" and "\<not> has_permission tok r ''push''"
  shows "\<exists>e1 e2 e3 e4. upload_put E tok r i d cs n = (n, Some e1) \<and>
    upload_post E tok r m s od cs n = (n, Some e2) \<and> upload_patch E tok r i cr cs n = (n, Some e3) \<and>
    upload_delete E tok r i n = (n, Some e4) \<and>
    reply_status ` {e1, e2, e3, e4} = {if validated_token tok then 403 else 401}"
  using put_guard.refused [OF assms, of E "(i, d, cs)" n]
    post_guard.refused [OF assms, of E "(m, s, od, cs)" n]
    patch_guard.refused [OF assms, of E "(i, cr, cs)" n]
    upload_delete_guard.refused [OF assms, of E i n]
  by auto

definition read_only_token :: token where
  "read_only_token = \<lparr>access_list = [\<lparr>acc_repository = RepositoryName ''r'', permissions = {''pull''}\<rparr>],
     sub = ''bob'', validated_token = True, admin = False, realm = Some ''u'', service = Some ''s''\<rparr>"

theorem uploads_refuse_witness:
  "\<exists>e. upload_delete sample_env read_only_token (RepositoryName ''r'') ''u'' uploading_node =
      (uploading_node, Some e) \<and> reply_status e = 403"
proof -
  have "token_ok read_only_token" "\<not> has_permission read_only_token (RepositoryName ''r'') ''push''"
    by (simp_all add: token_ok_def has_permission_def read_only_token_def)
  from uploads_refuse [OF this, of sample_env "''u''" a64 "[]" uploading_node None None None None]
  show ?thesis by (auto simp: read_only_token_def)
qed

end
