(* ===== verification/Garbage.thy ===== *)
theory Garbage
  imports Uploads
begin

text \<open>
  \<^verbatim>\<open>src/garbage.rs\<close>: phase 1 unmounts orphaned objects that are old enough (on the leader), phase 2
  deletes this node's copies of orphaned and unmounted objects and logs that they are gone.

  \<open>now\<close> and \<open>stamp\<close> are the readings of the clock (for the age of an object, and for an action), \<open>it\<close>
  the iteration order of the repositories, \<open>pick\<close> the order of the search for orphans.
\<close>

section \<open>Phase 1\<close>

datatype object_kind = Manifest_Kind | Blob_Kind

text \<open>\<open>MINIMUM_GARBAGE_AGE\<close> is twelve hours; a timestamp counts nanoseconds.\<close>

definition minimum_garbage_age :: int where
  "minimum_garbage_age = 60 * 60 * 12"

definition minimum_age :: int where
  "minimum_age = minimum_garbage_age * 1000000000"

definition unmount_old ::
  "(repository_name set \<Rightarrow> repository_name list) \<Rightarrow> timestamp \<Rightarrow>
     (digest \<Rightarrow> repository_name \<Rightarrow> registry_action) \<Rightarrow> digest \<times> obj \<Rightarrow> registry_action list" where
  "unmount_old it t unmounted kv =
     (if t - created (snd kv) < minimum_age then []
      else map (unmounted (fst kv)) (it (repositories (snd kv))))"

definition phase1_actions ::
  "(repository_name set \<Rightarrow> repository_name list) \<Rightarrow> (object_kind \<Rightarrow> digest \<Rightarrow> timestamp) \<Rightarrow>
     (object_kind \<Rightarrow> digest \<Rightarrow> repository_name \<Rightarrow> timestamp) \<Rightarrow>
     (digest, manifest) tree \<Rightarrow> (digest, blob) tree \<Rightarrow> registry_action list" where
  "phase1_actions it now stamp ms bs =
     concat (map (\<lambda>kv. unmount_old it (now Manifest_Kind (fst kv))
       (\<lambda>d r. ManifestUnmounted (stamp Manifest_Kind d r) d r ''$system'') kv) ms) @
     concat (map (\<lambda>kv. unmount_old it (now Blob_Kind (fst kv))
       (\<lambda>d r. BlobUnmounted (stamp Blob_Kind d r) d r ''$system'') kv) bs)"

definition submit_node :: "registry_action list \<Rightarrow> node \<Rightarrow> node" where
  "submit_node as n = (if as \<noteq> [] then n\<lparr>submitted := submitted n @ [as]\<rparr> else n)"

definition do_garbage_collect_phase1 ::
  "(digest set \<Rightarrow> digest set \<Rightarrow> digest) \<Rightarrow> (repository_name set \<Rightarrow> repository_name list) \<Rightarrow>
     (object_kind \<Rightarrow> digest \<Rightarrow> timestamp) \<Rightarrow> (object_kind \<Rightarrow> digest \<Rightarrow> repository_name \<Rightarrow> timestamp) \<Rightarrow>
     node \<Rightarrow> node option" where
  "do_garbage_collect_phase1 pick it now stamp n =
     (let ms = get_orphaned_manifests (node_store n)
      in case get_orphaned_blobs pick (node_store n) of
           None \<Rightarrow> None
         | Some bs \<Rightarrow> Some (submit_node (phase1_actions it now stamp ms bs) n))"

section \<open>Deleting an object's file\<close>

definition dir_empty :: "path \<Rightarrow> filesystem \<Rightarrow> bool" where
  "dir_empty p f \<longleftrightarrow> (\<forall>q. path_parent q = Some p \<longrightarrow> \<not> path_exists q f)"

fun ancestors :: "nat \<Rightarrow> path \<Rightarrow> path list" where
  "ancestors 0 p = []"
| "ancestors (Suc k) p =
     p # (case path_parent p of None \<Rightarrow> [] | Some q \<Rightarrow> ancestors k q)"

text \<open>The result is the file system and whether the clean-up succeeded.\<close>

fun cleanup_dirs :: "io \<Rightarrow> path list \<Rightarrow> filesystem \<Rightarrow> filesystem \<times> bool" where
  "cleanup_dirs io [] f = (f, True)"
| "cleanup_dirs io (p # ps) f =
     (if files f p \<noteq> None then (f, False)
      else if p \<notin> dirs f then cleanup_dirs io ps f
      else if \<not> io (Read_Dir p) then (f, False)
      else if \<not> dir_empty p f then (f, True)
      else if \<not> io (Remove_Dir p) then (f, False)
      else cleanup_dirs io ps (f\<lparr>dirs := dirs f - {p}\<rparr>))"

definition cleanup_object :: "io \<Rightarrow> path \<Rightarrow> filesystem \<Rightarrow> (filesystem \<times> bool) option" where
  "cleanup_object io p f =
     (case (if path_exists p f then remove_file io p f else Some f) of
        None \<Rightarrow> Some (f, False)
      | Some f' \<Rightarrow>
          (case path_parent p of
             None \<Rightarrow> None
           | Some q \<Rightarrow> Some (cleanup_dirs io (ancestors 3 q) f')))"

section \<open>Phase 2\<close>

text \<open>
  One sweep, over manifests or blobs: \<open>locate\<close> gives the path, \<open>unstored\<close> the action. The result is
  the file system and the actions, \<open>None\<close> for a panic.
\<close>

fun sweep ::
  "(io \<Rightarrow> path \<Rightarrow> digest \<Rightarrow> filesystem \<Rightarrow> (path \<times> filesystem) option) \<Rightarrow> (digest \<Rightarrow> registry_action) \<Rightarrow>
     env \<Rightarrow> u64 \<Rightarrow> (digest \<times> obj) list \<Rightarrow> filesystem \<Rightarrow> (filesystem \<times> registry_action list) option" where
  "sweep locate unstored E i [] f = Some (f, [])"
| "sweep locate unstored E i (kv # kvs) f =
     (if i \<notin> locations (snd kv) then sweep locate unstored E i kvs f
      else if repositories (snd kv) \<noteq> {} then sweep locate unstored E i kvs f
      else case locate (env_io E) (root E) (fst kv) f of
        None \<Rightarrow> None
      | Some (p, f) \<Rightarrow>
          (case cleanup_object (env_io E) p f of
             None \<Rightarrow> None
           | Some (f, ok) \<Rightarrow>
               map_option (\<lambda>(f, as). (f, if ok then unstored (fst kv) # as else as))
                 (sweep locate unstored E i kvs f)))"

definition do_garbage_collect_phase2 ::
  "(digest set \<Rightarrow> digest set \<Rightarrow> digest) \<Rightarrow> (object_kind \<Rightarrow> digest \<Rightarrow> timestamp) \<Rightarrow> env \<Rightarrow> node \<Rightarrow> node option" where
  "do_garbage_collect_phase2 pick now E n =
     (case sweep get_manifest_path
         (\<lambda>d. ManifestUnstored (now Manifest_Kind d) d (node_id n) ''$system'') E (node_id n)
         (get_orphaned_manifests (node_store n)) (node_fs n) of
        None \<Rightarrow> None
      | Some (f, as) \<Rightarrow>
          (case get_orphaned_blobs pick (node_store n) of
             None \<Rightarrow> None
           | Some bs \<Rightarrow>
               (case sweep get_blob_path
                   (\<lambda>d. BlobUnstored (now Blob_Kind d) d (node_id n) ''$system'') E (node_id n) bs f of
                  None \<Rightarrow> None
                | Some (f, cs) \<Rightarrow> Some (submit_node (as @ cs) (n\<lparr>node_fs := f\<rparr>)))))"

section \<open>The collector's loop\<close>

text \<open>
  One turn of the loop: the leader sweeps for mounts, leaders and followers sweep for copies, and the
  loop ends when raft has shut down. \<open>between\<close> is what raft applied after phase 1.
\<close>

datatype server_state = Learner | Follower | Candidate | Leader | Shutdown

definition garbage_round ::
  "(node \<Rightarrow> node option) \<Rightarrow> (node \<Rightarrow> node) \<Rightarrow> (node \<Rightarrow> node option) \<Rightarrow> server_state \<Rightarrow> node \<Rightarrow>
     (node \<times> bool) option" where
  "garbage_round phase1 between phase2 state n =
     (case (if state = Leader then map_option between (phase1 n) else Some n) of
        None \<Rightarrow> None
      | Some n \<Rightarrow>
          (case (if state = Leader \<or> state = Follower then phase2 n else Some n) of
             None \<Rightarrow> None
           | Some n \<Rightarrow> Some (n, state \<noteq> Shutdown)))"

section \<open>What a sweep does\<close>

lemma cleanup_dirs_files: "files (fst (cleanup_dirs io ps f)) = files f"
  by (induction io ps f rule: cleanup_dirs.induct) auto

lemma cleanup_object_files:
  "cleanup_object io p f = Some (f', ok) \<Longrightarrow>
   (ok \<longrightarrow> files f' = (files f)(p := None)) \<and> (files f' = files f \<or> files f' = (files f)(p := None))"
proof -
  assume run: "cleanup_object io p f = Some (f', ok)"
  have rm: "files g = (files f)(p := None)" if "remove_file io p f = Some g" for g
    using that by (auto simp: remove_file_def split: if_splits)
  have none: "files f = (files f)(p := None)" if "\<not> path_exists p f"
    using that by (auto simp: path_exists_def)
  show ?thesis using run rm none
      cleanup_dirs_files [of io "ancestors 3 (butlast p)" f]
    by (auto simp: cleanup_object_def path_parent_def split: option.splits if_splits
        dest!: arg_cong [where f = fst]) (metis cleanup_dirs_files)+
qed

context object_layout begin

lemma sweep_facts:
  assumes "\<forall>kv \<in> set kvs. hex_digest (fst kv)" and "sweep locate unstored E i kvs f = Some (f', as)"
  shows "(\<forall>q. files f' q = files f q \<or> files f' q = None \<and>
      (\<exists>kv \<in> set kvs. q = object_path kind (root E) (fst kv) \<and> i \<in> locations (snd kv) \<and> repositories (snd kv) = {})) \<and>
    (\<forall>a \<in> set as. \<exists>kv \<in> set kvs. a = unstored (fst kv) \<and> i \<in> locations (snd kv) \<and>
      repositories (snd kv) = {} \<and> files f' (object_path kind (root E) (fst kv)) = None)"
  using assms
proof (induction kvs arbitrary: f as)
  case (Cons kv kvs)
  show ?case
  proof (cases "i \<in> locations (snd kv) \<and> repositories (snd kv) = {}")
    case False
    then have "sweep locate unstored E i kvs f = Some (f', as)" using Cons.prems(2) by (auto split: if_splits)
    with Cons.IH [OF _ this] Cons.prems(1) show ?thesis by (meson list.set_intros(2))
  next
    case True
    let ?p = "object_path kind (root E) (fst kv)"
    from True Cons.prems(2) obtain p g h ok bs where
      loc: "locate (env_io E) (root E) (fst kv) f = Some (p, g)"
      and clean: "cleanup_object (env_io E) p g = Some (h, ok)"
      and rest: "sweep locate unstored E i kvs h = Some (f', bs)"
      and as: "as = (if ok then unstored (fst kv) # bs else bs)"
      by (auto split: option.splits prod.splits)
    have hex: "hex_digest (fst kv)" using Cons.prems(1) by simp
    have p: "p = ?p" "files g = files f" using locate_path [OF hex loc] by auto
    have "\<forall>kv \<in> set kvs. hex_digest (fst kv)" using Cons.prems(1) by simp
    note IH = Cons.IH [OF this rest]
    have step: "ok \<longrightarrow> files h = (files f)(?p := None)" "files h = files f \<or> files h = (files f)(?p := None)"
      using cleanup_object_files [OF clean] p by auto
    have gone: "files f' ?p = None" if ok
      using conjunct1 [OF IH, rule_format, of ?p] step(1) that by auto
    have "files f' q = files f q \<or> files f' q = None \<and> (\<exists>kv \<in> set (kv # kvs).
        q = object_path kind (root E) (fst kv) \<and> i \<in> locations (snd kv) \<and> repositories (snd kv) = {})" for q
    proof (cases "q = ?p \<and> files h = (files f)(?p := None)")
      case at_p: True
      then have "files f' q = None" using conjunct1 [OF IH, rule_format, of q] by auto
      then show ?thesis using True at_p by auto
    next
      case False
      then have "files h q = files f q" using step(2) by auto
      then show ?thesis using conjunct1 [OF IH, rule_format, of q] by auto
    qed
    moreover have "\<forall>a \<in> set as. \<exists>kv \<in> set (kv # kvs). a = unstored (fst kv) \<and> i \<in> locations (snd kv) \<and>
        repositories (snd kv) = {} \<and> files f' (object_path kind (root E) (fst kv)) = None"
      using conjunct2 [OF IH] as gone True by (auto split: if_splits)
    ultimately show ?thesis by blast
  qed
qed simp

end

section \<open>What the unmounting does\<close>

definition unmount_action :: "registry_action \<Rightarrow> bool" where
  "unmount_action a \<longleftrightarrow> (\<exists>ts d r u. a = BlobUnmounted ts d r u \<or> a = ManifestUnmounted ts d r u)"

definition blob_unmounts :: "registry_action list \<Rightarrow> digest \<Rightarrow> repository_name set" where
  "blob_unmounts as d = {r. \<exists>ts u. BlobUnmounted ts d r u \<in> set as}"

definition manifest_unmounts :: "registry_action list \<Rightarrow> digest \<Rightarrow> repository_name set" where
  "manifest_unmounts as d = {r. \<exists>ts u. ManifestUnmounted ts d r u \<in> set as}"

text \<open>A row and what is left of it after some unmounts.\<close>

definition unmounted_row :: "repository_name set \<Rightarrow> obj option \<Rightarrow> obj option \<Rightarrow> bool" where
  "unmounted_row R row row' \<longleftrightarrow>
     (case row of
        None \<Rightarrow> row' = None
      | Some b \<Rightarrow> \<exists>b'. row' = Some b' \<and> repositories b' = repositories b - R \<and>
          locations b' = locations b \<and> (R = {} \<longrightarrow> b' = b))"

lemma unmounted_row_refl: "unmounted_row {} row row"
  by (simp add: unmounted_row_def split: option.splits)

lemma unmounted_row_step: "unmounted_row {r} row (row_step ts (Unmount r) row)"
  by (auto simp: unmounted_row_def row_step_def split: option.splits)

lemma unmounted_row_trans:
  "unmounted_row R row row' \<Longrightarrow> unmounted_row S row' row'' \<Longrightarrow> unmounted_row (R \<union> S) row row''"
  by (auto simp: unmounted_row_def split: option.splits)

lemma unmount_action_step:
  assumes "unmount_action a"
  shows "\<exists>s'. apply_action a s = Some s' \<and>
    (\<forall>d. unmounted_row (blob_unmounts [a] d) (tx_get_blob s d) (tx_get_blob s' d)) \<and>
    (\<forall>d. unmounted_row (manifest_unmounts [a] d) (tx_get_manifest s d) (tx_get_manifest s' d))"
proof -
  have frames: "tx_get_manifest (apply_blob_unmounted ts e r s) = tx_get_manifest s"
    "tx_get_blob (apply_manifest_unmounted ts e r s) = tx_get_blob s" for ts e r
    by (simp_all add: tx_get_manifest_def [abs_def] tx_get_blob_def [abs_def] arms_frame)
  show ?thesis using assms
    by (auto simp: unmount_action_def blob_unmounts_def manifest_unmounts_def frames
        blob.get_rows manifest.get_rows unmounted_row_refl unmounted_row_step)
qed

lemma unmount_actions_effect:
  assumes "list_all unmount_action as"
  shows "\<exists>s'. apply_actions as s = Some s' \<and>
    (\<forall>d. unmounted_row (blob_unmounts as d) (tx_get_blob s d) (tx_get_blob s' d)) \<and>
    (\<forall>d. unmounted_row (manifest_unmounts as d) (tx_get_manifest s d) (tx_get_manifest s' d))"
  using assms
proof (induction as arbitrary: s)
  case Nil
  then show ?case
    by (simp add: apply_actions_def blob_unmounts_def manifest_unmounts_def unmounted_row_refl)
next
  case (Cons a as)
  obtain t where t: "apply_action a s = Some t"
      "\<And>d. unmounted_row (blob_unmounts [a] d) (tx_get_blob s d) (tx_get_blob t d)"
      "\<And>d. unmounted_row (manifest_unmounts [a] d) (tx_get_manifest s d) (tx_get_manifest t d)"
    using unmount_action_step [of a s] Cons.prems by auto
  obtain u where u: "apply_actions as t = Some u"
      "\<And>d. unmounted_row (blob_unmounts as d) (tx_get_blob t d) (tx_get_blob u d)"
      "\<And>d. unmounted_row (manifest_unmounts as d) (tx_get_manifest t d) (tx_get_manifest u d)"
    using Cons.IH [of t] Cons.prems by auto
  have "blob_unmounts (a # as) d = blob_unmounts [a] d \<union> blob_unmounts as d"
    "manifest_unmounts (a # as) d = manifest_unmounts [a] d \<union> manifest_unmounts as d" for d
    by (auto simp: blob_unmounts_def manifest_unmounts_def)
  then show ?case using t(1) u(1) unmounted_row_trans [OF t(2) u(2)] unmounted_row_trans [OF t(3) u(3)]
    by (simp add: apply_actions_def)
qed

section \<open>Properties of the garbage collector\<close>

text \<open>The objects the collector may touch, in the registry a node sees.\<close>

definition orphan_blob :: "registry_store \<Rightarrow> digest \<Rightarrow> bool" where
  "orphan_blob st d \<longleftrightarrow>
     d \<notin> reachable_from (blobs (sm_db st)) (manifest_roots (manifests (sm_db st)))"

definition orphan_manifest :: "registry_store \<Rightarrow> digest \<Rightarrow> bool" where
  "orphan_manifest st d \<longleftrightarrow> (\<forall>k. bt_get (tags (sm_db st)) k \<noteq> Some d)"

definition rows_hex :: "registry_store \<Rightarrow> bool" where
  "rows_hex st \<longleftrightarrow> (\<forall>d b. get_blob st d = Some b \<or> get_manifest st d = Some b \<longrightarrow> hex_digest d)"

lemma orphaned_blobs_in:
  assumes "db_wf (sm_db st)" and "picks pick" and "get_orphaned_blobs pick st = Some bs"
  shows "(d, b) \<in> set bs \<longleftrightarrow> get_blob st d = Some b \<and> orphan_blob st d"
  using get_orphaned_blobs_eq [OF assms(1,2)] assms(1,3)
  by (auto simp: get_blob_def orphan_blob_def bt_get_iff db_wf_def)

lemma orphaned_manifests_in:
  assumes "db_wf (sm_db st)"
  shows "(d, m) \<in> set (get_orphaned_manifests st) \<longleftrightarrow> get_manifest st d = Some m \<and> orphan_manifest st d"
proof -
  have T: "get_all_tags st = tags (sm_db st)" "get_manifests st = manifests (sm_db st)"
    and wf: "bt_wf (tags (sm_db st))" "bt_wf (manifests (sm_db st))"
    using assms by (simp_all add: get_all_tags_def get_manifests_def read_tree_wf db_wf_def
        bt_insert_all_self)
  have "d \<in> snd ` set (tags (sm_db st)) \<longleftrightarrow> (\<exists>k. bt_get (tags (sm_db st)) k = Some d)"
    unfolding bt_get_iff [OF wf(1)] by (force simp: image_iff)
  then show ?thesis
    using bt_get_iff [OF wf(2)] by (auto simp: get_orphaned_manifests_def T get_manifest_def orphan_manifest_def)
qed

text \<open>What this node may delete: its copy of an orphan that no repository mounts.\<close>

definition collectable_blob :: "node \<Rightarrow> digest \<Rightarrow> bool" where
  "collectable_blob n d \<longleftrightarrow> (\<exists>row. get_blob (node_store n) d = Some row \<and>
     orphan_blob (node_store n) d \<and> node_id n \<in> locations row \<and> repositories row = {})"

definition collectable_manifest :: "node \<Rightarrow> digest \<Rightarrow> bool" where
  "collectable_manifest n d \<longleftrightarrow> (\<exists>row. get_manifest (node_store n) d = Some row \<and>
     orphan_manifest (node_store n) d \<and> node_id n \<in> locations row \<and> repositories row = {})"

lemma sweep_blobs:
  assumes "db_wf (sm_db (node_store n))" and "picks pick" and "rows_hex (node_store n)"
    and "get_orphaned_blobs pick (node_store n) = Some bs"
    and "sweep get_blob_path unstored E (node_id n) bs f = Some (f', as)"
  shows "files f' q = files f q \<or> files f' q = None \<and> (\<exists>d. q = blob_file (root E) d \<and> collectable_blob n d)"
    and "a \<in> set as \<Longrightarrow>
      \<exists>d. a = unstored d \<and> collectable_blob n d \<and> files f' (blob_file (root E) d) = None"
proof -
  note in_bs = orphaned_blobs_in [OF assms(1,2,4)]
  have "\<forall>kv \<in> set bs. hex_digest (fst kv)" using in_bs assms(3) by (auto simp: rows_hex_def)
  note S = blob_layout.sweep_facts [OF this assms(5)]
  show "files f' q = files f q \<or> files f' q = None \<and> (\<exists>d. q = blob_file (root E) d \<and> collectable_blob n d)"
    using conjunct1 [OF S, rule_format, of q] in_bs by (fastforce simp: collectable_blob_def)
  show "a \<in> set as \<Longrightarrow> \<exists>d. a = unstored d \<and> collectable_blob n d \<and> files f' (blob_file (root E) d) = None"
    using conjunct2 [OF S, rule_format, of a] in_bs by (fastforce simp: collectable_blob_def)
qed

lemma sweep_manifests:
  assumes "db_wf (sm_db (node_store n))" and "rows_hex (node_store n)"
    and "sweep get_manifest_path unstored E (node_id n) (get_orphaned_manifests (node_store n)) f = Some (f', as)"
  shows "files f' q = files f q \<or>
      files f' q = None \<and> (\<exists>d. q = manifest_file (root E) d \<and> collectable_manifest n d)"
    and "a \<in> set as \<Longrightarrow>
      \<exists>d. a = unstored d \<and> collectable_manifest n d \<and> files f' (manifest_file (root E) d) = None"
proof -
  let ?ms = "get_orphaned_manifests (node_store n)"
  note in_ms = orphaned_manifests_in [OF assms(1)]
  have "\<forall>kv \<in> set ?ms. hex_digest (fst kv)" using in_ms assms(2) by (auto simp: rows_hex_def)
  note S = manifest_layout.sweep_facts [OF this assms(3)]
  show "files f' q = files f q \<or>
      files f' q = None \<and> (\<exists>d. q = manifest_file (root E) d \<and> collectable_manifest n d)"
    using conjunct1 [OF S, rule_format, of q] in_ms by (fastforce simp: collectable_manifest_def)
  show "a \<in> set as \<Longrightarrow>
      \<exists>d. a = unstored d \<and> collectable_manifest n d \<and> files f' (manifest_file (root E) d) = None"
    using conjunct2 [OF S, rule_format, of a] in_ms by (fastforce simp: collectable_manifest_def)
qed

text \<open>
  C18. Phase 2 deletes only what it may. Every copy it reports as gone is this node's copy of an object that
  no repository mounts and that is an orphan: no tag names it, if it is a manifest, or no manifest
  reaches it through the dependencies, if it is a blob. Its file is gone when the report is
  submitted, and phase 2 removes no other file. (No tag need name a manifest that a tagged manifest list
  contains: such a child is an orphan here, and may be deleted.)
\<close>

theorem gc_phase2_safe:
  assumes "db_wf (sm_db (node_store n))" and "picks pick" and "rows_hex (node_store n)"
    and "do_garbage_collect_phase2 pick now E n = Some n'"
  shows "\<exists>as. submitted n' = submitted n @ (if as = [] then [] else [as]) \<and>
    (\<forall>a \<in> set as. \<exists>ts d.
      a = BlobUnstored ts d (node_id n) ''$system'' \<and> collectable_blob n d \<and>
        files (node_fs n') (blob_file (root E) d) = None \<or>
      a = ManifestUnstored ts d (node_id n) ''$system'' \<and> collectable_manifest n d \<and>
        files (node_fs n') (manifest_file (root E) d) = None) \<and>
    (\<forall>p. files (node_fs n') p \<noteq> files (node_fs n) p \<longrightarrow> files (node_fs n') p = None \<and>
      (\<exists>d. p = blob_file (root E) d \<and> collectable_blob n d \<or>
        p = manifest_file (root E) d \<and> collectable_manifest n d))"
proof -
  obtain f as g cs bs where
    ms: "sweep get_manifest_path (\<lambda>d. ManifestUnstored (now Manifest_Kind d) d (node_id n) ''$system'') E
      (node_id n) (get_orphaned_manifests (node_store n)) (node_fs n) = Some (f, as)"
    and bs: "get_orphaned_blobs pick (node_store n) = Some bs"
    and sb: "sweep get_blob_path (\<lambda>d. BlobUnstored (now Blob_Kind d) d (node_id n) ''$system'') E
      (node_id n) bs f = Some (g, cs)"
    and n': "n' = submit_node (as @ cs) (n\<lparr>node_fs := g\<rparr>)"
    using assms(4) by (auto simp: do_garbage_collect_phase2_def split: option.splits)
  note M = sweep_manifests [OF assms(1,3) ms] and B = sweep_blobs [OF assms(1-3) bs sb]
  have g: "node_fs n' = g" "submitted n' = submitted n @ (if as @ cs = [] then [] else [as @ cs])"
    by (auto simp: n' submit_node_def)
  have "files g (manifest_file (root E) d) = files f (manifest_file (root E) d)" for d
    using B(1) object_path_kinds [of "''manifests''" "''blobs''"] by fastforce
  then have acts: "\<forall>a \<in> set (as @ cs). \<exists>ts d.
      a = BlobUnstored ts d (node_id n) ''$system'' \<and> collectable_blob n d \<and>
        files g (blob_file (root E) d) = None \<or>
      a = ManifestUnstored ts d (node_id n) ''$system'' \<and> collectable_manifest n d \<and>
        files g (manifest_file (root E) d) = None"
    using M(2) B(2) by fastforce
  have "files g p = None \<and> (\<exists>d. p = blob_file (root E) d \<and> collectable_blob n d \<or>
      p = manifest_file (root E) d \<and> collectable_manifest n d)" if "files g p \<noteq> files (node_fs n) p" for p
    using that M(1) [of p] B(1) [of p] by auto
  then show ?thesis unfolding g(1) using g(2) acts by blast
qed

definition orphan_row :: obj where
  "orphan_row = \<lparr>obj_size = Some 3, content_type = None, dependencies = Some [], repositories = {},
     locations = {1}, created = 0, updated = 0\<rparr>"

definition garbage_node :: node where
  "garbage_node = sample_node\<lparr>node_store := new_store 1 (empty_db\<lparr>blobs := [(a64, orphan_row)]\<rparr>)\<rparr>"

lemma garbage_node_wf: "db_wf (sm_db (node_store garbage_node))" "rows_hex (node_store garbage_node)"
  by (auto simp: garbage_node_def new_store_def db_wf_def empty_db_def tx_get_blob_def tx_get_manifest_def
      orphan_row_def row_wf_def bt_wf_def rows_hex_def get_blob_def get_manifest_def split: if_splits)




text \<open>The same node with the file of the blob on its disk.\<close>

definition stored_garbage :: node where
  "stored_garbage = garbage_node\<lparr>node_fs := empty_fs\<lparr>files := [blob_file [''var''] a64 \<mapsto> ''abc'']\<rparr>\<rparr>"

lemma take_object_path: "take k (butlast (object_path kd p d)) \<noteq> object_path kd' p e"
proof
  assume "take k (butlast (object_path kd p d)) = object_path kd' p e"
  then have "length (take k (butlast (object_path kd p d))) = length (object_path kd' p e)" by simp
  then show False by (simp add: object_path_def Let_def)
qed

lemma cleanup_dirs_ok: "(\<And>q. files f q = None) \<Longrightarrow> snd (cleanup_dirs (\<lambda>_. True) ps f) = True"
  by (induction "\<lambda>_ :: io_op. True" ps f rule: cleanup_dirs.induct) auto

lemma stored_garbage_sweep:
  "\<exists>n'. do_garbage_collect_phase2 (\<lambda>V S. Min S) (\<lambda>_ _. 0) sample_env stored_garbage = Some n' \<and>
     submitted n' = [[BlobUnstored 0 a64 1 ''$system'']]"
proof -
  let ?p = "blob_file [''var''] a64" and ?f = "empty_fs\<lparr>files := [blob_file [''var''] a64 \<mapsto> ''abc'']\<rparr>"
  have store: "node_store stored_garbage = node_store garbage_node" by (simp add: stored_garbage_def)
  have bs: "get_orphaned_blobs (\<lambda>V S. Min S) (node_store garbage_node) = Some [(a64, orphan_row)]"
    using get_orphaned_blobs_eq [OF garbage_node_wf(1) picks_Min]
    by (simp add: garbage_node_def new_store_def empty_db_def manifest_roots_def reachable_from_def)
  have ms: "get_orphaned_manifests (node_store garbage_node) = []"
    by (simp add: get_orphaned_manifests_def get_manifests_def read_manifests_def bt_insert_all_def
        garbage_node_def new_store_def empty_db_def Let_def)
  have "create_dir_all (\<lambda>_. True) (butlast ?p) ?f \<noteq> None"
    using take_object_path by (auto simp: create_dir_all_def list_all_iff)
  then obtain f where "create_dir_all (\<lambda>_. True) (butlast ?p) ?f = Some f" by auto
  then have f: "get_blob_path (\<lambda>_. True) [''var''] a64 ?f = Some (?p, f)" "files f = files ?f"
    using create_dir_all_files by (simp_all add: get_blob_path_hex)
  define g where "g = f\<lparr>files := (files f)(?p := None)\<rparr>"
  have "path_parent ?p = Some (butlast ?p)" by (simp add: path_parent_def object_path_def Let_def)
  then have clean: "cleanup_object (\<lambda>_. True) ?p f = Some (cleanup_dirs (\<lambda>_. True) (ancestors 3 (butlast ?p)) g)"
    by (simp add: cleanup_object_def path_exists_def remove_file_def f(2) g_def)
  have "files g q = None" for q by (simp add: g_def f(2))
  then have "snd (cleanup_dirs (\<lambda>_. True) (ancestors 3 (butlast ?p)) g) = True" by (rule cleanup_dirs_ok)
  then obtain h where "cleanup_dirs (\<lambda>_. True) (ancestors 3 (butlast ?p)) g = (h, True)" by (metis prod.collapse)
  with bs ms f(1) clean show ?thesis
    by (simp add: do_garbage_collect_phase2_def store sample_env_def orphan_row_def submit_node_def)
      (simp add: stored_garbage_def garbage_node_def sample_node_def node_id_def new_store_def submit_node_def)
qed

theorem gc_phase2_safe_witness:
  "\<exists>n'. do_garbage_collect_phase2 (\<lambda>V S. Min S) (\<lambda>_ _. 0) sample_env stored_garbage = Some n' \<and>
     submitted n' = [[BlobUnstored 0 a64 1 ''$system'']] \<and> collectable_blob stored_garbage a64 \<and>
     files (node_fs stored_garbage) (blob_file [''var''] a64) = Some ''abc'' \<and>
     files (node_fs n') (blob_file [''var''] a64) = None"
proof -
  obtain n' where run: "do_garbage_collect_phase2 (\<lambda>V S. Min S) (\<lambda>_ _. 0) sample_env stored_garbage = Some n'"
      "submitted n' = [[BlobUnstored 0 a64 1 ''$system'']]"
    using stored_garbage_sweep by blast
  have st: "node_store stored_garbage = node_store garbage_node" "submitted stored_garbage = []"
    by (simp_all add: stored_garbage_def garbage_node_def sample_node_def)
  obtain as where as: "submitted n' = (if as = [] then [] else [as])" and
      A: "\<And>a. a \<in> set as \<Longrightarrow> \<exists>ts d. a = BlobUnstored ts d (node_id stored_garbage) ''$system'' \<and>
          collectable_blob stored_garbage d \<and> files (node_fs n') (blob_file (root sample_env) d) = None \<or>
        a = ManifestUnstored ts d (node_id stored_garbage) ''$system'' \<and> collectable_manifest stored_garbage d \<and>
          files (node_fs n') (manifest_file (root sample_env) d) = None"
    using gc_phase2_safe [OF _ picks_Min _ run(1)] garbage_node_wf unfolding st by auto
  have "as = [BlobUnstored 0 a64 1 ''$system'']" using as run(2) by (simp split: if_splits)
  then have "collectable_blob stored_garbage a64 \<and> files (node_fs n') (blob_file [''var''] a64) = None"
    using A [of "BlobUnstored 0 a64 1 ''$system''"] by (auto simp: sample_env_def)
  with run show ?thesis by (simp add: stored_garbage_def)
qed

definition aged :: "timestamp \<Rightarrow> obj \<Rightarrow> bool" where
  "aged t b \<longleftrightarrow> minimum_age \<le> t - created b"

lemma in_unmount_old:
  "a \<in> set (unmount_old it t unmounted kv) \<longleftrightarrow>
     aged t (snd kv) \<and> (\<exists>r \<in> set (it (repositories (snd kv))). a = unmounted (fst kv) r)"
  by (auto simp: unmount_old_def aged_def)

lemma in_phase1_actions:
  "BlobUnmounted ts d r u \<in> set (phase1_actions it now stamp ms bs) \<longleftrightarrow>
     ts = stamp Blob_Kind d r \<and> u = ''$system'' \<and>
     (\<exists>b. (d, b) \<in> set bs \<and> aged (now Blob_Kind d) b \<and> r \<in> set (it (repositories b)))"
  "ManifestUnmounted ts d r u \<in> set (phase1_actions it now stamp ms bs) \<longleftrightarrow>
     ts = stamp Manifest_Kind d r \<and> u = ''$system'' \<and>
     (\<exists>b. (d, b) \<in> set ms \<and> aged (now Manifest_Kind d) b \<and> r \<in> set (it (repositories b)))"
  by (auto simp: phase1_actions_def in_unmount_old) force+

lemma phase1_unmounts:
  assumes "db_wf (sm_db st)" and "picks pick" and "hash_iter it"
    and "get_orphaned_blobs pick st = Some bs"
    and as: "as = phase1_actions it now stamp (get_orphaned_manifests st) bs"
  shows "list_all unmount_action as"
    and "get_blob st d = Some b \<Longrightarrow> blob_unmounts as d =
      (if orphan_blob st d \<and> aged (now Blob_Kind d) b then repositories b else {})"
    and "get_manifest st d = Some m \<Longrightarrow> manifest_unmounts as d =
      (if orphan_manifest st d \<and> aged (now Manifest_Kind d) m then repositories m else {})"
proof -
  note in_bs = orphaned_blobs_in [OF assms(1,2,4)] and in_ms = orphaned_manifests_in [OF assms(1)]
  show "list_all unmount_action as"
    by (auto simp: as phase1_actions_def unmount_old_def unmount_action_def list_all_iff)
  have set_it: "set (it (repositories b)) = repositories b"
    if "get_blob st e = Some b \<or> get_manifest st e = Some b" for e b
    using that assms(1,3) by (auto simp: db_wf_def row_wf_def get_blob_tx get_manifest_tx)
  show "blob_unmounts as d = (if orphan_blob st d \<and> aged (now Blob_Kind d) b then repositories b else {})"
    if "get_blob st d = Some b"
    unfolding blob_unmounts_def as in_phase1_actions in_bs using that set_it [of d b] by auto
  show "manifest_unmounts as d =
      (if orphan_manifest st d \<and> aged (now Manifest_Kind d) m then repositories m else {})"
    if "get_manifest st d = Some m"
    unfolding manifest_unmounts_def as in_phase1_actions in_ms using that set_it [of d m] by auto
qed

text \<open>
  C19. Phase 1 unmounts exactly the old orphans. Applied to the registry it was computed from, the transaction the leader submits
  keeps every row as it was, except those of orphans twelve hours old or older, which keep
  their copies and lose all their repositories. An orphan is a manifest no tag names (also one a tagged manifest
  list contains), or a blob no manifest reaches through the dependencies.
\<close>

theorem gc_phase1_unmounts_dead:
  assumes "db_wf (sm_db (node_store n))" and "picks pick" and "hash_iter it"
  shows "\<exists>as s'. do_garbage_collect_phase1 pick it now stamp n = Some (submit_node as n) \<and>
    apply_actions as (sm_db (node_store n)) = Some s' \<and>
    (\<forall>d b. get_blob (node_store n) d = Some b \<longrightarrow>
      (if orphan_blob (node_store n) d \<and> aged (now Blob_Kind d) b
       then \<exists>b'. tx_get_blob s' d = Some b' \<and> repositories b' = {} \<and> locations b' = locations b
       else tx_get_blob s' d = Some b)) \<and>
    (\<forall>d m. get_manifest (node_store n) d = Some m \<longrightarrow>
      (if orphan_manifest (node_store n) d \<and> aged (now Manifest_Kind d) m
       then \<exists>m'. tx_get_manifest s' d = Some m' \<and> repositories m' = {} \<and> locations m' = locations m
       else tx_get_manifest s' d = Some m))"
proof -
  let ?st = "node_store n"
  obtain bs where bs: "get_orphaned_blobs pick ?st = Some bs"
    using get_orphaned_blobs_eq [OF assms(1,2)] by blast
  define as where "as = phase1_actions it now stamp (get_orphaned_manifests ?st) bs"
  note U = phase1_unmounts [OF assms bs as_def]
  obtain s' where s': "apply_actions as (sm_db ?st) = Some s'"
      "\<And>d. unmounted_row (blob_unmounts as d) (get_blob ?st d) (tx_get_blob s' d)"
      "\<And>d. unmounted_row (manifest_unmounts as d) (get_manifest ?st d) (tx_get_manifest s' d)"
    using unmount_actions_effect [OF U(1), of "sm_db ?st"] by (auto simp: get_blob_tx get_manifest_tx)
  have run: "do_garbage_collect_phase1 pick it now stamp n = Some (submit_node as n)"
    by (simp add: do_garbage_collect_phase1_def bs as_def Let_def)
  have B: "if orphan_blob ?st d \<and> aged (now Blob_Kind d) b
      then \<exists>b'. tx_get_blob s' d = Some b' \<and> repositories b' = {} \<and> locations b' = locations b
      else tx_get_blob s' d = Some b" if "get_blob ?st d = Some b" for d b
    using s'(2) [of d] U(2) [OF that] that by (auto simp: unmounted_row_def)
  have M: "if orphan_manifest ?st d \<and> aged (now Manifest_Kind d) b
      then \<exists>b'. tx_get_manifest s' d = Some b' \<and> repositories b' = {} \<and> locations b' = locations b
      else tx_get_manifest s' d = Some b" if "get_manifest ?st d = Some b" for d b
    using s'(3) [of d] U(3) [OF that] that by (auto simp: unmounted_row_def)
  from run s'(1) B M show ?thesis by blast
qed

text \<open>A blob that is mounted, and created twelve hours before the collection.\<close>

definition mounted_garbage :: node where
  "mounted_garbage = sample_node\<lparr>node_store := new_store 1 (empty_db\<lparr>blobs :=
     [(a64, orphan_row\<lparr>repositories := {RepositoryName ''r''}\<rparr>)]\<rparr>)\<rparr>"

theorem gc_phase1_unmounts_dead_witness:
  "\<exists>as s' b. do_garbage_collect_phase1 (\<lambda>V S. Min S) sorted_list_of_set (\<lambda>_ _. minimum_age) (\<lambda>_ _ _. 0) mounted_garbage =
      Some (submit_node as mounted_garbage) \<and> apply_actions as (sm_db (node_store mounted_garbage)) = Some s' \<and>
      tx_get_blob s' a64 = Some b \<and> repositories b = {} \<and> locations b = {1}"
proof -
  let ?n = mounted_garbage and ?row = "orphan_row\<lparr>repositories := {RepositoryName ''r''}\<rparr>"
  have wf: "db_wf (sm_db (node_store ?n))"
    by (auto simp: mounted_garbage_def new_store_def db_wf_def empty_db_def tx_get_blob_def tx_get_manifest_def
        orphan_row_def row_wf_def bt_wf_def split: if_splits)
  have row: "get_blob (node_store ?n) a64 = Some ?row" "aged minimum_age ?row" "locations ?row = {1}"
    by (simp_all add: mounted_garbage_def new_store_def get_blob_def aged_def orphan_row_def)
  have orphan: "orphan_blob (node_store ?n) a64"
    by (simp add: mounted_garbage_def new_store_def orphan_blob_def empty_db_def manifest_roots_def reachable_from_def)
  from gc_phase1_unmounts_dead [OF wf picks_Min hash_iter_sorted, of "\<lambda>_ _. minimum_age" "\<lambda>_ _ _. 0"]
  obtain as s' where "do_garbage_collect_phase1 (\<lambda>V S. Min S) sorted_list_of_set (\<lambda>_ _. minimum_age) (\<lambda>_ _ _. 0) ?n =
      Some (submit_node as ?n)"
    "apply_actions as (sm_db (node_store ?n)) = Some s'"
    "if orphan_blob (node_store ?n) a64 \<and> aged minimum_age ?row
     then \<exists>b'. tx_get_blob s' a64 = Some b' \<and> repositories b' = {} \<and> locations b' = locations ?row
     else tx_get_blob s' a64 = Some ?row" using row(1) by blast
  with row(2,3) orphan show ?thesis by auto
qed

end
