(* ===== verification/Extractor.thy ===== *)
theory Extractor
  imports Garbage
begin

text \<open>
  \<^verbatim>\<open>src/extractor.rs\<close>: the dependencies of a manifest, followed through the blobs of the registry. The
  JSON schema validator, the JSON parser and the iteration order of a \<open>HashSet\<close> are parameters, the
  record \<open>codec\<close>. The loop over the pending extractions is \<open>while_option\<close>; that it ends, on cyclic
  dependencies too, is a theorem.
\<close>

section \<open>Manifests and extractions\<close>

record layer =
  media_type :: string
  layer_size :: "u64 option"
  layer_digest :: digest

datatype parsed_manifest =
  ManifestV2 layer "layer list"
| DistributionManifestListV2 "layer list"
| DistributionManifestV1 "digest list"

record extraction =
  ex_digest :: digest
  ex_content_type :: string
  ex_size :: "u64 option"

datatype extract_error = UnknownError | SchemaValidationError

record codec =
  parse_json :: "bytes \<Rightarrow> parsed_manifest option"
  schema_valid :: "string \<Rightarrow> bytes \<Rightarrow> bool"
  ex_order :: "extraction set \<Rightarrow> extraction list"

definition schemas :: "string list" where
  "schemas =
     [''application/vnd.docker.container.image.v1+json'',
      ''application/vnd.docker.distribution.manifest.v1+json'',
      ''application/vnd.docker.distribution.manifest.v1+prettyjws'',
      ''application/vnd.docker.distribution.manifest.v2+json'',
      ''application/vnd.docker.distribution.manifest.list.v2+json'',
      ''application/vnd.oci.image.index.v1+json'',
      ''application/vnd.oci.image.manifest.v1+json'']"

definition validate :: "codec \<Rightarrow> string \<Rightarrow> bytes \<Rightarrow> bool" where
  "validate C ct data = (if ct \<in> set schemas then schema_valid C ct data else False)"

definition layer_extraction :: "layer \<Rightarrow> extraction" where
  "layer_extraction l =
     \<lparr>ex_digest = layer_digest l, ex_content_type = media_type l, ex_size = layer_size l\<rparr>"

text \<open>A text the parser refuses has no dependencies; this never fails.\<close>

definition extract_one :: "codec \<Rightarrow> bytes \<Rightarrow> extraction set" where
  "extract_one C data =
     (case parse_json C data of
        None \<Rightarrow> {}
      | Some (DistributionManifestListV2 ms) \<Rightarrow> layer_extraction ` set ms
      | Some (ManifestV2 config ls) \<Rightarrow> insert (layer_extraction config) (layer_extraction ` set ls)
      | Some (DistributionManifestV1 ds) \<Rightarrow>
          (\<lambda>d. \<lparr>ex_digest = d, ex_content_type = ''application/octet-string'', ex_size = None\<rparr>) ` set ds)"

definition parse_manifest ::
  "codec \<Rightarrow> io \<Rightarrow> path \<Rightarrow> string \<Rightarrow> filesystem \<Rightarrow> extract_error + extraction set" where
  "parse_manifest C io p ct f =
     (case read_to_string io p f of
        None \<Rightarrow> Inl UnknownError
      | Some data \<Rightarrow>
          if \<not> validate C ct data then Inl SchemaValidationError
          else Inr (extract_one C data))"

section \<open>The extraction loop\<close>

text \<open>\<open>stopped\<close> is \<open>Some (Some e)\<close> after an early return of an error, \<open>Some None\<close> after a panic.\<close>

record xstate =
  analysis :: "registry_action list"
  pending :: "extraction set"
  seen :: "digest set"
  x_fs :: filesystem
  stopped :: "extract_error option option"

definition dependency_digests :: "codec \<Rightarrow> extraction set \<Rightarrow> digest list" where
  "dependency_digests C deps = map ex_digest (ex_order C deps)"

definition extract_step ::
  "codec \<Rightarrow> env \<Rightarrow> registry_store \<Rightarrow> repository_name \<Rightarrow> extraction \<Rightarrow> xstate \<Rightarrow> xstate" where
  "extract_step C E st r x S =
     (let d = ex_digest x
      in if d \<in> seen S then S
         else case get_blob st d of
           None \<Rightarrow> S\<lparr>stopped := Some (Some UnknownError)\<rparr>
         | Some b \<Rightarrow>
             if content_type b \<noteq> None then S
             else if r \<notin> repositories b then S\<lparr>stopped := Some (Some UnknownError)\<rparr>
             else if (case ex_size x of None \<Rightarrow> False | Some sz \<Rightarrow> obj_size b \<noteq> Some sz)
             then S\<lparr>stopped := Some (Some UnknownError)\<rparr>
             else if ex_content_type x \<notin> set schemas
             then S\<lparr>analysis := analysis S @
                    [BlobInfo (clock E (length (analysis S))) d [] (ex_content_type x)],
                  seen := insert d (seen S)\<rparr>
             else case get_blob_path (env_io E) (root E) d (x_fs S) of
               None \<Rightarrow> S\<lparr>stopped := Some None\<rparr>
             | Some (p, f) \<Rightarrow>
                 (case read_to_string (env_io E) p f of
                    None \<Rightarrow> S\<lparr>x_fs := f, stopped := Some (Some UnknownError)\<rparr>
                  | Some data \<Rightarrow>
                      (let deps = extract_one C data
                       in S\<lparr>x_fs := f,
                            analysis := analysis S @
                              [BlobInfo (clock E (length (analysis S))) d (dependency_digests C deps)
                                (ex_content_type x)],
                            pending := pending S \<union> deps,
                            seen := insert d (seen S)\<rparr>)))"

fun extract_all ::
  "codec \<Rightarrow> env \<Rightarrow> registry_store \<Rightarrow> repository_name \<Rightarrow> extraction list \<Rightarrow> xstate \<Rightarrow> xstate" where
  "extract_all C E st r [] S = S"
| "extract_all C E st r (x # xs) S =
     (let S' = extract_step C E st r x S
      in if stopped S' \<noteq> None then S' else extract_all C E st r xs S')"

definition extract_round ::
  "codec \<Rightarrow> env \<Rightarrow> registry_store \<Rightarrow> repository_name \<Rightarrow> xstate \<Rightarrow> xstate" where
  "extract_round C E st r S = extract_all C E st r (ex_order C (pending S)) (S\<lparr>pending := {}\<rparr>)"

definition extract_loop ::
  "codec \<Rightarrow> env \<Rightarrow> registry_store \<Rightarrow> repository_name \<Rightarrow> xstate \<Rightarrow> xstate option" where
  "extract_loop C E st r S =
     while_option (\<lambda>S. stopped S = None \<and> pending S \<noteq> {}) (extract_round C E st r) S"

text \<open>
  The whole analysis: the file system it leaves and its result. \<open>None\<close> would be a loop that does not
  end, an inner \<open>None\<close> is a panic.
\<close>

definition extract_actions ::
  "codec \<Rightarrow> env \<Rightarrow> registry_store \<Rightarrow> repository_name \<Rightarrow> digest \<Rightarrow> string \<Rightarrow> path \<Rightarrow> filesystem \<Rightarrow>
     (filesystem \<times> (extract_error + registry_action list) option) option" where
  "extract_actions C E st r d ct p f =
     (case read_to_string (env_io E) p f of
        None \<Rightarrow> Some (f, Some (Inl UnknownError))
      | Some data \<Rightarrow>
          if \<not> validate C ct data then Some (f, Some (Inl SchemaValidationError))
          else let deps = extract_one C data
            in map_option (\<lambda>S. (x_fs S,
                 (case stopped S of
                    None \<Rightarrow> Some (Inr (analysis S))
                  | Some None \<Rightarrow> None
                  | Some (Some e) \<Rightarrow> Some (Inl e))))
               (extract_loop C E st r
                 \<lparr>analysis = [ManifestInfo (clock E 0) d (dependency_digests C deps) ct],
                  pending = deps, seen = {}, x_fs = f, stopped = None\<rparr>))"

section \<open>The invariant of the loop\<close>

definition codec_ok :: "codec \<Rightarrow> bool" where
  "codec_ok C \<longleftrightarrow> hash_iter (ex_order C)"

text \<open>The blobs the analysis may describe: mounted in the repository and not described yet.\<close>

definition describable :: "registry_store \<Rightarrow> repository_name \<Rightarrow> digest \<Rightarrow> bool" where
  "describable st r d \<longleftrightarrow> (\<exists>b. get_blob st d = Some b \<and> content_type b = None \<and> r \<in> repositories b)"

definition described :: "registry_action \<Rightarrow> digest option" where
  "described a = (case a of BlobInfo _ d _ _ \<Rightarrow> Some d | _ \<Rightarrow> None)"

definition extract_inv :: "registry_store \<Rightarrow> repository_name \<Rightarrow> registry_action \<Rightarrow> xstate \<Rightarrow> bool" where
  "extract_inv st r first S \<longleftrightarrow>
     finite (pending S) \<and>
     (\<forall>d \<in> seen S. describable st r d) \<and>
     (\<exists>infos. analysis S = first # infos \<and> distinct (map described infos) \<and>
        described ` set infos = Some ` seen S)"

lemma finite_extract_one [simp]: "finite (extract_one C data)"
  by (simp add: extract_one_def split: option.splits parsed_manifest.splits)

definition size_matches :: "extraction \<Rightarrow> blob \<Rightarrow> bool" where
  "size_matches x b \<longleftrightarrow> (case ex_size x of None \<Rightarrow> True | Some sz \<Rightarrow> obj_size b = Some sz)"

text \<open>A step on a dependency that is new, present, not yet described, of this repository and of the right size.\<close>

lemma extract_step_admitted:
  assumes "ex_digest x \<notin> seen S" and "get_blob st (ex_digest x) = Some b"
    and "content_type b = None" and "r \<in> repositories b" and "size_matches x b"
  shows "extract_step C E st r x S =
    (if ex_content_type x \<notin> set schemas
     then S\<lparr>analysis := analysis S @
            [BlobInfo (clock E (length (analysis S))) (ex_digest x) [] (ex_content_type x)],
          seen := insert (ex_digest x) (seen S)\<rparr>
     else case get_blob_path (env_io E) (root E) (ex_digest x) (x_fs S) of
         None \<Rightarrow> S\<lparr>stopped := Some None\<rparr>
       | Some (p, f) \<Rightarrow>
           (case read_to_string (env_io E) p f of
              None \<Rightarrow> S\<lparr>x_fs := f, stopped := Some (Some UnknownError)\<rparr>
            | Some data \<Rightarrow> S\<lparr>x_fs := f,
                analysis := analysis S @ [BlobInfo (clock E (length (analysis S))) (ex_digest x)
                  (dependency_digests C (extract_one C data)) (ex_content_type x)],
                pending := pending S \<union> extract_one C data, seen := insert (ex_digest x) (seen S)\<rparr>))"
proof -
  have "\<not> (case ex_size x of None \<Rightarrow> False | Some sz \<Rightarrow> obj_size b \<noteq> Some sz)"
    using assms(5) by (simp add: size_matches_def split: option.splits)
  with assms show ?thesis unfolding extract_step_def Let_def by simp
qed

lemma extract_step_not_admitted:
  assumes "\<And>b. get_blob st (ex_digest x) = Some b \<Longrightarrow>
      ex_digest x \<in> seen S \<or> content_type b \<noteq> None \<or> r \<notin> repositories b \<or> \<not> size_matches x b"
  shows "extract_step C E st r x S = S \<or>
    extract_step C E st r x S = S\<lparr>stopped := Some (Some UnknownError)\<rparr>"
proof (cases "get_blob st (ex_digest x)")
  case (Some b)
  have "(case ex_size x of None \<Rightarrow> False | Some sz \<Rightarrow> obj_size b \<noteq> Some sz) = (\<not> size_matches x b)"
    by (simp add: size_matches_def split: option.splits)
  then show ?thesis using assms [OF Some] Some by (auto simp: extract_step_def Let_def)
qed (simp add: extract_step_def Let_def)

text \<open>The directories an \<open>x_fs\<close> may gain; its files never change.\<close>

definition more_dirs :: "filesystem \<Rightarrow> filesystem \<Rightarrow> bool" where
  "more_dirs f f' \<longleftrightarrow> files f' = files f \<and> dirs f \<subseteq> dirs f'"

lemma more_dirs_refl [simp]: "more_dirs f f"
  by (simp add: more_dirs_def)

lemma more_dirs_trans: "more_dirs f g \<Longrightarrow> more_dirs g h \<Longrightarrow> more_dirs f h"
  by (auto simp: more_dirs_def)

lemma get_blob_path_more_dirs: "get_blob_path io rt d f = Some (p, f') \<Longrightarrow> more_dirs f f'"
  by (auto simp: get_blob_path_def Let_def more_dirs_def dest: create_dir_all_files split: option.splits)

lemma extract_step_cases:
  obtains (same) "extract_step C E st r x S = S"
  | (stop) f e where "more_dirs (x_fs S) f" and "extract_step C E st r x S = S\<lparr>x_fs := f, stopped := Some e\<rparr>"
  | (info) f ts ds deps where "ex_digest x \<notin> seen S" and "describable st r (ex_digest x)" and "finite deps"
      and "more_dirs (x_fs S) f"
      and "extract_step C E st r x S = S\<lparr>x_fs := f,
        analysis := analysis S @ [BlobInfo ts (ex_digest x) ds (ex_content_type x)],
        pending := pending S \<union> deps, seen := insert (ex_digest x) (seen S)\<rparr>"
proof (cases "\<exists>b. get_blob st (ex_digest x) = Some b \<and> ex_digest x \<notin> seen S \<and> content_type b = None \<and>
    r \<in> repositories b \<and> size_matches x b")
  case False
  then have "extract_step C E st r x S = S \<or>
      extract_step C E st r x S = S\<lparr>stopped := Some (Some UnknownError)\<rparr>"
    by (intro extract_step_not_admitted) (auto simp del: not_None_eq)
  then show thesis using same stop [where f = "x_fs S" and e = "Some UnknownError"] by auto
next
  case True
  then obtain b where b: "get_blob st (ex_digest x) = Some b" "ex_digest x \<notin> seen S" "content_type b = None"
      "r \<in> repositories b" "size_matches x b" by blast
  have desc: "describable st r (ex_digest x)" using b by (auto simp: describable_def)
  note step = extract_step_admitted [OF b(2,1,3-5), of C E]
  show thesis
  proof (cases "ex_content_type x \<notin> set schemas")
    case True
    then show thesis using step by (intro info [OF b(2) desc finite.emptyI, where f = "x_fs S"]) simp_all
  next
    case schema: False
    show thesis
    proof (cases "get_blob_path (env_io E) (root E) (ex_digest x) (x_fs S)")
      case None
      then show thesis using step schema by (intro stop [where f = "x_fs S" and e = None]) simp_all
    next
      case (Some pf)
      then have dirs: "more_dirs (x_fs S) (snd pf)" by (cases pf) (simp add: get_blob_path_more_dirs)
      show thesis
      proof (cases "read_to_string (env_io E) (fst pf) (snd pf)")
        case None
        then show thesis using step schema Some
          by (intro stop [OF dirs, where e = "Some UnknownError"]) (simp add: split_beta)
      next
        case data: (Some data)
        then show thesis using step schema Some
          by (intro info [OF b(2) desc finite_extract_one dirs]) (simp add: split_beta)
      qed
    qed
  qed
qed

lemma extract_step_inv:
  assumes "extract_inv st r first S"
  shows "extract_inv st r first (extract_step C E st r x S)"
proof (cases rule: extract_step_cases [of C E st r x S])
  case (info f ts ds deps)
  obtain infos where infos: "analysis S = first # infos" "distinct (map described infos)"
      "described ` set infos = Some ` seen S"
    using assms by (auto simp: extract_inv_def)
  have new: "described (BlobInfo ts (ex_digest x) ds (ex_content_type x)) = Some (ex_digest x)"
    by (simp add: described_def)
  have "Some (ex_digest x) \<notin> described ` set infos" using info(1) infos(3) by auto
  with info infos new assms show ?thesis
    by (auto simp: extract_inv_def intro!: exI [of _ "infos @ [BlobInfo ts (ex_digest x) ds (ex_content_type x)]"])
qed (use assms in \<open>simp_all add: extract_inv_def\<close>)

lemma extract_all_inv:
  "extract_inv st r first S \<Longrightarrow> extract_inv st r first (extract_all C E st r xs S)"
  by (induction xs arbitrary: S) (simp_all add: Let_def extract_step_inv)

lemma extract_round_inv:
  "extract_inv st r first S \<Longrightarrow> extract_inv st r first (extract_round C E st r S)"
  unfolding extract_round_def by (rule extract_all_inv) (simp add: extract_inv_def)

text \<open>A round that adds nothing to \<open>seen\<close> leaves nothing pending.\<close>

lemma extract_step_progress:
  "seen S \<subseteq> seen (extract_step C E st r x S) \<and>
   (seen (extract_step C E st r x S) = seen S \<longrightarrow> pending (extract_step C E st r x S) = pending S)"
  by (cases rule: extract_step_cases [of C E st r x S]) auto

lemma extract_all_progress:
  "seen S \<subseteq> seen (extract_all C E st r xs S) \<and>
   (seen (extract_all C E st r xs S) = seen S \<longrightarrow> pending (extract_all C E st r xs S) = pending S)"
proof (induction xs arbitrary: S)
  case (Cons x xs)
  let ?S = "extract_step C E st r x S"
  show ?case
    using extract_step_progress [of S C E st r x] Cons.IH [of ?S] by (auto simp: Let_def)
qed simp

lemma describable_finite: "finite {d. describable st r d}"
proof (rule finite_subset)
  show "{d. describable st r d} \<subseteq> dom (get_blob st)" by (auto simp: describable_def)
  show "finite (dom (get_blob st))" by (simp add: get_blob_def [abs_def] bt_get_def [abs_def] finite_dom_map_of)
qed

definition extract_measure :: "registry_store \<Rightarrow> repository_name \<Rightarrow> xstate \<Rightarrow> nat" where
  "extract_measure st r S =
     (if stopped S \<noteq> None then 0
      else 1 + 2 * card ({d. describable st r d} - seen S) + (if pending S = {} then 0 else 1))"

lemma extract_round_decreases:
  assumes "extract_inv st r first S" and "stopped S = None" and "pending S \<noteq> {}"
  shows "extract_measure st r (extract_round C E st r S) < extract_measure st r S"
proof -
  let ?R = "extract_round C E st r S" and ?D = "{d. describable st r d}"
  have prog: "seen S \<subseteq> seen ?R" "seen ?R = seen S \<Longrightarrow> pending ?R = {}"
    using extract_all_progress [of "S\<lparr>pending := {}\<rparr>" C E st r "ex_order C (pending S)"]
    by (auto simp: extract_round_def)
  have sub: "seen ?R \<subseteq> ?D"
    using extract_round_inv [OF assms(1), of C E] by (auto simp: extract_inv_def)
  show ?thesis
  proof (cases "seen ?R = seen S")
    case True
    then show ?thesis using prog(2) assms by (simp add: extract_measure_def)
  next
    case False
    then have "?D - seen ?R \<subset> ?D - seen S" using prog(1) sub by blast
    then have "card (?D - seen ?R) < card (?D - seen S)"
      by (intro psubset_card_mono finite_Diff describable_finite)
    then show ?thesis using assms by (simp add: extract_measure_def)
  qed
qed

lemma extract_loop_total:
  assumes "extract_inv st r first S"
  shows "\<exists>S'. extract_loop C E st r S = Some S' \<and> extract_inv st r first S' \<and>
    (stopped S' = None \<longrightarrow> pending S' = {})"
proof -
  let ?b = "\<lambda>S. stopped S = None \<and> pending S \<noteq> {}" and ?c = "extract_round C E st r"
  have "\<exists>S'. while_option ?b ?c S = Some S'"
    by (rule measure_while_option_Some [where P = "extract_inv st r first" and f = "extract_measure st r"])
      (use assms extract_round_inv extract_round_decreases in auto)
  then obtain S' where run: "while_option ?b ?c S = Some S'" by blast
  have "extract_inv st r first S'"
    by (rule while_option_rule [where P = "extract_inv st r first", OF _ run assms])
      (use extract_round_inv in blast)
  then show ?thesis using run while_option_stop [OF run] by (auto simp: extract_loop_def)
qed

section \<open>What has been handled\<close>

definition handled :: "registry_store \<Rightarrow> xstate \<Rightarrow> extraction \<Rightarrow> bool" where
  "handled st S x \<longleftrightarrow> ex_digest x \<in> seen S \<or>
     (\<exists>b. get_blob st (ex_digest x) = Some b \<and> content_type b \<noteq> None)"

lemma extract_step_stopped_or_handled:
  "stopped (extract_step C E st r x S) = None \<Longrightarrow> handled st (extract_step C E st r x S) x"
  by (auto simp: extract_step_def Let_def handled_def split: option.splits if_splits)

lemma handled_mono: "handled st S x \<Longrightarrow> seen S \<subseteq> seen S' \<Longrightarrow> handled st S' x"
  by (auto simp: handled_def)

lemma extract_all_handled:
  "stopped (extract_all C E st r xs S) = None \<Longrightarrow> x \<in> set xs \<Longrightarrow>
   handled st (extract_all C E st r xs S) x"
proof (induction xs arbitrary: S)
  case (Cons y ys)
  let ?S = "extract_step C E st r y S"
  have go: "stopped ?S = None" and all: "extract_all C E st r (y # ys) S = extract_all C E st r ys ?S"
    using Cons.prems(1) by (auto simp: Let_def split: if_splits)
  show ?case
  proof (cases "x = y")
    case True
    then show ?thesis using extract_step_stopped_or_handled [OF go] extract_all_progress [of ?S]
      unfolding all by (metis handled_mono)
  next
    case False
    then show ?thesis using Cons.IH [of ?S] Cons.prems unfolding all by auto
  qed
qed simp

definition covers :: "registry_store \<Rightarrow> extraction set \<Rightarrow> xstate \<Rightarrow> bool" where
  "covers st X S \<longleftrightarrow> finite (pending S) \<and> (stopped S = None \<longrightarrow> (\<forall>x \<in> X. x \<in> pending S \<or> handled st S x))"

lemma extract_round_covers:
  assumes "codec_ok C" and "extract_inv st r first S" and "covers st X S" and "stopped S = None"
  shows "covers st X (extract_round C E st r S)"
proof -
  let ?R = "extract_round C E st r S"
  have fin: "finite (pending ?R)" using extract_round_inv [OF assms(2), of C E] by (simp add: extract_inv_def)
  have xs: "set (ex_order C (pending S)) = pending S"
    using assms(1,2) by (simp add: codec_ok_def extract_inv_def)
  have "seen S \<subseteq> seen ?R"
    using extract_all_progress [of "S\<lparr>pending := {}\<rparr>" C E st r "ex_order C (pending S)"]
    by (simp add: extract_round_def)
  then have "\<forall>x \<in> X. handled st ?R x" if "stopped ?R = None"
    using that assms(3,4) extract_all_handled [of C E st r "ex_order C (pending S)" "S\<lparr>pending := {}\<rparr>"] xs
    by (auto simp: covers_def extract_round_def intro: handled_mono)
  with fin show ?thesis by (simp add: covers_def)
qed

lemma extract_loop_covers:
  assumes "codec_ok C" and "extract_inv st r first S" and "covers st X S"
    and "extract_loop C E st r S = Some S'"
  shows "covers st X S'"
proof -
  have "extract_inv st r first S' \<and> covers st X S'"
    using assms(4) unfolding extract_loop_def
    by (rule while_option_rule [where P = "\<lambda>S. extract_inv st r first S \<and> covers st X S", rotated])
      (use assms extract_round_inv extract_round_covers in blast)+
  then show ?thesis ..
qed

lemma extract_start:
  "extract_inv st r first \<lparr>analysis = [first], pending = extract_one C data, seen = {}, x_fs = f, stopped = None\<rparr>"
  "covers st (extract_one C data)
     \<lparr>analysis = [first], pending = extract_one C data, seen = {}, x_fs = f, stopped = None\<rparr>"
  by (simp_all add: extract_inv_def covers_def)

lemma extract_step_more_dirs: "more_dirs (x_fs S) (x_fs (extract_step C E st r x S))"
  by (cases rule: extract_step_cases [of C E st r x S]) simp_all

lemma extract_all_more_dirs: "more_dirs (x_fs S) (x_fs (extract_all C E st r xs S))"
proof (induction xs arbitrary: S)
  case (Cons x xs)
  show ?case
    using extract_step_more_dirs more_dirs_trans [OF extract_step_more_dirs Cons.IH] by (simp add: Let_def)
qed simp

lemma extract_loop_more_dirs:
  assumes "extract_loop C E st r S = Some S'"
  shows "more_dirs (x_fs S) (x_fs S')"
  using assms unfolding extract_loop_def
  by (rule while_option_rule [where P = "\<lambda>T. more_dirs (x_fs S) (x_fs T)", rotated])
    (use more_dirs_trans extract_all_more_dirs [of "_\<lparr>pending := {}\<rparr>"] in \<open>auto simp: extract_round_def\<close>)

lemma extract_actions_more_dirs:
  assumes "extract_actions C E st r d ct p f = Some (f', res)"
  shows "more_dirs f f'"
proof (cases "\<exists>data. read_to_string (env_io E) p f = Some data \<and> validate C ct data")
  case True
  then obtain data where "read_to_string (env_io E) p f = Some data" "validate C ct data" by blast
  with assms obtain S' where "extract_loop C E st r
      \<lparr>analysis = [ManifestInfo (clock E 0) d (dependency_digests C (extract_one C data)) ct],
       pending = extract_one C data, seen = {}, x_fs = f, stopped = None\<rparr> = Some S'" "x_fs S' = f'"
    by (auto simp: extract_actions_def Let_def)
  from extract_loop_more_dirs [OF this(1)] this(2) show ?thesis by simp
qed (use assms in \<open>auto simp: extract_actions_def split: option.splits if_splits\<close>)

lemma extract_actions_result:
  assumes "codec_ok C" and "extract_actions C E st r d ct p f = Some (f', Some (Inr as))"
  shows "\<exists>data infos. files f p = Some data \<and> ct \<in> set schemas \<and> schema_valid C ct data \<and>
    as = ManifestInfo (clock E 0) d (dependency_digests C (extract_one C data)) ct # infos \<and>
    distinct (map described infos) \<and>
    (\<forall>a \<in> set infos. \<exists>ts e ds c. a = BlobInfo ts e ds c \<and> describable st r e) \<and>
    (\<forall>x \<in> extract_one C data. \<exists>b. get_blob st (ex_digest x) = Some b \<and>
       (content_type b \<noteq> None \<or> r \<in> repositories b))"
proof -
  obtain data where data: "read_to_string (env_io E) p f = Some data" "validate C ct data"
    using assms(2) by (auto simp: extract_actions_def split: option.splits if_splits)
  let ?first = "ManifestInfo (clock E 0) d (dependency_digests C (extract_one C data)) ct"
  let ?S = "\<lparr>analysis = [?first], pending = extract_one C data, seen = {}, x_fs = f, stopped = None\<rparr>"
  obtain S' where loop: "extract_loop C E st r ?S = Some S' \<and> extract_inv st r ?first S' \<and>
      (stopped S' = None \<longrightarrow> pending S' = {})"
    using extract_loop_total [OF extract_start(1) [of st r ?first C data f], of C E] by (rule exE)
  note S' = conjunct1 [OF loop] conjunct1 [OF conjunct2 [OF loop]] conjunct2 [OF conjunct2 [OF loop]]
  have st: "stopped S' = None" and as: "analysis S' = as"
    using assms(2) data S'(1) by (auto simp: extract_actions_def Let_def split: option.splits)
  obtain infos where infos: "as = ?first # infos" "distinct (map described infos)"
      "described ` set infos = Some ` seen S'" "\<forall>e \<in> seen S'. describable st r e"
    using S'(2) as by (auto simp: extract_inv_def)
  have "\<exists>ts e ds c. a = BlobInfo ts e ds c \<and> describable st r e" if "a \<in> set infos" for a
  proof -
    have "described a \<in> Some ` seen S'" using that infos(3) by blast
    then show ?thesis using infos(4) by (auto simp: described_def split: registry_action.splits)
  qed
  moreover have "\<exists>b. get_blob st (ex_digest x) = Some b \<and> (content_type b \<noteq> None \<or> r \<in> repositories b)"
    if "x \<in> extract_one C data" for x
    using extract_loop_covers [OF assms(1) extract_start S'(1)] st S'(3) that infos(4)
    by (fastforce simp: covers_def handled_def describable_def)
  moreover have "files f p = Some data" using data(1) by (simp add: read_to_string_def split: if_splits)
  moreover have "ct \<in> set schemas \<and> schema_valid C ct data"
    using data(2) by (simp add: validate_def split: if_splits)
  ultimately show ?thesis using infos(1,2) by blast
qed

lemma extract_actions_total: "\<exists>f' res. extract_actions C E st r d ct p f = Some (f', res)"
proof (cases "read_to_string (env_io E) p f")
  case (Some data)
  then show ?thesis
    using extract_loop_total [OF extract_start(1) [of st r _ C data f], of C E]
    by (auto simp: extract_actions_def Let_def)
qed (simp add: extract_actions_def)

section \<open>Properties of the extractor\<close>

text \<open>
  C34. The analysis of a manifest always ends, whatever the stored blobs say about each other: cycles
  of dependencies included.
\<close>

theorem extract_actions_ends: "\<exists>f' res. extract_actions C E st r d ct p f = Some (f', res)"
  by (rule extract_actions_total)

text \<open>
  C22. An accepted manifest is one that passed its schema. The analysis starts with the manifest's own
  information, naming all its dependencies, and then describes blobs, each at most once, that are
  mounted in this repository and had no description. Every dependency of the manifest is a blob the
  registry has, and it is mounted in this repository or had been described before, in whatever
  repository.
\<close>

theorem extract_actions_sound:
  assumes "codec_ok C" and "extract_actions C E st r d ct p f = Some (f', Some (Inr as))"
  shows "\<exists>data infos. files f p = Some data \<and> ct \<in> set schemas \<and> schema_valid C ct data \<and>
    as = ManifestInfo (clock E 0) d (dependency_digests C (extract_one C data)) ct # infos \<and>
    distinct (map described infos) \<and>
    (\<forall>a \<in> set infos. \<exists>ts e ds c. a = BlobInfo ts e ds c \<and> describable st r e) \<and>
    (\<forall>x \<in> extract_one C data. \<exists>b. get_blob st (ex_digest x) = Some b \<and>
       (content_type b \<noteq> None \<or> r \<in> repositories b))"
  using assms by (rule extract_actions_result)

definition extraction_key :: "extraction \<Rightarrow> digest \<times> string \<times> u64 list" where
  "extraction_key x = (ex_digest x, ex_content_type x, case ex_size x of None \<Rightarrow> [] | Some s \<Rightarrow> [s])"

definition key_extraction :: "digest \<times> string \<times> u64 list \<Rightarrow> extraction" where
  "key_extraction k = \<lparr>ex_digest = fst k, ex_content_type = fst (snd k),
     ex_size = (case snd (snd k) of [] \<Rightarrow> None | s # _ \<Rightarrow> Some s)\<rparr>"

definition key_order :: "extraction set \<Rightarrow> extraction list" where
  "key_order A = map key_extraction (sorted_list_of_set (extraction_key ` A))"

lemma key_extraction_key [simp]: "key_extraction (extraction_key x) = x"
  by (simp add: key_extraction_def extraction_key_def split: option.splits)

lemma key_order_hash_iter: "hash_iter key_order"
  unfolding hash_iter_def
proof (intro allI impI conjI)
  fix A :: "extraction set" assume "finite A"
  then show "set (key_order A) = A" by (simp add: key_order_def image_image)
  have "inj_on key_extraction (extraction_key ` A)" by (rule inj_onI) (metis imageE key_extraction_key)
  then show "distinct (key_order A)" using \<open>finite A\<close> by (simp add: key_order_def distinct_map)
qed

definition sample_codec :: codec where
  "sample_codec = \<lparr>parse_json = (\<lambda>_. Some (DistributionManifestV1 [a64])), schema_valid = (\<lambda>_ _. True),
     ex_order = key_order\<rparr>"

lemma sample_codec_ok: "codec_ok sample_codec"
  by (simp add: codec_ok_def sample_codec_def key_order_hash_iter)

text \<open>A blob that belongs to another repository only, and has been described there.\<close>

definition foreign_store :: registry_store where
  "foreign_store = new_store 1 (empty_db\<lparr>blobs := [(a64, orphan_row\<lparr>content_type := Some ''x'',
     repositories := {RepositoryName ''other''}\<rparr>)]\<rparr>)"

lemma foreign_accepted:
  assumes "files f p = Some data"
  shows "\<exists>as. extract_actions sample_codec sample_env foreign_store r d
     ''application/vnd.docker.distribution.manifest.v1+json'' p f = Some (f, Some (Inr as))"
proof -
  let ?x = "\<lparr>ex_digest = a64, ex_content_type = ''application/octet-string'', ex_size = None\<rparr>"
  have one: "extract_one sample_codec data = {?x}" for data
    by (simp add: extract_one_def sample_codec_def)
  have order: "ex_order sample_codec {?x} = [?x]"
    by (simp add: sample_codec_def key_order_def)
  have skip: "extract_step sample_codec sample_env foreign_store r ?x S = S" for r S
    by (simp add: extract_step_def foreign_store_def new_store_def get_blob_def Let_def)
  have "extract_loop sample_codec sample_env foreign_store r
      \<lparr>analysis = as, pending = {?x}, seen = {}, x_fs = f, stopped = None\<rparr> =
      Some \<lparr>analysis = as, pending = {}, seen = {}, x_fs = f, stopped = None\<rparr>" for r as f
    unfolding extract_loop_def
    by (subst while_option_unfold, simp add: extract_round_def order skip, subst while_option_unfold, simp)
  then show ?thesis
    using assms by (simp add: extract_actions_def read_to_string_def validate_def schemas_def one Let_def)
      (simp add: sample_codec_def)
qed

theorem extract_actions_sound_witness:
  "\<exists>as b. extract_actions sample_codec sample_env foreign_store (RepositoryName ''r'') sample_digest
      ''application/vnd.docker.distribution.manifest.v1+json'' [''m''] (empty_fs\<lparr>files := [[''m''] \<mapsto> ''{}'']\<rparr>) =
      Some (empty_fs\<lparr>files := [[''m''] \<mapsto> ''{}'']\<rparr>, Some (Inr as)) \<and>
    get_blob foreign_store a64 = Some b \<and> RepositoryName ''r'' \<notin> repositories b"
proof -
  obtain as where run: "extract_actions sample_codec sample_env foreign_store (RepositoryName ''r'') sample_digest
      ''application/vnd.docker.distribution.manifest.v1+json'' [''m''] (empty_fs\<lparr>files := [[''m''] \<mapsto> ''{}'']\<rparr>) =
      Some (empty_fs\<lparr>files := [[''m''] \<mapsto> ''{}'']\<rparr>, Some (Inr as))"
    using foreign_accepted [of "empty_fs\<lparr>files := [[''m''] \<mapsto> ''{}'']\<rparr>" "[''m'']" "''{}''"] by auto
  obtain b where "get_blob foreign_store a64 = Some b"
    using extract_actions_sound [OF sample_codec_ok run] by (auto simp: extract_one_def sample_codec_def)
  moreover have "RepositoryName ''r'' \<notin> repositories b" if "get_blob foreign_store a64 = Some b" for b
    using that by (auto simp: foreign_store_def new_store_def get_blob_def)
  ultimately show ?thesis using run by blast
qed

end
