(* ===== verification/Blobs.thy ===== *)
theory Blobs
  imports Extractor
begin

text \<open>
  \<^verbatim>\<open>src/registry/blobs/{get,head,delete}.rs\<close> and the version check of \<^verbatim>\<open>src/registry/{get,head}.rs\<close>.

  A read of an object that is not on this node waits for the mirror. \<open>w\<close> is the waiter's channel and
  \<open>resume\<close> what the node has become when the wait is over; the row was read before the wait.
\<close>

section \<open>The version check\<close>

definition v2_get :: "token \<Rightarrow> reply option" where
  "v2_get tok =
     (if \<not> validated_token tok then unauthorized (get_general_challenge tok)
      else Some (Inr (respond 200 [(''Docker-Distribution-Api-Version'', ''registry/2.0'')] Empty_Body)))"

definition v2_head :: "token \<Rightarrow> reply option" where
  "v2_head tok = v2_get tok"

section \<open>Reading a blob\<close>

text \<open>The end of a read: find the file and open it. An error of the open is unwrapped.\<close>

definition send_blob ::
  "env \<Rightarrow> digest \<Rightarrow> obj \<Rightarrow> node \<Rightarrow> node \<times> reply option" where
  "send_blob E d row n =
     (let ct = (case content_type row of Some c \<Rightarrow> c | None \<Rightarrow> ''application/octet-steam'')
      in case obj_size row of
           None \<Rightarrow> (n, Some (Inl BlobNotFound))
         | Some _ \<Rightarrow>
             (case get_blob_path (env_io E) (root E) d (node_fs n) of
                None \<Rightarrow> (n, None)
              | Some (p, f) \<Rightarrow>
                  if \<not> is_file p f then (n\<lparr>node_fs := f\<rparr>, Some (Inl BlobNotFound))
                  else if \<not> env_io E (Open p) then (n\<lparr>node_fs := f\<rparr>, None)
                  else (n\<lparr>node_fs := f\<rparr>, Some (Inr (respond 200
                    [(''content-type'', ct), (''Docker-Content-Digest'', digest_to_string d)]
                    (File_Body p))))))"

definition blob_get ::
  "env \<Rightarrow> token \<Rightarrow> repository_name \<Rightarrow> digest \<Rightarrow> nat \<Rightarrow> (node \<Rightarrow> node) \<Rightarrow> node \<Rightarrow> node \<times> reply option" where
  "blob_get E tok r d w resume n =
     (if \<not> validated_token tok then (n, unauthorized (get_pull_challenge (set_order E) tok r))
      else if \<not> has_permission tok r ''pull'' then (n, Some (Inl AccessDenied))
      else case get_blob (node_store n) d of
        None \<Rightarrow> (n, Some (Inl BlobNotFound))
      | Some row \<Rightarrow>
          if r \<notin> repositories row then (n, Some (Inl BlobNotFound))
          else if node_id n \<notin> locations row
          then send_blob E d row (resume (n\<lparr>node_store := wait_for_blob d w (node_store n)\<rparr>))
          else send_blob E d row n)"

text \<open>The head endpoint has the code of the get endpoint.\<close>

definition blob_head ::
  "env \<Rightarrow> token \<Rightarrow> repository_name \<Rightarrow> digest \<Rightarrow> nat \<Rightarrow> (node \<Rightarrow> node) \<Rightarrow> node \<Rightarrow> node \<times> reply option" where
  "blob_head E tok r d w resume n = blob_get E tok r d w resume n"

section \<open>Deleting a blob\<close>

definition blob_delete ::
  "env \<Rightarrow> token \<Rightarrow> repository_name \<Rightarrow> digest \<Rightarrow> node \<Rightarrow> node \<times> reply option" where
  "blob_delete E tok r d n =
     (if \<not> validated_token tok then (n, unauthorized (get_push_challenge (set_order E) tok r))
      else if \<not> has_permission tok r ''push'' then (n, Some (Inl AccessDenied))
      else case get_blob (node_store n) d of
        None \<Rightarrow> (n, Some (Inl BlobNotFound))
      | Some row \<Rightarrow>
          if r \<notin> repositories row then (n, Some (Inl BlobNotFound))
          else (case write_node E [BlobUnmounted (clock E 0) d r (sub tok)] n of
              (n, None) \<Rightarrow> (n, None)
            | (n, Some False) \<Rightarrow> (n, Some (Inl BlobNotFound))
            | (n, Some True) \<Rightarrow> (n, Some (Inr (respond 202 [] Empty_Body)))))"

section \<open>Guards\<close>

interpretation blob_get_guard: guarded "\<lambda>E tok r (d, w, resume). blob_get E tok r d w resume"
  "\<lambda>E tok r q. get_pull_challenge (set_order E) tok r" "''pull''"
  by unfold_locales (auto simp: blob_get_def dest: challenges_total)

interpretation blob_delete_guard: guarded "\<lambda>E tok r d. blob_delete E tok r d"
  "\<lambda>E tok r q. get_push_challenge (set_order E) tok r" "''push''"
  by unfold_locales (auto simp: blob_delete_def dest: challenges_total)

section \<open>What a read returns\<close>

lemma send_blob_success:
  assumes "hex_digest d" and "send_blob E d row n = (n', Some (Inr h))"
  shows "status h = 200 \<and> body h = File_Body (blob_file (root E) d) \<and>
    header ''Docker-Content-Digest'' h = Some (digest_to_string d) \<and>
    files (node_fs n') = files (node_fs n) \<and> node_store n' = node_store n \<and>
    files (node_fs n) (blob_file (root E) d) \<noteq> None"
proof -
  obtain p f where pf: "get_blob_path (env_io E) (root E) d (node_fs n) = Some (p, f)"
    using assms(2) by (auto simp: send_blob_def Let_def split: option.splits)
  note P = blob_layout.locate_path [OF assms(1) pf]
  show ?thesis using assms(2) pf P
    by (auto simp: send_blob_def Let_def is_file_def respond_def header_def split: option.splits if_splits)
qed

definition served_row :: obj where
  "served_row = orphan_row\<lparr>repositories := {RepositoryName ''r''}\<rparr>"

definition serving_node :: node where
  "serving_node = sample_node\<lparr>node_store := new_store 1 (empty_db\<lparr>blobs := [(a64, served_row)]\<rparr>),
     node_fs := empty_fs\<lparr>files := [blob_file [''var''] a64 \<mapsto> ''abc'']\<rparr>\<rparr>"

lemma serving_create:
  "\<exists>f'. create_dir_all (\<lambda>_. True) (butlast (object_path kd [''var''] d)) (node_fs serving_node) = Some f'"
  using take_object_path
  by (auto simp: create_dir_all_def serving_node_def list_all_iff)

lemma serving_blob_get:
  "\<exists>n' h. blob_get sample_env admin_token (RepositoryName ''r'') a64 0 id serving_node = (n', Some (Inr h)) \<and>
     files (node_fs n') = files (node_fs serving_node)"
proof -
  obtain f where "get_blob_path (\<lambda>_. True) [''var''] a64 (node_fs serving_node) = Some (blob_file [''var''] a64, f)"
    and "files f = files (node_fs serving_node)"
    using serving_create [of "''blobs''" a64] create_dir_all_files
    by (fastforce simp: get_blob_path_hex)
  then show ?thesis
    by (simp add: blob_get_def admin_token_def has_permission_def get_blob_def serving_node_def new_store_def
        served_row_def orphan_row_def node_id_def send_blob_def is_file_def)
qed

end
