(* ===== verification/Manifests.thy ===== *)
theory Manifests
  imports Blobs
begin

text \<open>
  \<^verbatim>\<open>src/registry/manifests/{put,get,head,delete}.rs\<close>. The analysis of a pushed manifest reads the
  registry of the node as it is when the handler starts; \<open>w\<close> and \<open>resume\<close> are the wait of a read, as
  for blobs.
\<close>

section \<open>Pushing a manifest\<close>

definition manifest_actions ::
  "env \<Rightarrow> token \<Rightarrow> repository_name \<Rightarrow> digest \<Rightarrow> string \<Rightarrow> u64 \<Rightarrow> u64 \<Rightarrow> registry_action list \<Rightarrow>
     registry_action list" where
  "manifest_actions E tok r d tag sz i infos =
     (let k = length infos
      in [ManifestMounted (clock E k) d r (sub tok), ManifestStored (clock E (k + 1)) d i (sub tok),
          ManifestStat (clock E (k + 2)) d sz] @ infos @
         [HashTagged (clock E (k + 3)) d r tag (sub tok)])"

definition manifest_created :: "repository_name \<Rightarrow> digest \<Rightarrow> http_response" where
  "manifest_created r d = respond 201
     [(''Location'', ''/v2/'' @ repository_name_to_string r @ ''/manifests/'' @ digest_to_string d),
      (''Docker-Content-Digest'', digest_to_string d)] Empty_Body"

text \<open>From the analysis on: move the file, log the actions, queue the webhook event.\<close>

definition commit_manifest ::
  "env \<Rightarrow> token \<Rightarrow> repository_name \<Rightarrow> string \<Rightarrow> string \<Rightarrow> path \<Rightarrow> digest \<Rightarrow> u64 \<Rightarrow>
     registry_action list \<Rightarrow> node \<Rightarrow> node \<times> reply option" where
  "commit_manifest E tok r tag ct p d sz infos n =
     (case get_manifest_path (env_io E) (root E) d (node_fs n) of
        None \<Rightarrow> (n, None)
      | Some (dest, f) \<Rightarrow>
          (case rename_file (env_io E) p dest f of
             None \<Rightarrow> (n\<lparr>node_fs := f\<rparr>, Some (Inl ManifestInvalid))
           | Some f \<Rightarrow>
               (case write_node E (manifest_actions E tok r d tag sz (node_id n) infos) (n\<lparr>node_fs := f\<rparr>) of
                  (n, None) \<Rightarrow> (n, None)
                | (n, Some False) \<Rightarrow> (n, Some (Inl ManifestInvalid))
                | (n, Some True) \<Rightarrow>
                    (n\<lparr>events := events n @ [\<lparr>ev_repository = r, ev_digest = d, ev_tag = tag,
                        ev_content_type = ct\<rparr>]\<rparr>,
                     Some (Inr (manifest_created r d))))))"

text \<open>A request without a \<open>Content-Type\<close>, or with one that is not visible ASCII, panics.\<close>

definition analyse_manifest ::
  "codec \<Rightarrow> env \<Rightarrow> token \<Rightarrow> repository_name \<Rightarrow> string \<Rightarrow> string option \<Rightarrow> path \<Rightarrow> node \<Rightarrow>
     node \<times> reply option" where
  "analyse_manifest C E tok r tag ct_header p n =
     (case file_len (env_io E) p (node_fs n) of
        None \<Rightarrow> (n, Some (Inl ManifestInvalid))
      | Some sz \<Rightarrow>
          (case get_hash (sha256 E) (hexlower E) (env_io E) p (node_fs n) of
             None \<Rightarrow> (n, Some (Inl ManifestInvalid))
           | Some d \<Rightarrow>
               (case ct_header of
                  None \<Rightarrow> (n, None)
                | Some ct \<Rightarrow>
                    if \<not> visible_ascii ct then (n, None)
                    else (case extract_actions C E (node_store n) r d ct p (node_fs n) of
                        None \<Rightarrow> (n, None)
                      | Some (f, None) \<Rightarrow> (n\<lparr>node_fs := f\<rparr>, None)
                      | Some (f, Some (Inl e)) \<Rightarrow> (n\<lparr>node_fs := f\<rparr>, Some (Inl ManifestInvalid))
                      | Some (f, Some (Inr infos)) \<Rightarrow>
                          commit_manifest E tok r tag ct p d sz infos (n\<lparr>node_fs := f\<rparr>)))))"

definition manifest_put ::
  "codec \<Rightarrow> env \<Rightarrow> token \<Rightarrow> repository_name \<Rightarrow> string \<Rightarrow> string option \<Rightarrow> bytes option list \<Rightarrow> node \<Rightarrow>
     node \<times> reply option" where
  "manifest_put C E tok r tag ct_header chunks n =
     (if \<not> validated_token tok then (n, unauthorized (get_push_challenge (set_order E) tok r))
      else if \<not> has_permission tok r ''push'' then (n, Some (Inl AccessDenied))
      else let p = get_temp_path (uuid E) (root E)
        in with_upload E p chunks ManifestInvalid (analyse_manifest C E tok r tag ct_header p) n)"

section \<open>Reading a manifest\<close>

definition send_manifest ::
  "env \<Rightarrow> digest \<Rightarrow> obj \<Rightarrow> node \<Rightarrow> node \<times> reply option" where
  "send_manifest E d row n =
     (case content_type row of
        None \<Rightarrow> (n, Some (Inl ManifestNotFound))
      | Some ct \<Rightarrow>
          (case obj_size row of
             None \<Rightarrow> (n, Some (Inl ManifestNotFound))
           | Some _ \<Rightarrow>
               (case get_manifest_path (env_io E) (root E) d (node_fs n) of
                  None \<Rightarrow> (n, None)
                | Some (p, f) \<Rightarrow>
                    if \<not> is_file p f then (n\<lparr>node_fs := f\<rparr>, Some (Inl ManifestNotFound))
                    else if \<not> env_io E (Open p) then (n\<lparr>node_fs := f\<rparr>, None)
                    else (n\<lparr>node_fs := f\<rparr>, Some (Inr (respond 200
                      [(''content-type'', ct), (''Docker-Content-Digest'', digest_to_string d)]
                      (File_Body p)))))))"

definition read_manifest ::
  "env \<Rightarrow> repository_name \<Rightarrow> digest \<Rightarrow> nat \<Rightarrow> (node \<Rightarrow> node) \<Rightarrow> node \<Rightarrow> node \<times> reply option" where
  "read_manifest E r d w resume n =
     (case get_manifest (node_store n) d of
        None \<Rightarrow> (n, Some (Inl ManifestNotFound))
      | Some row \<Rightarrow>
          if r \<notin> repositories row then (n, Some (Inl ManifestNotFound))
          else if node_id n \<notin> locations row
          then send_manifest E d row (resume (n\<lparr>node_store := wait_for_manifest d w (node_store n)\<rparr>))
          else send_manifest E d row n)"

definition manifest_get ::
  "env \<Rightarrow> token \<Rightarrow> repository_name \<Rightarrow> digest \<Rightarrow> nat \<Rightarrow> (node \<Rightarrow> node) \<Rightarrow> node \<Rightarrow> node \<times> reply option" where
  "manifest_get E tok r d w resume n =
     (if \<not> validated_token tok then (n, unauthorized (get_pull_challenge (set_order E) tok r))
      else if \<not> has_permission tok r ''pull'' then (n, Some (Inl AccessDenied))
      else read_manifest E r d w resume n)"

definition manifest_get_by_tag ::
  "env \<Rightarrow> token \<Rightarrow> repository_name \<Rightarrow> string \<Rightarrow> nat \<Rightarrow> (node \<Rightarrow> node) \<Rightarrow> node \<Rightarrow> node \<times> reply option" where
  "manifest_get_by_tag E tok r tag w resume n =
     (if \<not> validated_token tok then (n, unauthorized (get_pull_challenge (set_order E) tok r))
      else if \<not> has_permission tok r ''pull'' then (n, Some (Inl AccessDenied))
      else case get_tag (sm_db (node_store n)) r tag of
        None \<Rightarrow> (n, Some (Inl ManifestNotFound))
      | Some d \<Rightarrow> read_manifest E r d w resume n)"

text \<open>The head endpoints have the code of the get endpoints.\<close>

definition manifest_head ::
  "env \<Rightarrow> token \<Rightarrow> repository_name \<Rightarrow> digest \<Rightarrow> nat \<Rightarrow> (node \<Rightarrow> node) \<Rightarrow> node \<Rightarrow> node \<times> reply option" where
  "manifest_head E tok r d w resume n = manifest_get E tok r d w resume n"

definition manifest_head_by_tag ::
  "env \<Rightarrow> token \<Rightarrow> repository_name \<Rightarrow> string \<Rightarrow> nat \<Rightarrow> (node \<Rightarrow> node) \<Rightarrow> node \<Rightarrow> node \<times> reply option" where
  "manifest_head_by_tag E tok r tag w resume n = manifest_get_by_tag E tok r tag w resume n"

section \<open>Deleting a manifest\<close>

definition unmount_manifest ::
  "env \<Rightarrow> token \<Rightarrow> repository_name \<Rightarrow> digest \<Rightarrow> node \<Rightarrow> node \<times> reply option" where
  "unmount_manifest E tok r d n =
     (case get_manifest (node_store n) d of
        None \<Rightarrow> (n, Some (Inl ManifestNotFound))
      | Some row \<Rightarrow>
          if r \<notin> repositories row then (n, Some (Inl ManifestNotFound))
          else (case write_node E [ManifestUnmounted (clock E 0) d r (sub tok)] n of
              (n, None) \<Rightarrow> (n, None)
            | (n, Some False) \<Rightarrow> (n, Some (Inl ManifestInvalid))
            | (n, Some True) \<Rightarrow> (n, Some (Inr (respond 202 [] Empty_Body)))))"

definition manifest_delete ::
  "env \<Rightarrow> token \<Rightarrow> repository_name \<Rightarrow> digest \<Rightarrow> node \<Rightarrow> node \<times> reply option" where
  "manifest_delete E tok r d n =
     (if \<not> validated_token tok then (n, unauthorized (get_push_challenge (set_order E) tok r))
      else if \<not> has_permission tok r ''push'' then (n, Some (Inl AccessDenied))
      else unmount_manifest E tok r d n)"

definition manifest_delete_by_tag ::
  "env \<Rightarrow> token \<Rightarrow> repository_name \<Rightarrow> string \<Rightarrow> node \<Rightarrow> node \<times> reply option" where
  "manifest_delete_by_tag E tok r tag n =
     (if \<not> validated_token tok then (n, unauthorized (get_push_challenge (set_order E) tok r))
      else if \<not> has_permission tok r ''push'' then (n, Some (Inl AccessDenied))
      else case get_tag (sm_db (node_store n)) r tag of
        None \<Rightarrow> (n, Some (Inl ManifestNotFound))
      | Some d \<Rightarrow> unmount_manifest E tok r d n)"

section \<open>Guards\<close>

interpretation manifest_put_guard: guarded
  "\<lambda>E tok r (C, tag, ct, cs). manifest_put C E tok r tag ct cs"
  "\<lambda>E tok r q. get_push_challenge (set_order E) tok r" "''push''"
  by unfold_locales (auto simp: manifest_put_def dest: challenges_total)

interpretation manifest_get_guard: guarded "\<lambda>E tok r (d, w, resume). manifest_get E tok r d w resume"
  "\<lambda>E tok r q. get_pull_challenge (set_order E) tok r" "''pull''"
  by unfold_locales (auto simp: manifest_get_def dest: challenges_total)

interpretation manifest_tag_guard: guarded
  "\<lambda>E tok r (t, w, resume). manifest_get_by_tag E tok r t w resume"
  "\<lambda>E tok r q. get_pull_challenge (set_order E) tok r" "''pull''"
  by unfold_locales (auto simp: manifest_get_by_tag_def dest: challenges_total)

interpretation manifest_delete_guard: guarded "\<lambda>E tok r d. manifest_delete E tok r d"
  "\<lambda>E tok r q. get_push_challenge (set_order E) tok r" "''push''"
  by unfold_locales (auto simp: manifest_delete_def dest: challenges_total)

interpretation manifest_untag_guard: guarded "\<lambda>E tok r t. manifest_delete_by_tag E tok r t"
  "\<lambda>E tok r q. get_push_challenge (set_order E) tok r" "''push''"
  by unfold_locales (auto simp: manifest_delete_by_tag_def dest: challenges_total)

section \<open>The effect of a push\<close>

lemma blob_infos_effect:
  assumes "\<forall>a \<in> set infos. \<exists>ts e ds c. a = BlobInfo ts e ds c"
  shows "\<exists>s'. apply_actions infos s = Some s' \<and> manifests s' = manifests s \<and> tags s' = tags s"
  unfolding apply_actions_def
  by (rule fold_opt_total [where P = "\<lambda>t. manifests t = manifests s \<and> tags t = tags s"])
    (use assms in \<open>auto simp: blob_arms_frame\<close>)

lemma manifest_actions_effect:
  assumes "\<forall>a \<in> set infos. \<exists>ts e ds c. a = BlobInfo ts e ds c"
  shows "\<exists>s' row. apply_actions (manifest_actions E tok r d tag sz i (ManifestInfo ts d deps ct # infos)) s =
      Some s' \<and> tx_get_manifest s' d = Some row \<and> r \<in> repositories row \<and> i \<in> locations row \<and>
      obj_size row = Some sz \<and> content_type row = Some ct \<and> dependencies row = Some deps \<and>
      get_tag s' r tag = Some d"
proof -
  let ?k = "length (ManifestInfo ts d deps ct # infos)"
  let ?head = "[ManifestMounted (clock E ?k) d r (sub tok), ManifestStored (clock E (?k + 1)) d i (sub tok),
    ManifestStat (clock E (?k + 2)) d sz, ManifestInfo ts d deps ct]"
  obtain s1 row where head: "apply_actions ?head s = Some s1" "tx_get_manifest s1 d = Some row"
      "r \<in> repositories row \<and> i \<in> locations row \<and> obj_size row = Some sz \<and> content_type row = Some ct \<and>
       dependencies row = Some deps"
    by (cases "bt_get (manifests s) d")
      (auto simp: apply_actions_def apply_manifest_mounted_def apply_manifest_stored_def
        apply_manifest_stat_def apply_manifest_info_def tx_simps Let_def)
  obtain s2 where infos: "apply_actions infos s1 = Some s2" "manifests s2 = manifests s1"
    using blob_infos_effect [OF assms] by blast
  have split: "manifest_actions E tok r d tag sz i (ManifestInfo ts d deps ct # infos) =
      ?head @ infos @ [HashTagged (clock E (?k + 3)) d r tag (sub tok)]"
    by (simp add: manifest_actions_def Let_def)
  have "apply_actions (?head @ infos @ [HashTagged (clock E (?k + 3)) d r tag (sub tok)]) s =
      Some (apply_hash_tagged d r tag s2)"
    using head(1) infos(1) unfolding apply_actions_def fold_opt_append by simp
  moreover have "tx_get_manifest (apply_hash_tagged d r tag s2) d = Some row"
    using head(2) infos(2) by (simp add: tx_get_manifest_def tag_arm_frame)
  moreover have "get_tag (apply_hash_tagged d r tag s2) r tag = Some d"
    by (simp add: get_tag_def tag_arm_frame)
  ultimately show ?thesis using head(3) unfolding split by blast
qed

lemma temp_path_outside:
  "k = ''blobs'' \<or> k = ''manifests'' \<Longrightarrow> get_temp_path i (root E) \<noteq> object_path k (root E) e"
  using upload_path_not_object(2) by auto

lemma commit_manifest_facts:
  assumes "hex_digest d" and "commit_manifest E tok r tag ct p d sz infos n = (n', rep)"
  shows "node_store n' = node_store n \<and>
    ((files (node_fs n') = files (node_fs n) \<and> submitted n' = submitted n \<and> (\<forall>h. rep \<noteq> Some (Inr h))) \<or>
     (\<exists>b. files (node_fs n) p = Some b \<and>
       files (node_fs n') = (files (node_fs n))(p := None, manifest_file (root E) d \<mapsto> b) \<and>
       submitted n' = submitted n @ [manifest_actions E tok r d tag sz (node_id n) infos] \<and>
       (\<forall>h. rep = Some (Inr h) \<longrightarrow> h = manifest_created r d \<and>
         events n' = events n @ [\<lparr>ev_repository = r, ev_digest = d, ev_tag = tag, ev_content_type = ct\<rparr>] \<and>
         consistent_write (env_raft E) (manifest_actions E tok r d tag sz (node_id n) infos) = Some True)))"
proof (cases "get_manifest_path (env_io E) (root E) d (node_fs n)")
  case None
  then show ?thesis using assms by (auto simp: commit_manifest_def)
next
  case (Some df)
  then obtain dest f where df: "get_manifest_path (env_io E) (root E) d (node_fs n) = Some (dest, f)"
    by (cases df) auto
  have dest: "dest = manifest_file (root E) d" "files f = files (node_fs n)"
    using manifest_layout.locate_path [OF assms(1) df] by auto
  show ?thesis using assms(2) df
    by (auto simp: commit_manifest_def dest rename_file_def write_node_def
        split: option.splits if_splits bool.splits)
qed

lemma analyse_manifest_cases:
  assumes "analyse_manifest C E tok r tag cth p n = (n', rep)"
  obtains (stop) "files (node_fs n') = files (node_fs n)" and "node_store n' = node_store n"
      and "submitted n' = submitted n" and "\<And>h. rep \<noteq> Some (Inr h)"
    | (commit) b ct infos f where "files (node_fs n) p = Some b" and "cth = Some ct"
      and "extract_actions C E (node_store n) r (content_digest E b) ct p (node_fs n) = Some (f, Some (Inr infos))"
      and "commit_manifest E tok r tag ct p (content_digest E b) (of_nat (length b)) infos (n\<lparr>node_fs := f\<rparr>) =
        (n', rep)"
proof (cases "files (node_fs n) p")
  case None
  then have "file_len (env_io E) p (node_fs n) = None" by (simp add: file_len_def)
  then show thesis using assms stop by (auto simp: analyse_manifest_def)
next
  case (Some b)
  have io: "analyse_manifest C E tok r tag cth p n = (n, Some (Inl ManifestInvalid))"
    if "\<not> (env_io E (Stat p) \<and> env_io E (Open p) \<and> env_io E (Read p))"
    using that by (auto simp: analyse_manifest_def file_len_def get_hash_def Some)
  have hash: "get_hash (sha256 E) (hexlower E) (env_io E) p (node_fs n) = Some (content_digest E b)"
    "file_len (env_io E) p (node_fs n) = Some (of_nat (length b))"
    if "env_io E (Stat p) \<and> env_io E (Open p) \<and> env_io E (Read p)"
    using that by (auto simp: file_len_def get_hash_def content_digest_def Some)
  show thesis
  proof (cases "(env_io E (Stat p) \<and> env_io E (Open p) \<and> env_io E (Read p)) \<and> (\<exists>ct. cth = Some ct \<and> visible_ascii ct)")
    case False
    have "n' = n \<and> (\<forall>h. rep \<noteq> Some (Inr h))"
    proof (cases "env_io E (Stat p) \<and> env_io E (Open p) \<and> env_io E (Read p)")
      case True
      then have "analyse_manifest C E tok r tag cth p n = (n, None)"
        using False hash [OF True] by (auto simp: analyse_manifest_def split: option.splits)
      then show ?thesis using assms by simp
    qed (use assms io in auto)
    then show thesis using stop by simp
  next
    case True
    then obtain ct where ct: "cth = Some ct" "visible_ascii ct" by blast
    obtain f res where ex: "extract_actions C E (node_store n) r (content_digest E b) ct p (node_fs n) = Some (f, res)"
      using extract_actions_total by blast
    have fs: "files f = files (node_fs n)" using extract_actions_more_dirs [OF ex] by (simp add: more_dirs_def)
    have run: "(case res of None \<Rightarrow> (n\<lparr>node_fs := f\<rparr>, None)
        | Some (Inl e) \<Rightarrow> (n\<lparr>node_fs := f\<rparr>, Some (Inl ManifestInvalid))
        | Some (Inr infos) \<Rightarrow> commit_manifest E tok r tag ct p (content_digest E b) (of_nat (length b)) infos
            (n\<lparr>node_fs := f\<rparr>)) = (n', rep)"
      using assms hash True ct ex by (simp add: analyse_manifest_def split: option.splits sum.splits)
    show thesis
    proof (cases "\<exists>infos. res = Some (Inr infos)")
      case True
      then show thesis using commit Some ct ex run by auto
    next
      case False
      then show thesis using stop run fs by (auto split: option.splits sum.splits)
    qed
  qed
qed

lemma manifest_put_files_ok:
  assumes "hash_ok E" and "files_ok E (node_fs n)"
  shows "files_ok E (node_fs (fst (manifest_put C E tok r tag cth cs n)))"
proof (cases "has_permission tok r ''push''")
  case False
  then show ?thesis using assms(2) by (simp add: manifest_put_def)
next
  case True
  let ?p = "get_temp_path (uuid E) (root E)"
  obtain n' rep where run: "with_upload E ?p cs ManifestInvalid (analyse_manifest C E tok r tag cth ?p) n = (n', rep)"
    by (metis surj_pair)
  have "validated_token tok" using True by (simp add: has_permission_def split: if_splits)
  then have put: "manifest_put C E tok r tag cth cs n = (n', rep)" using True run by (simp add: manifest_put_def Let_def)
  from run show ?thesis
  proof (cases rule: with_upload_cases)
    case (stop f rep')
    then show ?thesis using upload_part_files_ok [OF assms(2) stop(2) temp_path_outside] put by simp
  next
    case (go_on f)
    have f: "files_ok E f" using upload_part_files_ok [OF assms(2) go_on(1) temp_path_outside] .
    from go_on(2) show ?thesis
    proof (cases rule: analyse_manifest_cases)
      case stop
      then show ?thesis using f put by (simp add: files_ok_def)
    next
      case (commit b ct infos g)
      have hex: "hex_digest (content_digest E b)" using content_digest_hex [OF assms(1)] .
      have g: "files g = files f" using extract_actions_more_dirs [OF commit(3)] by (simp add: more_dirs_def)
      have "files (node_fs n') = files f \<or>
          files (node_fs n') = (files f)(?p := None, manifest_file (root E) (content_digest E b) \<mapsto> b)"
        using commit_manifest_facts [OF hex commit(4)] commit(1) g by auto
      then have "files_ok E (node_fs n')"
      proof
        assume "files (node_fs n') = files f"
        then show ?thesis using f by (simp add: files_ok_def)
      qed (rule files_ok_move_manifest [OF f refl hex temp_path_outside])
      then show ?thesis using put by simp
    qed
  qed
qed

section \<open>Properties of the manifest endpoints\<close>

lemma manifest_put_run:
  assumes "manifest_put C E tok r tag cth cs n = (n', Some (Inr h))" and "hash_ok E"
  obtains b ct infos f g where
      "b = (case files (node_fs n) (get_temp_path (uuid E) (root E)) of None \<Rightarrow> [] | Some b \<Rightarrow> b) @ concat (map the cs)"
    and "None \<notin> set cs" and "cth = Some ct"
    and "extract_actions C E (node_store n) r (content_digest E b) ct (get_temp_path (uuid E) (root E)) f =
      Some (g, Some (Inr infos))"
    and "files f (get_temp_path (uuid E) (root E)) = Some b" and "files g = files f"
    and "commit_manifest E tok r tag ct (get_temp_path (uuid E) (root E)) (content_digest E b)
      (of_nat (length b)) infos (n\<lparr>node_fs := g\<rparr>) = (n', Some (Inr h))"
proof -
  let ?p = "get_temp_path (uuid E) (root E)"
  have perm: "has_permission tok r ''push''"
    using manifest_put_guard.success_permitted [of E tok r "(C, tag, cth, cs)" n h] assms(1) by simp
  then have "validated_token tok" by (simp add: has_permission_def split: if_splits)
  then have "with_upload E ?p cs ManifestInvalid (analyse_manifest C E tok r tag cth ?p) n = (n', Some (Inr h))"
    using assms(1) perm by (simp add: manifest_put_def Let_def)
  then obtain f where f: "upload_part (env_io E) ?p cs (node_fs n) = (f, Some True)"
    and an: "analyse_manifest C E tok r tag cth ?p (n\<lparr>node_fs := f\<rparr>) = (n', Some (Inr h))"
    by (cases rule: with_upload_cases) auto
  note U = upload_part_facts(3,4) [OF f, OF refl]
  from an show thesis
  proof (cases rule: analyse_manifest_cases)
    case (commit b ct infos g)
    then show thesis
      using that [of b ct f g infos] U extract_actions_more_dirs [of C E _ r _ ct ?p f g]
      by (simp add: more_dirs_def)
  qed auto
qed

lemma manifest_put_effects:
  assumes "hash_ok E" and "codec_ok C" and "manifest_put C E tok r tag (Some ct) cs n = (n', Some (Inr h))"
    and "files (node_fs n) (get_temp_path (uuid E) (root E)) = None"
  shows "\<exists>as. let b = concat (map the cs); d = content_digest E b
    in has_permission tok r ''push'' \<and> None \<notin> set cs \<and> schema_valid C ct b \<and>
       files (node_fs n') (manifest_file (root E) d) = Some b \<and>
       files (node_fs n') (get_temp_path (uuid E) (root E)) = None \<and>
       submitted n' = submitted n @ [as] \<and> consistent_write (env_raft E) as = Some True \<and>
       events n' = events n @ [\<lparr>ev_repository = r, ev_digest = d, ev_tag = tag, ev_content_type = ct\<rparr>] \<and>
       status h = 201 \<and> header ''Docker-Content-Digest'' h = Some (digest_to_string d) \<and>
       (\<forall>s. \<exists>s' row. apply_actions as s = Some s' \<and> tx_get_manifest s' d = Some row \<and>
          r \<in> repositories row \<and> node_id n \<in> locations row \<and> obj_size row = Some (of_nat (length b)) \<and>
          content_type row = Some ct \<and>
          dependencies row = Some (dependency_digests C (extract_one C b)) \<and> get_tag s' r tag = Some d)"
proof -
  let ?p = "get_temp_path (uuid E) (root E)" and ?b = "concat (map the cs)"
  let ?d = "content_digest E ?b"
  have perm: "has_permission tok r ''push''"
    using manifest_put_guard.success_permitted [of E tok r "(C, tag, Some ct, cs)" n h] assms(3) by simp
  obtain infos f g where cs: "None \<notin> set cs"
    and ex: "extract_actions C E (node_store n) r ?d ct ?p f = Some (g, Some (Inr infos))"
    and f: "files f ?p = Some ?b" "files g = files f"
    and run: "commit_manifest E tok r tag ct ?p ?d (of_nat (length ?b)) infos (n\<lparr>node_fs := g\<rparr>) =
      (n', Some (Inr h))"
    by (rule manifest_put_run [OF assms(3,1)]) (use assms(4) in auto)
  obtain rest where rest: "schema_valid C ct ?b"
      "infos = ManifestInfo (clock E 0) ?d (dependency_digests C (extract_one C ?b)) ct # rest"
      "\<forall>a \<in> set rest. \<exists>ts e ds c. a = BlobInfo ts e ds c"
    using extract_actions_result [OF assms(2) ex] f(1) by fastforce
  let ?as = "manifest_actions E tok r ?d tag (of_nat (length ?b)) (node_id n) infos"
  have C: "h = manifest_created r ?d"
    "files (node_fs n') = (files f)(?p := None, manifest_file (root E) ?d \<mapsto> ?b)"
    "submitted n' = submitted n @ [?as]" "consistent_write (env_raft E) ?as = Some True"
    "events n' = events n @ [\<lparr>ev_repository = r, ev_digest = ?d, ev_tag = tag, ev_content_type = ct\<rparr>]"
    using commit_manifest_facts [OF content_digest_hex [OF assms(1)] run] f by (auto simp: node_id_def)
  have "?p \<noteq> manifest_file (root E) ?d" using temp_path_outside by blast
  then have F: "files (node_fs n') (manifest_file (root E) ?d) = Some ?b" "files (node_fs n') ?p = None"
    using C(2) by auto
  have H: "status h = 201" "header ''Docker-Content-Digest'' h = Some (digest_to_string ?d)"
    using C(1) by (simp_all add: manifest_created_def respond_def header_def)
  note effect = manifest_actions_effect [OF rest(3), of E tok r ?d tag "of_nat (length ?b)" "node_id n" "clock E 0"
      "dependency_digests C (extract_one C ?b)" ct, folded rest(2)]
  show ?thesis
    unfolding Let_def by (intro exI [of _ ?as] conjI allI perm cs rest(1) F C(3-5) H effect)
qed

text \<open>
  C16. A successful push of a manifest means what it says: the caller may push, the manifest passed
  its schema, exactly the bytes of the request are now the file of the digest they hash to and the
  temporary file is gone, one transaction was handed to raft and applied here, one webhook event was
  queued, and applying the transaction to any state yields a row with the repository, this node, the
  size, the media type and the manifest's dependencies, and makes the tag point at it.
\<close>

theorem manifest_put_created:
  assumes "hash_ok E" and "codec_ok C" and "manifest_put C E tok r tag (Some ct) cs n = (n', Some (Inr h))"
    and "files (node_fs n) (get_temp_path (uuid E) (root E)) = None"
  shows "\<exists>as. let b = concat (map the cs); d = content_digest E b
    in has_permission tok r ''push'' \<and> None \<notin> set cs \<and> schema_valid C ct b \<and>
       files (node_fs n') (manifest_file (root E) d) = Some b \<and>
       files (node_fs n') (get_temp_path (uuid E) (root E)) = None \<and>
       submitted n' = submitted n @ [as] \<and> consistent_write (env_raft E) as = Some True \<and>
       events n' = events n @ [\<lparr>ev_repository = r, ev_digest = d, ev_tag = tag, ev_content_type = ct\<rparr>] \<and>
       status h = 201 \<and> header ''Docker-Content-Digest'' h = Some (digest_to_string d) \<and>
       (\<forall>s. \<exists>s' row. apply_actions as s = Some s' \<and> tx_get_manifest s' d = Some row \<and>
          r \<in> repositories row \<and> node_id n \<in> locations row \<and> obj_size row = Some (of_nat (length b)) \<and>
          content_type row = Some ct \<and>
          dependencies row = Some (dependency_digests C (extract_one C b)) \<and> get_tag s' r tag = Some d)"
  using assms by (rule manifest_put_effects)

text \<open>A push of \<open>''{}''\<close>, whose one dependency the registry has described already.\<close>

abbreviation "manifest_v1 \<equiv> ''application/vnd.docker.distribution.manifest.v1+json''"

definition pushing_node :: node where
  "pushing_node = sample_node\<lparr>node_store := foreign_store\<rparr>"

lemma sample_temp_path: "get_temp_path ''u'' [''var''] = [''var'', ''uploads'', ''manifest-u'']"
  by (simp add: get_temp_path_def path_push_plain kind_plain plain_def)

lemma sample_commit_manifest:
  assumes "files (node_fs n) = [[''var'', ''uploads'', ''manifest-u''] \<mapsto> b]" and "dirs (node_fs n) = dirs empty_fs"
  shows "\<exists>n' h. commit_manifest sample_env tok r t ct [''var'', ''uploads'', ''manifest-u''] a64 sz infos n =
    (n', Some (Inr h))"
proof -
  let ?dest = "manifest_file [''var''] a64"
  obtain f where f: "create_dir_all (\<lambda>_. True) (butlast ?dest) (node_fs n) = Some f"
    using sample_create [OF assms(1), of "''manifests''"] by auto
  then have path: "get_manifest_path (\<lambda>_. True) [''var''] a64 (node_fs n) = Some (?dest, f)"
    by (simp add: get_manifest_path_hex)
  have ff: "files f = files (node_fs n)" and par: "parent_exists ?dest f"
    using manifest_layout.locate_path [OF a64_hex path] by auto
  have "?dest \<notin> dirs f"
    using create_dir_all_not_dir [OF f] assms(2) by (simp add: empty_fs_def object_path_def Let_def)
  with path par show ?thesis
    by (simp add: commit_manifest_def rename_file_def ff assms(1) write_node_def sample_consistent)
qed

lemma manifest_put_sample:
  "\<exists>n' h. manifest_put sample_codec sample_env admin_token (RepositoryName ''r'') ''latest'' (Some manifest_v1)
     [Some ''{}''] pushing_node = (n', Some (Inr h))"
proof -
  let ?p = "[''var'', ''uploads'', ''manifest-u'']" and ?r = "RepositoryName ''r''"
  let ?f = "empty_fs\<lparr>files := [?p \<mapsto> ''{}'']\<rparr>"
  let ?n = "pushing_node\<lparr>node_fs := ?f\<rparr>"
  have part: "upload_part (\<lambda>_. True) ?p [Some ''{}''] (node_fs pushing_node) = (?f, Some True)"
    by (simp add: upload_part_def open_append_def parent_exists_def path_parent_def pushing_node_def
        sample_node_def empty_fs_def append_file_def)
  obtain as where ex: "extract_actions sample_codec sample_env foreign_store ?r a64 manifest_v1 ?p ?f =
      Some (?f, Some (Inr as))"
    using foreign_accepted [of ?f ?p "''{}''" ?r a64] by auto
  obtain n' h where commit: "commit_manifest sample_env admin_token ?r ''latest'' manifest_v1 ?p a64 2 as ?n =
      (n', Some (Inr h))"
    using sample_commit_manifest [of ?n "''{}''" admin_token ?r "''latest''" manifest_v1 2 as] by auto
  have hash: "get_hash (sha256 sample_env) (hexlower sample_env) (\<lambda>_. True) ?p ?f = Some a64"
    using sample_content [of "''{}''"] by (simp add: get_hash_def content_digest_def)
  have vis: "visible_ascii manifest_v1" by (simp add: visible_ascii_def)
  have "analyse_manifest sample_codec sample_env admin_token ?r ''latest'' (Some manifest_v1) ?p ?n =
      (n', Some (Inr h))"
    using ex commit hash vis by (simp add: analyse_manifest_def file_len_def pushing_node_def)
  then show ?thesis using part
    by (simp add: manifest_put_def admin_token_def has_permission_def sample_temp_path with_upload_def)
qed

theorem manifest_put_created_witness:
  "\<exists>n' h. manifest_put sample_codec sample_env admin_token (RepositoryName ''r'') ''latest'' (Some manifest_v1)
      [Some ''{}''] pushing_node = (n', Some (Inr h)) \<and>
    files (node_fs n') (manifest_file [''var''] a64) = Some ''{}'' \<and> status h = 201"
proof -
  obtain n' h where run: "manifest_put sample_codec sample_env admin_token (RepositoryName ''r'') ''latest''
      (Some manifest_v1) [Some ''{}''] pushing_node = (n', Some (Inr h))"
    using manifest_put_sample by blast
  have "files (node_fs pushing_node) (get_temp_path (uuid sample_env) (root sample_env)) = None"
    by (simp add: pushing_node_def sample_node_def empty_fs_def)
  from manifest_put_created [OF sample_env_hash sample_codec_ok run this] run show ?thesis by (auto simp: Let_def)
qed

end
