(* ===== verification/Mirror.thy ===== *)
theory Mirror
  imports Manifests
begin

text \<open>
  \<^verbatim>\<open>src/mirror.rs\<close> and the endpoints it downloads from, \<open>get_blob\<close> and \<open>get_manifest\<close> of
  \<^verbatim>\<open>src/network/raft.rs\<close>. One transfer is a function on the node; the task that runs the transfers
  is a step relation over the watch channel that publishes the pending set.

  The HTTP client and the random choice of a peer are parameters, the record \<open>net\<close>: what a GET of a
  URL answers (\<open>None\<close> for an error, else the status and the chunks of the body, a \<open>None\<close> chunk being
  an error while reading), and which of some URLs is chosen.
\<close>

section \<open>Serving the other nodes\<close>

definition peer_get_blob :: "env \<Rightarrow> digest \<Rightarrow> node \<Rightarrow> node \<times> reply option" where
  "peer_get_blob E d n =
     (case get_blob (node_store n) d of
        None \<Rightarrow> (n, Some (Inl BlobNotFound))
      | Some row \<Rightarrow>
          if node_id n \<notin> locations row then (n, Some (Inl BlobNotFound))
          else send_blob E d row n)"

definition peer_get_manifest :: "env \<Rightarrow> digest \<Rightarrow> node \<Rightarrow> node \<times> reply option" where
  "peer_get_manifest E d n =
     (case get_manifest (node_store n) d of
        None \<Rightarrow> (n, Some (Inl ManifestNotFound))
      | Some row \<Rightarrow>
          if node_id n \<notin> locations row then (n, Some (Inl ManifestNotFound))
          else send_manifest E d row n)"

section \<open>One transfer\<close>

datatype mirror_request = Mirror_Blob digest | Mirror_Manifest digest

datatype mirror_result = Retry mirror_request | Success mirror_request registry_action | No_Result

record net =
  fetch :: "string \<Rightarrow> (nat \<times> bytes option list) option"
  pick_url :: "string list \<Rightarrow> string"

fun request_digest :: "mirror_request \<Rightarrow> digest" where
  "request_digest (Mirror_Blob d) = d"
| "request_digest (Mirror_Manifest d) = d"

fun request_row :: "mirror_request \<Rightarrow> registry_store \<Rightarrow> obj option" where
  "request_row (Mirror_Blob d) st = get_blob st d"
| "request_row (Mirror_Manifest d) st = get_manifest st d"

fun object_type :: "mirror_request \<Rightarrow> string" where
  "object_type (Mirror_Blob d) = ''blobs''"
| "object_type (Mirror_Manifest d) = ''manifests''"

fun mirror_success :: "timestamp \<Rightarrow> u64 \<Rightarrow> mirror_request \<Rightarrow> mirror_result" where
  "mirror_success ts i (Mirror_Blob d) = Success (Mirror_Blob d) (BlobStored ts d i ''$internal'')"
| "mirror_success ts i (Mirror_Manifest d) =
     Success (Mirror_Manifest d) (ManifestStored ts d i ''$internal'')"

fun storage_path :: "env \<Rightarrow> mirror_request \<Rightarrow> filesystem \<Rightarrow> (path \<times> filesystem) option" where
  "storage_path E (Mirror_Blob d) f = get_blob_path (env_io E) (root E) d f"
| "storage_path E (Mirror_Manifest d) f = get_manifest_path (env_io E) (root E) d f"

text \<open>The addresses of the members that hold a copy.\<close>

definition source_urls :: "mirror_request \<Rightarrow> obj \<Rightarrow> registry_store \<Rightarrow> string list" where
  "source_urls q row st =
     map (\<lambda>kv. ''http://'' @ snd kv @ ''/'' @ object_type q @ ''/'' @ digest_to_string (request_digest q))
       [kv \<leftarrow> nodes (sm_membership (get_last_membership (sm_db st))). fst kv \<in> locations row]"

text \<open>\<open>File::create\<close> truncates.\<close>

definition create_file :: "io \<Rightarrow> path \<Rightarrow> filesystem \<Rightarrow> filesystem option" where
  "create_file io p f =
     (if io (Open p) \<and> parent_exists p f \<and> p \<notin> dirs f
      then Some (f\<lparr>files := (files f)(p \<mapsto> [])\<rparr>) else None)"

text \<open>
  The download loop: write each chunk and hash it. The result is the file system and, when every
  chunk was read and written and the file was flushed and synced, the bytes that were hashed.
\<close>

fun download ::
  "io \<Rightarrow> path \<Rightarrow> nat \<Rightarrow> bytes option list \<Rightarrow> bytes \<Rightarrow> filesystem \<Rightarrow> filesystem \<times> bytes option" where
  "download io p k [] hashed f = (f, if io (Sync p) then Some hashed else None)"
| "download io p k (None # cs) hashed f = (f, None)"
| "download io p k (Some bs # cs) hashed f =
     (if io (Write p k) then download io p (Suc k) cs (hashed @ bs) (append_file p bs f) else (f, None))"

text \<open>When the body is complete: check what was hashed and what is on disk, then move the file. \<open>None\<close> is a panic.\<close>

definition keep_download ::
  "env \<Rightarrow> mirror_request \<Rightarrow> bytes \<Rightarrow> node \<Rightarrow> node \<times> mirror_result option" where
  "keep_download E q hashed n =
     (let p = get_temp_mirror_path (uuid E) (root E); d = request_digest q
      in if d \<noteq> from_sha256 (hexlower E) (sha256 E hashed) then (n, Some (Retry q))
         else if \<not> validate_hash (sha256 E) (hexlower E) (env_io E) p d (node_fs n)
         then (n, Some (Retry q))
         else case storage_path E q (node_fs n) of
           None \<Rightarrow> (n, None)
         | Some (dest, f) \<Rightarrow>
             (case rename_file (env_io E) p dest f of
                None \<Rightarrow> (n\<lparr>node_fs := f\<rparr>, Some (Retry q))
              | Some f \<Rightarrow> (n\<lparr>node_fs := f\<rparr>, Some (mirror_success (clock E 0) (node_id n) q))))"

definition store_download ::
  "env \<Rightarrow> mirror_request \<Rightarrow> bytes option list \<Rightarrow> node \<Rightarrow> node \<times> mirror_result option" where
  "store_download E q chunks n =
     (let p = get_temp_mirror_path (uuid E) (root E)
      in case create_file (env_io E) p (node_fs n) of
           None \<Rightarrow> (n, Some (Retry q))
         | Some f \<Rightarrow>
             (case download (env_io E) p 0 chunks [] f of
                (f, None) \<Rightarrow> (n\<lparr>node_fs := f\<rparr>, Some (Retry q))
              | (f, Some hashed) \<Rightarrow> keep_download E q hashed (n\<lparr>node_fs := f\<rparr>)))"

definition do_transfer ::
  "env \<Rightarrow> net \<Rightarrow> mirror_request \<Rightarrow> node \<Rightarrow> node \<times> mirror_result option" where
  "do_transfer E N q n =
     (case request_row q (node_store n) of
        None \<Rightarrow> (n, Some No_Result)
      | Some row \<Rightarrow>
          if node_id n \<in> locations row then (n, Some No_Result)
          else if locations row = {} then (n, Some No_Result)
          else let urls = source_urls q row (node_store n)
            in if urls = [] then (n, Some No_Result)
               else case fetch N (pick_url N urls) of
                 None \<Rightarrow> (n, Some (Retry q))
               | Some (code, chunks) \<Rightarrow>
                   if code \<noteq> 200 then (n, Some (Retry q))
                   else store_download E q chunks n)"

section \<open>One pass over the pending objects\<close>

text \<open>
  The transfers run one after the other. \<open>Es\<close> gives each its environment, \<open>Ns\<close> its network, and \<open>drift\<close>
  is what happened to the node before it (raft goes on applying entries meanwhile). The answer of
  \<open>submit_write\<close> is only logged.
\<close>

fun mirror_pass ::
  "(digest \<Rightarrow> env) \<Rightarrow> (digest \<Rightarrow> net) \<Rightarrow> (digest \<Rightarrow> node \<Rightarrow> node) \<Rightarrow> (digest \<Rightarrow> mirror_request) \<Rightarrow>
     digest list \<Rightarrow> node \<Rightarrow> node option" where
  "mirror_pass Es Ns drift q [] n = Some n"
| "mirror_pass Es Ns drift q (d # ds) n =
     (case do_transfer (Es d) (Ns d) (q d) (drift d n) of
        (n, None) \<Rightarrow> None
      | (n, Some (Success _ a)) \<Rightarrow>
          mirror_pass Es Ns drift q ds (n\<lparr>submitted := submitted n @ [[a]]\<rparr>)
      | (n, Some _) \<Rightarrow> mirror_pass Es Ns drift q ds n)"

section \<open>What a transfer does\<close>

lemma download_facts:
  "download io p k cs h f = (f', res) \<Longrightarrow>
   dirs f' = dirs f \<and> (\<forall>q. q \<noteq> p \<longrightarrow> files f' q = files f q) \<and>
   (\<forall>h'. res = Some h' \<longrightarrow> None \<notin> set cs \<and> h' = h @ concat (map the cs) \<and>
     (files f p \<noteq> None \<longrightarrow> files f' p = Some (the (files f p) @ concat (map the cs))))"
proof (induction io p k cs h f rule: download.induct)
  case (3 io p k bs cs h f)
  then show ?case by (cases "io (Write p k)") (auto simp: append_file_def split: option.splits)
qed (auto split: if_splits)

lemma storage_path_hex:
  assumes "hex_digest (request_digest q)" and "storage_path E q f = Some (p, f')"
  shows "p = object_path (object_type q) (root E) (request_digest q)" "files f' = files f"
    "dirs f \<subseteq> dirs f'" "parent_exists p f'"
  using assms blob_layout.locate_path manifest_layout.locate_path by (cases q; simp)+

lemma object_type_cases: "object_type q = ''blobs'' \<or> object_type q = ''manifests''"
  by (cases q) simp_all

lemma mirror_path_outside: "get_temp_mirror_path i (root E) \<noteq> object_path (object_type q) (root E) e"
  using upload_path_not_object(3) object_type_cases by (cases q) auto

definition kept_outside :: "path \<Rightarrow> filesystem \<Rightarrow> filesystem \<Rightarrow> bool" where
  "kept_outside p f f' \<longleftrightarrow> (\<forall>x. x \<noteq> p \<longrightarrow> files f' x = files f x)"

lemma kept_outside_simps [simp]:
  "kept_outside p f f"
  "kept_outside p f (f\<lparr>files := (files f)(p := v)\<rparr>)"
  by (simp_all add: kept_outside_def)

text \<open>What a transfer that succeeds has stored.\<close>

definition mirrored :: "env \<Rightarrow> mirror_request \<Rightarrow> bytes \<Rightarrow> filesystem \<Rightarrow> filesystem \<Rightarrow> bool" where
  "mirrored E q b f f' \<longleftrightarrow>
     content_digest E b = request_digest q \<and>
     files f' (object_path (object_type q) (root E) (request_digest q)) = Some b \<and>
     files f' (get_temp_mirror_path (uuid E) (root E)) = None \<and>
     (\<forall>x. x \<noteq> get_temp_mirror_path (uuid E) (root E) \<longrightarrow>
        x \<noteq> object_path (object_type q) (root E) (request_digest q) \<longrightarrow> files f' x = files f x)"

lemma mirrored_kept:
  "kept_outside (get_temp_mirror_path (uuid E) (root E)) f g \<Longrightarrow> mirrored E q b g h \<Longrightarrow> mirrored E q b f h"
  by (simp add: mirrored_def kept_outside_def)

lemma keep_download_cases:
  assumes "hash_ok E" and "keep_download E q hashed n = (n', rep)"
    and "files (node_fs n) (get_temp_mirror_path (uuid E) (root E)) = Some hashed"
  obtains (stop) f where "n' = n\<lparr>node_fs := f\<rparr>" and "files f = files (node_fs n)"
      and "\<And>r a. rep \<noteq> Some (Success r a)"
    | (stored) f where "n' = n\<lparr>node_fs := f\<rparr>" and "mirrored E q hashed (node_fs n) f"
      and "rep = Some (mirror_success (clock E 0) (node_id n) q)"
proof (cases "content_digest E hashed = request_digest q \<and>
    validate_hash (sha256 E) (hexlower E) (env_io E) (get_temp_mirror_path (uuid E) (root E)) (request_digest q) (node_fs n) \<and>
    storage_path E q (node_fs n) \<noteq> None")
  case False
  then have "n' = n \<and> (\<forall>r a. rep \<noteq> Some (Success r a))"
    using assms(2) by (auto simp: keep_download_def Let_def content_digest_def split: if_splits option.splits)
  then show thesis using stop [of "node_fs n"] by auto
next
  case True
  then obtain dest f where path: "storage_path E q (node_fs n) = Some (dest, f)" by auto
  let ?p = "get_temp_mirror_path (uuid E) (root E)" and ?d = "request_digest q"
  have hex: "hex_digest ?d" using content_digest_hex [OF assms(1), of hashed] True by simp
  note P = storage_path_hex [OF hex path]
  have run: "(n', rep) = (case rename_file (env_io E) ?p dest f of
      None \<Rightarrow> (n\<lparr>node_fs := f\<rparr>, Some (Retry q))
    | Some f \<Rightarrow> (n\<lparr>node_fs := f\<rparr>, Some (mirror_success (clock E 0) (node_id n) q)))"
    using assms(2) True path by (simp add: keep_download_def Let_def content_digest_def)
  show thesis
  proof (cases "rename_file (env_io E) ?p dest f")
    case None
    then show thesis using run stop P(2) by simp
  next
    case (Some g)
    then have g: "files g = (files (node_fs n))(?p := None, dest \<mapsto> hashed)"
      using assms(3) P(2) by (auto simp: rename_file_def split: if_splits)
    have "mirrored E q hashed (node_fs n) g"
      using True P(1) mirror_path_outside [of "uuid E" E q ?d] by (simp add: mirrored_def g)
    then show thesis using run Some stored [of g] by simp
  qed
qed

lemma store_download_cases:
  assumes "hash_ok E" and "store_download E q chunks n = (n', rep)"
  obtains (stop) f where "n' = n\<lparr>node_fs := f\<rparr>"
      and "kept_outside (get_temp_mirror_path (uuid E) (root E)) (node_fs n) f"
      and "\<And>r a. rep \<noteq> Some (Success r a)"
    | (stored) f where "n' = n\<lparr>node_fs := f\<rparr>" and "None \<notin> set chunks"
      and "mirrored E q (concat (map the chunks)) (node_fs n) f"
      and "rep = Some (mirror_success (clock E 0) (node_id n) q)"
proof (cases "create_file (env_io E) (get_temp_mirror_path (uuid E) (root E)) (node_fs n)")
  case None
  then show thesis using assms(2) stop [of "node_fs n"] by (auto simp: store_download_def Let_def)
next
  case (Some f)
  let ?p = "get_temp_mirror_path (uuid E) (root E)"
  have f: "f = (node_fs n)\<lparr>files := (files (node_fs n))(?p \<mapsto> [])\<rparr>"
    using Some by (auto simp: create_file_def split: if_splits)
  obtain g res where down: "download (env_io E) ?p 0 chunks [] f = (g, res)" by (metis surj_pair)
  have g: "kept_outside ?p (node_fs n) g" using download_facts [OF down] by (simp add: f kept_outside_def)
  show thesis
  proof (cases res)
    case None
    then show thesis using assms(2) Some down stop [of g] g by (auto simp: store_download_def Let_def)
  next
    case hashed: (Some hashed)
    have h: "None \<notin> set chunks" "hashed = concat (map the chunks)" "files g ?p = Some hashed"
      using download_facts [OF down] hashed by (simp_all add: f)
    have run: "keep_download E q hashed (n\<lparr>node_fs := g\<rparr>) = (n', rep)"
      using assms(2) Some down hashed by (simp add: store_download_def Let_def)
    have fp: "files (node_fs (n\<lparr>node_fs := g\<rparr>)) ?p = Some hashed" using h(3) by simp
    from assms(1) run fp show thesis
    proof (cases rule: keep_download_cases)
      case (stop f)
      then show thesis using that(1) [of f] g by (simp add: kept_outside_def)
    next
      case (stored f)
      then show thesis using that(2) [of f] mirrored_kept [OF g] h by (simp add: node_id_def)
    qed
  qed
qed

lemma do_transfer_cases:
  assumes "do_transfer E N q n = (n', rep)"
  obtains (idle) "n' = n" and "\<And>r a. rep \<noteq> Some (Success r a)"
    | (fetched) row chunks where "request_row q (node_store n) = Some row" and "node_id n \<notin> locations row"
      and "source_urls q row (node_store n) \<noteq> []"
      and "fetch N (pick_url N (source_urls q row (node_store n))) = Some (200, chunks)"
      and "store_download E q chunks n = (n', rep)"
proof (cases "\<exists>row chunks. request_row q (node_store n) = Some row \<and> node_id n \<notin> locations row \<and>
    locations row \<noteq> {} \<and> source_urls q row (node_store n) \<noteq> [] \<and>
    fetch N (pick_url N (source_urls q row (node_store n))) = Some (200, chunks)")
  case True
  then obtain row chunks where "request_row q (node_store n) = Some row" "node_id n \<notin> locations row"
      "locations row \<noteq> {}" "source_urls q row (node_store n) \<noteq> []"
      "fetch N (pick_url N (source_urls q row (node_store n))) = Some (200, chunks)" by blast
  then show thesis using assms fetched [of row chunks] by (simp add: do_transfer_def Let_def)
next
  case False
  then have "n' = n \<and> (\<forall>r a. rep \<noteq> Some (Success r a))"
    using assms by (auto simp: do_transfer_def Let_def split: option.splits if_splits)
  then show thesis using idle by blast
qed

lemma mirror_success_action:
  "\<exists>a. mirror_success ts i q = Success q a" by (cases q) simp_all

lemma mirror_files_ok:
  assumes "files_ok E f" and "mirrored E q b f f'" and "hex_digest (request_digest q)"
  shows "files_ok E f'"
proof -
  let ?p = "get_temp_mirror_path (uuid E) (root E)" and ?o = "object_path (object_type q) (root E) (request_digest q)"
  have out: "?p \<noteq> object_path k (root E) d" if "k = ''blobs'' \<or> k = ''manifests''" for k d
    using that upload_path_not_object(3) by auto
  have "content_digest E b' = d"
    if "k = ''blobs'' \<or> k = ''manifests''" "hex_digest d" "files f' (object_path k (root E) d) = Some b'" for k d b'
  proof (cases "object_path k (root E) d = ?o")
    case True
    then have "k = object_type q" using object_path_kinds by blast
    then have "d = request_digest q" using True object_path_inj that(2) assms(3) by blast
    then show ?thesis using that(3) True assms(2) by (simp add: mirrored_def)
  next
    case False
    then have "files f (object_path k (root E) d) = Some b'"
      using that(3) assms(2) out [OF that(1), of d] by (simp add: mirrored_def)
    then show ?thesis using assms(1) that by (auto simp: files_ok_def)
  qed
  then show ?thesis unfolding files_ok_def by blast
qed

lemma do_transfer_files_ok:
  assumes "hash_ok E" and "files_ok E (node_fs n)"
  shows "files_ok E (node_fs (fst (do_transfer E N q n)))"
proof -
  obtain n' rep where run: "do_transfer E N q n = (n', rep)" by (metis surj_pair)
  from run have "files_ok E (node_fs n')"
  proof (cases rule: do_transfer_cases)
    case idle
    then show ?thesis using assms(2) by simp
  next
    case (fetched row chunks)
    from assms(1) fetched(5) show ?thesis
    proof (cases rule: store_download_cases)
      case (stop f)
      have "files f (object_path k (root E) d) = files (node_fs n) (object_path k (root E) d)"
        if "k = ''blobs'' \<or> k = ''manifests''" for k d
        using stop(2) that upload_path_not_object(3) [of k "uuid E" "root E" d] by (auto simp: kept_outside_def)
      then show ?thesis using files_ok_outside [OF assms(2)] stop(1) by simp
    next
      case (stored f)
      then have "hex_digest (request_digest q)"
        using content_digest_hex [OF assms(1)] by (metis mirrored_def)
      then show ?thesis using mirror_files_ok [OF assms(2) stored(3)] stored(1) by simp
    qed
  qed
  then show ?thesis using run by simp
qed

lemma do_transfer_store: "node_store (fst (do_transfer E N q n)) = node_store n"
proof -
  obtain n' rep where run: "do_transfer E N q n = (n', rep)" by (metis surj_pair)
  have "node_store (fst (keep_download E q h m)) = node_store m" for h m
    by (auto simp: keep_download_def Let_def split: option.splits)
  then have "node_store (fst (store_download E q chunks n)) = node_store n" for chunks
    by (auto simp: store_download_def Let_def split: option.splits prod.splits)
  then show ?thesis by (auto simp: do_transfer_def Let_def split: option.splits)
qed

section \<open>The mirror task\<close>

text \<open>
  The watch channel the task subscribed to: its value, a version that every \<open>send_replace\<close> raises, and
  whether a sender is left (installing a snapshot replaces the channels, which drops the senders).
\<close>

record watch =
  w_value :: "digest set"
  w_version :: nat
  w_open :: bool

text \<open>
  The task: the version its subscriber has seen, the version the outstanding \<open>wait_for_change\<close> waits to
  leave, the outstanding \<open>wait_for_time\<close>s, the pending set of the last pass, and whether the loop runs.
\<close>

record mirror_task =
  sub_seen :: nat
  change_waiter :: "nat option"
  timers :: nat
  last_pending :: "digest set"
  running :: bool

datatype mirror_state = Changed | Timeout | Close

definition start_mirror :: "watch \<Rightarrow> mirror_task" where
  "start_mirror w = \<lparr>sub_seen = w_version w, change_waiter = Some (w_version w),
     timers = (if w_value w \<noteq> {} then 1 else 0), last_pending = w_value w, running = True\<rparr>"

text \<open>One turn of the loop, for the state the finished waiter returned; the pass itself is \<open>mirror_pass\<close> over \<open>last_pending\<close>.\<close>

fun mirror_turn :: "mirror_state \<Rightarrow> watch \<Rightarrow> mirror_task \<Rightarrow> mirror_task" where
  "mirror_turn Changed w t =
     t\<lparr>last_pending := w_value w, sub_seen := w_version w, change_waiter := Some (w_version w)\<rparr>"
| "mirror_turn Timeout w t =
     t\<lparr>last_pending := w_value w, sub_seen := w_version w,
       timers := timers t - 1 + (if w_value w \<noteq> {} then 1 else 0)\<rparr>"
| "mirror_turn Close w t = t\<lparr>change_waiter := None, running := False\<rparr>"

text \<open>
  What the task can do: a waiter finishes. \<open>changed()\<close> reports an unseen version first and the loss of
  the senders after that.
\<close>

inductive task_step :: "watch \<Rightarrow> mirror_task \<Rightarrow> mirror_task \<Rightarrow> bool" where
  changed: "running t \<Longrightarrow> change_waiter t = Some v \<Longrightarrow> v < w_version w \<Longrightarrow>
    task_step w t (mirror_turn Changed w t)"
| timeout: "running t \<Longrightarrow> 0 < timers t \<Longrightarrow> task_step w t (mirror_turn Timeout w t)"
| closed: "running t \<Longrightarrow> change_waiter t = Some v \<Longrightarrow> v = w_version w \<Longrightarrow> \<not> w_open w \<Longrightarrow>
    task_step w t (mirror_turn Close w t)"

inductive_cases task_stepE: "task_step w t t'"

text \<open>And around it: the state machine publishes a pending set, or a snapshot replaces the channel.\<close>

inductive mirror_step :: "watch \<times> mirror_task \<Rightarrow> watch \<times> mirror_task \<Rightarrow> bool" where
  publish: "w_open w \<Longrightarrow> mirror_step (w, t) (w\<lparr>w_value := v, w_version := Suc (w_version w)\<rparr>, t)"
| replaced: "w_open w \<Longrightarrow> mirror_step (w, t) (w\<lparr>w_open := False\<rparr>, t)"
| task: "task_step w t t' \<Longrightarrow> mirror_step (w, t) (w, t')"

inductive_cases mirror_stepE: "mirror_step (w, t) (w', t')"

definition mirror_inv :: "watch \<times> mirror_task \<Rightarrow> bool" where
  "mirror_inv = (\<lambda>(w, t). sub_seen t \<le> w_version w \<and>
     (sub_seen t = w_version w \<longrightarrow> last_pending t = w_value w) \<and>
     (running t \<longrightarrow> (\<exists>v. change_waiter t = Some v \<and> v \<le> sub_seen t)))"

lemma mirror_inv_start: "mirror_inv (w, start_mirror w)"
  by (simp add: mirror_inv_def start_mirror_def)

lemma task_step_inv: "task_step w t t' \<Longrightarrow> mirror_inv (w, t) \<Longrightarrow> mirror_inv (w, t')"
  by (erule task_stepE) (auto simp: mirror_inv_def)

lemma mirror_step_inv: "mirror_step x y \<Longrightarrow> mirror_inv x \<Longrightarrow> mirror_inv y"
proof (induction rule: mirror_step.induct)
  case (task w t t')
  then show ?case using task_step_inv by blast
qed (auto simp: mirror_inv_def)

lemma mirror_reachable_inv:
  assumes "mirror_step\<^sup>*\<^sup>* (w0, start_mirror w0) x"
  shows "mirror_inv x"
  using assms by (induction rule: rtranclp_induct) (auto intro: mirror_inv_start mirror_step_inv)

text \<open>The timer is only started again by a timeout.\<close>

lemma task_step_timers: "task_step w t t' \<Longrightarrow> timers t' \<le> timers t"
  by (erule task_stepE) auto

lemma mirror_step_timers: "mirror_step x y \<Longrightarrow> timers (snd y) \<le> timers (snd x)"
  by (induction rule: mirror_step.induct) (simp_all add: task_step_timers)

lemma mirror_reachable_timers:
  assumes "mirror_step\<^sup>*\<^sup>* x y"
  shows "timers (snd y) \<le> timers (snd x)"
  using assms by (induction rule: rtranclp_induct) (auto dest: mirror_step_timers)

section \<open>Properties of the mirror\<close>

text \<open>The random choice picks one of the URLs it is given.\<close>

definition net_ok :: "net \<Rightarrow> bool" where
  "net_ok N \<longleftrightarrow> (\<forall>us. us \<noteq> [] \<longrightarrow> pick_url N us \<in> set us)"

lemma mirror_action_effect:
  assumes "mirror_success ts i q = Success q' a" and "request_row q st = Some row"
  shows "\<exists>s' row'. apply_action a (sm_db st) = Some s' \<and> request_row q (st\<lparr>sm_db := s'\<rparr>) = Some row' \<and>
    locations row' = insert i (locations row) \<and> repositories row' = repositories row"
  using assms
  by (cases q)
    (auto simp: get_blob_def get_manifest_def apply_blob_stored_def apply_manifest_stored_def tx_simps)

text \<open>
  C21. A transfer that succeeds was needed (the registry lists other holders and not this node), its
  bytes came in one complete response from a member the registry lists as a holder, they hash to the
  requested digest and are now the object's file, nothing else but the temporary file changed, and
  the action it returns adds this node, and only this node, to the holders.
\<close>

theorem do_transfer_success:
  assumes "hash_ok E" and "net_ok N" and "do_transfer E N q n = (n', Some (Success q' a))"
  shows "\<exists>row nid addr chunks f s' row'. request_row q (node_store n) = Some row \<and> node_id n \<notin> locations row \<and>
    (nid, addr) \<in> set (nodes (sm_membership (get_last_membership (sm_db (node_store n))))) \<and>
    nid \<in> locations row \<and>
    fetch N (''http://'' @ addr @ ''/'' @ object_type q @ ''/'' @ digest_to_string (request_digest q)) =
      Some (200, chunks) \<and> None \<notin> set chunks \<and>
    n' = n\<lparr>node_fs := f\<rparr> \<and> mirrored E q (concat (map the chunks)) (node_fs n) f \<and>
    apply_action a (sm_db (node_store n)) = Some s' \<and>
    request_row q ((node_store n)\<lparr>sm_db := s'\<rparr>) = Some row' \<and>
    locations row' = insert (node_id n) (locations row) \<and> repositories row' = repositories row"
  using assms(3)
proof (cases rule: do_transfer_cases)
  case (fetched row chunks)
  let ?urls = "source_urls q row (node_store n)"
  have "pick_url N ?urls \<in> set ?urls" using assms(2) fetched(3) by (simp add: net_ok_def)
  then obtain nid addr where peer: "(nid, addr) \<in> set (nodes (sm_membership (get_last_membership (sm_db (node_store n)))))"
      "nid \<in> locations row"
      "pick_url N ?urls = ''http://'' @ addr @ ''/'' @ object_type q @ ''/'' @ digest_to_string (request_digest q)"
    unfolding source_urls_def by auto
  from assms(1) fetched(5) obtain f where f: "n' = n\<lparr>node_fs := f\<rparr>" "None \<notin> set chunks"
      "mirrored E q (concat (map the chunks)) (node_fs n) f" "mirror_success (clock E 0) (node_id n) q = Success q' a"
    by (cases rule: store_download_cases) auto
  obtain s' row' where "apply_action a (sm_db (node_store n)) = Some s'"
      "request_row q ((node_store n)\<lparr>sm_db := s'\<rparr>) = Some row'"
      "locations row' = insert (node_id n) (locations row)" "repositories row' = repositories row"
    using mirror_action_effect [OF f(4) fetched(1)] by blast
  with fetched peer f(1-3) show ?thesis by metis
qed blast

text \<open>No file stands where the layout has a directory, no directory where it has an object, and the upload directory exists.\<close>

definition layout_ok :: "env \<Rightarrow> filesystem \<Rightarrow> bool" where
  "layout_ok E f \<longleftrightarrow> root E @ [''uploads''] \<in> dirs f \<and>
     (\<forall>k d. k = ''blobs'' \<or> k = ''manifests'' \<longrightarrow>
        object_path k (root E) d \<notin> dirs f \<and> (\<forall>j. files f (take j (butlast (object_path k (root E) d))) = None))"

lemma mirror_path_shape: "plain i \<Longrightarrow> get_temp_mirror_path i p = p @ [''uploads'', ''mirror-'' @ i]"
  by (simp add: get_temp_mirror_path_def uploads_path_shape plain_def)

lemma mirror_path_not_dir: "plain i \<Longrightarrow> k \<noteq> ''uploads'' \<Longrightarrow>
  get_temp_mirror_path i p \<noteq> take j (butlast (object_path k p d))"
proof
  assume i: "plain i" and k: "k \<noteq> ''uploads''" and eq: "get_temp_mirror_path i p = take j (butlast (object_path k p d))"
  let ?o = "butlast (object_path k p d)"
  have "length (take j ?o) = length p + 2" unfolding eq [symmetric] by (simp add: mirror_path_shape [OF i])
  then have "take j ?o ! length p = ?o ! length p" by simp
  also have "... = k" by (simp add: object_path_def Let_def butlast_append)
  finally show False using k unfolding eq [symmetric] by (simp add: mirror_path_shape [OF i] nth_append)
qed

text \<open>With working I/O, a complete body of the right content is always stored.\<close>

lemma keep_download_complete:
  assumes "hash_ok E" and "\<And>op. env_io E op" and "layout_ok E (node_fs n)"
    and "content_digest E b = request_digest q"
    and "files (node_fs n) (get_temp_mirror_path (uuid E) (root E)) = Some b"
  shows "snd (keep_download E q b n) = Some (mirror_success (clock E 0) (node_id n) q)"
proof -
  let ?p = "get_temp_mirror_path (uuid E) (root E)" and ?d = "request_digest q"
  let ?o = "object_path (object_type q) (root E) ?d"
  have hex: "hex_digest ?d" using content_digest_hex [OF assms(1), of b] assms(4) by simp
  have free: "files (node_fs n) (take j (butlast ?o)) = None" for j
    using assms(3) object_type_cases [of q] unfolding layout_ok_def by blast
  have "\<exists>f. create_dir_all (env_io E) (butlast ?o) (node_fs n) = Some f"
    using assms(2) free free [of "length (butlast ?o)"] by (simp add: create_dir_all_def list_all_iff)
  then obtain f where f: "create_dir_all (env_io E) (butlast ?o) (node_fs n) = Some f" by blast
  have path: "storage_path E q (node_fs n) = Some (?o, f)"
    using f hex by (cases q) (simp_all add: get_blob_path_hex get_manifest_path_hex)
  note P = storage_path_hex [OF hex path]
  have "?o \<notin> dirs f"
    using create_dir_all_not_dir [OF f] assms(3) object_type_cases [of q]
    by (auto simp: layout_ok_def object_path_def Let_def)
  then have "rename_file (env_io E) ?p ?o f \<noteq> None" using assms(2,5) P by (simp add: rename_file_def)
  moreover have "validate_hash (sha256 E) (hexlower E) (env_io E) ?p ?d (node_fs n)"
    using assms(2,4,5) by (simp add: validate_hash_iff)
  ultimately show ?thesis using path assms(4) by (auto simp: keep_download_def Let_def content_digest_def)
qed

lemma download_complete:
  assumes "\<And>op. io op" and "None \<notin> set cs"
  shows "snd (download io p k cs h f) = Some (h @ concat (map the cs))"
  using assms
proof (induction cs arbitrary: k h f)
  case (Cons c cs)
  then show ?case by (cases c) auto
qed simp

lemma do_transfer_complete:
  assumes "hash_ok E" and "\<And>op. env_io E op" and "layout_ok E (node_fs n)" and "plain (uuid E)"
    and "get_temp_mirror_path (uuid E) (root E) \<notin> dirs (node_fs n)"
    and "request_row q (node_store n) = Some row" and "node_id n \<notin> locations row" and "locations row \<noteq> {}"
    and "source_urls q row (node_store n) \<noteq> []"
    and "fetch N (pick_url N (source_urls q row (node_store n))) = Some (200, chunks)" and "None \<notin> set chunks"
    and "content_digest E (concat (map the chunks)) = request_digest q"
  shows "snd (do_transfer E N q n) = Some (mirror_success (clock E 0) (node_id n) q)"
proof -
  let ?p = "get_temp_mirror_path (uuid E) (root E)"
  let ?f = "(node_fs n)\<lparr>files := (files (node_fs n))(?p \<mapsto> [])\<rparr>"
  have "path_parent ?p = Some (root E @ [''uploads''])"
    by (simp add: mirror_path_shape [OF assms(4)] path_parent_def butlast_append)
  then have create: "create_file (env_io E) ?p (node_fs n) = Some ?f"
    using assms(2,3,5) by (simp add: create_file_def parent_exists_def layout_ok_def)
  obtain g res where down: "download (env_io E) ?p 0 chunks [] ?f = (g, res)" by (metis surj_pair)
  have res: "res = Some (concat (map the chunks))"
    using download_complete [of "env_io E" chunks ?p 0 "[]" ?f] assms(2,11) down by simp
  have g: "dirs g = dirs (node_fs n)" "kept_outside ?p (node_fs n) g" "files g ?p = Some (concat (map the chunks))"
    using download_facts [OF down] res by (simp_all add: kept_outside_def)
  have "files g (take j (butlast (object_path k (root E) d))) = files (node_fs n) (take j (butlast (object_path k (root E) d)))"
    if "k = ''blobs'' \<or> k = ''manifests''" for k j d
    using g(2) that mirror_path_not_dir [OF assms(4), of k "root E" j d] by (auto simp: kept_outside_def)
  then have "layout_ok E (node_fs (n\<lparr>node_fs := g\<rparr>))"
    using assms(3) g(1) unfolding layout_ok_def by simp
  then have "snd (keep_download E q (concat (map the chunks)) (n\<lparr>node_fs := g\<rparr>)) =
      Some (mirror_success (clock E 0) (node_id (n\<lparr>node_fs := g\<rparr>)) q)"
    using keep_download_complete [of E "n\<lparr>node_fs := g\<rparr>" "concat (map the chunks)" q] assms(1,2,12) g(3) by simp
  then have "snd (keep_download E q (concat (map the chunks)) (n\<lparr>node_fs := g\<rparr>)) =
      Some (mirror_success (clock E 0) (node_id n) q)" by (simp add: node_id_def)
  then show ?thesis using create down res assms(6-10) by (simp add: do_transfer_def store_download_def Let_def)
qed

text \<open>A node whose registry knows one blob, held by node 2.\<close>

definition mirror_node :: node where
  "mirror_node = sample_node\<lparr>node_store := new_store 1 (empty_db\<lparr>
     blobs := [(a64, orphan_row\<lparr>locations := {2}\<rparr>)],
     db_last_membership := Some \<lparr>sm_log_id = None, sm_membership = Membership [{1, 2}] [(2, ''h:1'')]\<rparr>\<rparr>)\<rparr>"

definition sample_net :: net where
  "sample_net = \<lparr>fetch = (\<lambda>_. Some (200, [Some ''abc''])), pick_url = hd\<rparr>"

lemma sample_layout: "layout_ok sample_env empty_fs"
  by (auto simp: layout_ok_def empty_fs_def object_path_def Let_def)

lemma sample_transfer:
  "\<exists>n' a. do_transfer sample_env sample_net (Mirror_Blob a64) mirror_node = (n', Some (Success (Mirror_Blob a64) a))"
proof -
  let ?row = "orphan_row\<lparr>locations := {2}\<rparr>"
  have io: "env_io sample_env op" for op by simp
  have row: "request_row (Mirror_Blob a64) (node_store mirror_node) = Some ?row"
    by (simp add: mirror_node_def get_blob_def new_store_def)
  have urls: "source_urls (Mirror_Blob a64) ?row (node_store mirror_node) \<noteq> []"
    by (simp add: mirror_node_def source_urls_def new_store_def get_last_membership_def)
  have temp: "get_temp_mirror_path ''u'' [''var''] = [''var'', ''uploads'', ''mirror-u'']"
    by (simp add: mirror_path_shape plain_def)
  have "snd (do_transfer sample_env sample_net (Mirror_Blob a64) mirror_node) =
      Some (mirror_success (clock sample_env 0) (node_id mirror_node) (Mirror_Blob a64))"
    by (rule do_transfer_complete [OF sample_env_hash io _ _ _ row _ _ urls, where chunks = "[Some ''abc'']"])
      (simp_all add: mirror_node_def sample_node_def sample_layout plain_def temp node_id_def new_store_def sample_net_def
        orphan_row_def, simp add: empty_fs_def)
  then show ?thesis by (metis mirror_success.simps(1) prod.collapse)
qed

theorem do_transfer_success_witness:
  "\<exists>n' a. do_transfer sample_env sample_net (Mirror_Blob a64) mirror_node =
      (n', Some (Success (Mirror_Blob a64) a)) \<and> files (node_fs n') (blob_file [''var''] a64) = Some ''abc''"
proof -
  obtain n' a where run: "do_transfer sample_env sample_net (Mirror_Blob a64) mirror_node =
      (n', Some (Success (Mirror_Blob a64) a))" using sample_transfer by blast
  have N: "net_ok sample_net" by (simp add: net_ok_def sample_net_def)
  from do_transfer_success [OF sample_env_hash N run] have "files (node_fs n') (blob_file [''var''] a64) = Some ''abc''"
    by (auto simp: mirrored_def sample_net_def)
  with run show ?thesis by blast
qed

text \<open>
  C29. No change of the pending set is missed: whenever the running task has not yet made a pass over
  the set that is published, one of its waiters has finished, and the turn that follows makes that
  pass.
\<close>

theorem mirror_follows_pending:
  assumes "mirror_step\<^sup>*\<^sup>* (w0, start_mirror w0) (w, t)" and "running t" and "last_pending t \<noteq> w_value w"
  shows "\<exists>t'. task_step w t t' \<and> running t' \<and> last_pending t' = w_value w"
proof -
  have inv: "mirror_inv (w, t)" using mirror_reachable_inv [OF assms(1)] .
  then obtain v where "change_waiter t = Some v" "v < w_version w"
    using assms(2,3) by (auto simp: mirror_inv_def)
  then have "task_step w t (mirror_turn Changed w t)" using assms(2) by (intro changed)
  then show ?thesis using assms(2) by (intro exI [of _ "mirror_turn Changed w t"]) simp
qed

definition idle_watch :: watch where
  "idle_watch = \<lparr>w_value = {}, w_version = 0, w_open = True\<rparr>"

lemma idle_published:
  "mirror_step\<^sup>*\<^sup>* (idle_watch, start_mirror idle_watch)
     (\<lparr>w_value = {a64}, w_version = 1, w_open = True\<rparr>, start_mirror idle_watch)"
  using publish [of idle_watch "start_mirror idle_watch" "{a64}"] by (simp add: idle_watch_def r_into_rtranclp)

theorem mirror_follows_pending_witness:
  "\<exists>t'. task_step \<lparr>w_value = {a64}, w_version = 1, w_open = True\<rparr> (start_mirror idle_watch) t' \<and>
     last_pending t' = {a64}"
  using mirror_follows_pending [OF idle_published] by (auto simp: start_mirror_def idle_watch_def)

text \<open>
  C40. A failed transfer is not retried by a task that started with nothing pending: the timer is
  started only then and after a timeout, so such a task never has one. When it has seen the published
  set it can do nothing until the set is published again, whatever is still missing.
\<close>

theorem mirror_never_retries:
  assumes "mirror_step\<^sup>*\<^sup>* (w0, start_mirror w0) (w, t)" and "w_value w0 = {}"
    and "w_open w" and "change_waiter t = Some (w_version w)"
  shows "\<not> task_step w t t'"
proof -
  have "timers t = 0" using mirror_reachable_timers [OF assms(1)] assms(2) by (simp add: start_mirror_def)
  then show ?thesis using assms(3,4) by (auto elim: task_stepE)
qed

theorem mirror_never_retries_witness:
  "\<exists>w t. w_value w = {a64} \<and> running t \<and> last_pending t = {a64} \<and> (\<forall>t'. \<not> task_step w t t')"
proof -
  let ?w = "\<lparr>w_value = {a64}, w_version = 1, w_open = True\<rparr>"
  let ?t = "mirror_turn Changed ?w (start_mirror idle_watch)"
  have "task_step ?w (start_mirror idle_watch) ?t"
    by (rule changed) (simp_all add: start_mirror_def idle_watch_def)
  then have reach: "mirror_step\<^sup>*\<^sup>* (idle_watch, start_mirror idle_watch) (?w, ?t)"
    using idle_published by (meson rtranclp.rtrancl_into_rtrancl task)
  have "\<not> task_step ?w ?t t'" for t'
    by (rule mirror_never_retries [OF reach]) (simp_all add: idle_watch_def)
  then show ?thesis by (intro exI [of _ ?w] exI [of _ ?t]) (simp add: start_mirror_def)
qed

end
