(* ===== verification/Management.thy ===== *)
theory Management
  imports Mirror
begin

text \<open>
  \<open>import\<close> and \<open>export\<close> of \<^verbatim>\<open>src/network/management.rs\<close>: the registry as a JSON document, and the
  transaction that rebuilds it from one. \<open>itr\<close> and \<open>itl\<close> are the iteration orders of the repositories
  and locations of a row, \<open>stamp\<close> the clock.
\<close>

section \<open>The document and the transaction\<close>

record import_body =
  ib_blobs :: "(digest, blob) tree"
  ib_manifests :: "(digest, manifest) tree"
  ib_tags :: "(repository_name, (string, digest) tree) tree"

record orders =
  itr :: "repository_name set \<Rightarrow> repository_name list"
  itl :: "u64 set \<Rightarrow> u64 list"
  stamp :: "digest \<Rightarrow> nat \<Rightarrow> timestamp"

definition import_blob :: "orders \<Rightarrow> digest \<times> blob \<Rightarrow> registry_action list" where
  "import_blob P kv =
     (let d = fst kv; b = snd kv
      in map (\<lambda>r. BlobMounted (stamp P d 0) d r ''$import'') (itr P (repositories b)) @
         map (\<lambda>l. BlobStored (stamp P d 1) d l ''$import'') (itl P (locations b)) @
         (case (dependencies b, content_type b) of
            (Some ds, Some ct) \<Rightarrow> [BlobInfo (stamp P d 2) d ds ct]
          | _ \<Rightarrow> []) @
         (case obj_size b of Some sz \<Rightarrow> [BlobStat (stamp P d 3) d sz] | None \<Rightarrow> []))"

definition import_manifest :: "orders \<Rightarrow> digest \<times> manifest \<Rightarrow> registry_action list" where
  "import_manifest P kv =
     (let d = fst kv; b = snd kv
      in map (\<lambda>r. ManifestMounted (stamp P d 0) d r ''$import'') (itr P (repositories b)) @
         map (\<lambda>l. ManifestStored (stamp P d 1) d l ''$import'') (itl P (locations b)) @
         (case (dependencies b, content_type b) of
            (Some ds, Some ct) \<Rightarrow> [ManifestInfo (stamp P d 2) d ds ct]
          | _ \<Rightarrow> []) @
         (case obj_size b of Some sz \<Rightarrow> [ManifestStat (stamp P d 3) d sz] | None \<Rightarrow> []))"

definition import_actions :: "orders \<Rightarrow> import_body \<Rightarrow> registry_action list" where
  "import_actions P ib =
     concat (map (import_blob P) (ib_blobs ib)) @
     concat (map (import_manifest P) (ib_manifests ib)) @
     map (\<lambda>kd. HashTagged (stamp P (snd kd) 4) (snd kd) (tk_repository (fst kd)) (tk_tag (fst kd)) ''$import'')
       (flat_tags (ib_tags ib))"

text \<open>The answer of \<open>submit_write\<close> is ignored: the reply is always a success.\<close>

definition import_registry :: "orders \<Rightarrow> import_body \<Rightarrow> node \<Rightarrow> node \<times> unit" where
  "import_registry P ib n = (n\<lparr>submitted := submitted n @ [import_actions P ib]\<rparr>, ())"

definition export_registry :: "registry_store \<Rightarrow> import_body" where
  "export_registry st =
     (let sm = to_serializable (sm_db st)
      in \<lparr>ib_blobs = sr_blobs sm, ib_manifests = sr_manifests sm, ib_tags = sr_tags sm\<rparr>)"

section \<open>Running the actions of one row\<close>

fun update_row :: "spec_update \<Rightarrow> obj option \<Rightarrow> obj option option" where
  "update_row (OnBlob d ts op) row = row_try ts op row"
| "update_row (OnManifest d ts op) row = row_try ts op row"
| "update_row _ row = Some row"

definition row_run :: "registry_action list \<Rightarrow> obj option \<Rightarrow> obj option option" where
  "row_run as row = fold_opt (\<lambda>a. update_row (action_update a)) as row"

lemma row_run_Nil [simp]: "row_run [] row = Some row"
  by (simp add: row_run_def)

lemma row_run_append:
  "row_run (as @ bs) row = (case row_run as row of None \<Rightarrow> None | Some r \<Rightarrow> row_run bs r)"
  unfolding row_run_def by (rule fold_opt_append)

definition imported ::
  "(digest \<times> obj \<Rightarrow> registry_action list) \<Rightarrow> (digest \<times> obj) list \<Rightarrow> (digest \<Rightarrow> obj option) \<Rightarrow>
     digest \<Rightarrow> obj option" where
  "imported import_row kvs R =
     (\<lambda>d. case map_of kvs d of None \<Rightarrow> R d | Some b \<Rightarrow> the (row_run (import_row (d, b)) None))"

locale object_rows =
  fixes upd :: "digest \<Rightarrow> timestamp \<Rightarrow> row_op \<Rightarrow> spec_update"
    and rows :: "registry_spec \<Rightarrow> digest \<Rightarrow> obj option"
    and set_rows :: "(digest \<Rightarrow> obj option) \<Rightarrow> registry_spec \<Rightarrow> registry_spec"
  assumes apply_upd: "spec_apply (upd d ts op) A =
      map_option (\<lambda>r. set_rows ((rows A)(d := r)) A) (row_try ts op (rows A d))"
    and update_upd: "update_row (upd d ts op) row = row_try ts op row"
    and rows_set [simp]: "rows (set_rows R A) = R"
    and set_set [simp]: "set_rows R (set_rows R' A) = set_rows R A"
    and set_same [simp]: "set_rows (rows A) A = A"
begin

lemma run_on_row:
  assumes "\<forall>a \<in> set as. \<exists>ts op. action_update a = upd d ts op"
  shows "fold_opt spec_action as A = map_option (\<lambda>r. set_rows ((rows A)(d := r)) A) (row_run as (rows A d))"
  using assms
proof (induction as arbitrary: A)
  case (Cons a as)
  then obtain ts op where a: "action_update a = upd d ts op" by auto
  show ?case
  proof (cases "row_try ts op (rows A d)")
    case None
    then show ?thesis by (simp add: spec_action_def a apply_upd row_run_def update_upd)
  next
    case (Some r)
    let ?A = "set_rows ((rows A)(d := r)) A"
    have "fold_opt spec_action (a # as) A = fold_opt spec_action as ?A"
      using Some by (simp add: spec_action_def a apply_upd)
    also have "... = map_option (\<lambda>r'. set_rows ((rows ?A)(d := r')) ?A) (row_run as (rows ?A d))"
      using Cons.prems by (intro Cons.IH) simp
    also have "... = map_option (\<lambda>r'. set_rows ((rows A)(d := r')) A) (row_run as r)" by simp
    also have "row_run as r = row_run (a # as) (rows A d)" using Some by (simp add: row_run_def a update_upd)
    finally show ?thesis .
  qed
qed (simp add: row_run_def)

text \<open>Taking a node out of the holders of some objects, each named once.\<close>

lemma run_unstores:
  assumes "\<And>d. action_update (act d) = upd d (t d) (Unstore i)" and "distinct ds"
  shows "fold_opt spec_action (map act ds) A =
    Some (set_rows (\<lambda>d. if d \<in> set ds then row_step (t d) (Unstore i) (rows A d) else rows A d) A)"
  using assms(2)
proof (induction ds arbitrary: A)
  case (Cons d ds)
  let ?A = "set_rows ((rows A)(d := row_step (t d) (Unstore i) (rows A d))) A"
  have "fold_opt spec_action (map act (d # ds)) A = fold_opt spec_action (map act ds) ?A"
    by (simp add: spec_action_def assms(1) apply_upd row_try_def)
  also have "... = Some (set_rows (\<lambda>e. if e \<in> set ds then row_step (t e) (Unstore i) (rows ?A e) else rows ?A e) ?A)"
    using Cons by simp
  also have "(\<lambda>e. if e \<in> set ds then row_step (t e) (Unstore i) (rows ?A e) else rows ?A e) =
      (\<lambda>e. if e \<in> set (d # ds) then row_step (t e) (Unstore i) (rows A e) else rows A e)"
    using Cons.prems by (auto simp: fun_eq_iff)
  finally show ?case by simp
qed simp

end

locale object_import = object_rows +
  fixes import_row :: "digest \<times> obj \<Rightarrow> registry_action list"
  assumes import_only: "a \<in> set (import_row kv) \<Longrightarrow> \<exists>ts op. action_update a = upd (fst kv) ts op"
begin

lemma run_rows:
  assumes "distinct (map fst kvs)" and "\<forall>kv \<in> set kvs. rows A (fst kv) = None"
  shows "fold_opt spec_action (concat (map import_row kvs)) A =
    (if \<exists>kv \<in> set kvs. row_run (import_row kv) None = None then None else Some (set_rows (imported import_row kvs (rows A)) A))"
  using assms
proof (induction kvs arbitrary: A)
  case Nil
  then show ?case by (simp add: imported_def)
next
  case (Cons kv kvs)
  have one: "fold_opt spec_action (import_row kv) A =
      map_option (\<lambda>r. set_rows ((rows A)(fst kv := r)) A) (row_run (import_row kv) None)"
    using run_on_row [of "import_row kv" "fst kv" A] import_only Cons.prems(2) by auto
  show ?case
  proof (cases "row_run (import_row kv) None")
    case None
    then show ?thesis using one by (simp add: fold_opt_append)
  next
    case (Some r)
    let ?A = "set_rows ((rows A)(fst kv := r)) A"
    have new: "fst kv \<notin> fst ` set kvs" "map_of kvs (fst kv) = None"
      using Cons.prems(1) by (simp_all add: map_of_eq_None_iff)
    have "rows ?A (fst kv') = None" if "kv' \<in> set kvs" for kv'
      using that Cons.prems(2) new(1) by (cases "fst kv' = fst kv") (auto simp: image_iff)
    then have "\<forall>kv' \<in> set kvs. rows ?A (fst kv') = None" by blast
    then have IH: "fold_opt spec_action (concat (map import_row kvs)) ?A =
        (if \<exists>kv \<in> set kvs. row_run (import_row kv) None = None then None else Some (set_rows (imported import_row kvs (rows ?A)) ?A))"
      using Cons.IH Cons.prems(1) by simp
    have "imported import_row kvs (rows ?A) = imported import_row (kv # kvs) (rows A)"
      using new(2) Some by (auto simp: imported_def fun_eq_iff split: option.splits)
    then show ?thesis using IH one Some by (simp add: fold_opt_append)
  qed
qed

end

interpretation blob_rows: object_import OnBlob sp_blobs "\<lambda>R A. A\<lparr>sp_blobs := R\<rparr>" "import_blob P"
  by unfold_locales (auto simp: import_blob_def Let_def split: option.splits)

interpretation manifest_rows: object_import OnManifest sp_manifests "\<lambda>R A. A\<lparr>sp_manifests := R\<rparr>" "import_manifest P"
  by unfold_locales (auto simp: import_manifest_def Let_def split: option.splits)

section \<open>The row an import restores\<close>

lemma fold_opt_map: "fold_opt f (map g xs) s = fold_opt (\<lambda>x. f (g x)) xs s"
  by (induction xs arbitrary: s) (auto split: option.splits)

text \<open>The two halves of the code run the same row.\<close>

lemma update_row_eq: "update_row (OnBlob d ts op) = row_try ts op" "update_row (OnManifest d ts op) = row_try ts op"
  by (simp_all add: fun_eq_iff)

lemma row_run_cong:
  "map (\<lambda>a. update_row (action_update a)) as = map (\<lambda>a. update_row (action_update a)) bs \<Longrightarrow>
   row_run as row = row_run bs row"
  using fold_opt_map [of "\<lambda>f. f" "\<lambda>a. update_row (action_update a)"] by (metis row_run_def)

lemma row_run_import_manifest: "row_run (import_manifest P kv) row = row_run (import_blob P kv) row"
  by (rule row_run_cong)
    (simp add: import_manifest_def import_blob_def Let_def update_row_eq split: option.splits)

lemma row_run_mounts:
  "row_run (map (\<lambda>r. BlobMounted ts d r u) rs) (Some b) =
     Some (Some (b\<lparr>repositories := repositories b \<union> set rs, updated := if rs = [] then updated b else ts\<rparr>))"
  by (induction rs arbitrary: b) (auto simp: row_run_def row_try_def row_step_def)

lemma row_run_mounts_new:
  "rs \<noteq> [] \<Longrightarrow> row_run (map (\<lambda>r. BlobMounted ts d r u) rs) None =
     Some (Some ((fresh_row ts)\<lparr>repositories := set rs\<rparr>))"
proof (induction rs)
  case (Cons r rs)
  have "row_run (map (\<lambda>r. BlobMounted ts d r u) (r # rs)) None =
      row_run (map (\<lambda>r. BlobMounted ts d r u) rs) (Some ((fresh_row ts)\<lparr>repositories := {r}\<rparr>))"
    by (simp add: row_run_def row_try_def row_step_def fresh_row_def)
  then show ?case by (simp add: row_run_mounts fresh_row_def)
qed simp

lemma row_run_stores:
  "row_run (map (\<lambda>l. BlobStored ts d l u) ls) (Some b) =
     Some (Some (b\<lparr>locations := locations b \<union> set ls, updated := if ls = [] then updated b else ts\<rparr>))"
  by (induction ls arbitrary: b) (auto simp: row_run_def row_try_def row_step_def)

lemma row_run_stores_new:
  "row_run (map (\<lambda>l. BlobStored ts d l u) ls) None = (if ls = [] then Some None else None)"
  by (cases ls) (simp_all add: row_run_def row_try_def)

definition same_row :: "obj \<Rightarrow> obj \<Rightarrow> bool" where
  "same_row b b' \<longleftrightarrow> obj_size b' = obj_size b \<and> content_type b' = content_type b \<and>
     dependencies b' = dependencies b \<and> repositories b' = repositories b \<and> locations b' = locations b"

text \<open>A row gets its media type and its dependencies together; before that it has no dependencies.\<close>

definition described_row :: "obj \<Rightarrow> bool" where
  "described_row b \<longleftrightarrow> (content_type b = None \<longrightarrow> dependencies b = Some [])"

definition orders_ok :: "orders \<Rightarrow> bool" where
  "orders_ok P \<longleftrightarrow> hash_iter (itr P) \<and> hash_iter (itl P)"

lemma row_run_import:
  assumes "orders_ok P" and "row_wf b" and "described_row b"
  shows "repositories b = {} \<Longrightarrow>
      row_run (import_blob P (d, b)) None = (if locations b = {} then Some None else None)"
    and "repositories b \<noteq> {} \<Longrightarrow> \<exists>b'. row_run (import_blob P (d, b)) None = Some (Some b') \<and> same_row b b'"
proof -
  have rs: "set (itr P (repositories b)) = repositories b" and ls: "set (itl P (locations b)) = locations b"
    using assms(1,2) by (simp_all add: orders_ok_def row_wf_def)
  let ?info = "case (dependencies b, content_type b) of (Some ds, Some ct) \<Rightarrow> [BlobInfo (stamp P d 2) d ds ct] | _ \<Rightarrow> []"
  let ?stat = "case obj_size b of Some sz \<Rightarrow> [BlobStat (stamp P d 3) d sz] | None \<Rightarrow> []"
  have tail_new: "row_run (?info @ ?stat) None = Some None"
    by (simp add: row_run_def row_try_def row_step_def split: option.splits)
  have tail: "\<exists>b'. row_run (?info @ ?stat) (Some c) = Some (Some b') \<and> same_row b b'"
    if "repositories c = repositories b" "locations c = locations b" "obj_size c = None" "content_type c = None"
      "dependencies c = Some []" for c
    using that assms(2,3)
    by (auto simp: row_run_def row_try_def row_step_def same_row_def described_row_def row_wf_def split: option.splits)
  have run: "row_run (import_blob P (d, b)) None =
      (case row_run (map (\<lambda>r. BlobMounted (stamp P d 0) d r ''$import'') (itr P (repositories b))) None of
         None \<Rightarrow> None
       | Some r \<Rightarrow> (case row_run (map (\<lambda>l. BlobStored (stamp P d 1) d l ''$import'') (itl P (locations b))) r of
           None \<Rightarrow> None | Some r \<Rightarrow> row_run (?info @ ?stat) r))"
    unfolding import_blob_def Let_def by (simp only: row_run_append fst_conv snd_conv)
  show "row_run (import_blob P (d, b)) None = (if locations b = {} then Some None else None)"
    if "repositories b = {}"
  proof -
    have "itr P (repositories b) = []" using rs that by (metis set_empty)
    moreover have "itl P (locations b) = [] \<longleftrightarrow> locations b = {}" using ls by (metis set_empty)
    ultimately show ?thesis using tail_new unfolding run by (simp add: row_run_stores_new)
  qed
  show "\<exists>b'. row_run (import_blob P (d, b)) None = Some (Some b') \<and> same_row b b'" if "repositories b \<noteq> {}"
  proof -
    have "itr P (repositories b) \<noteq> []" using rs that by (metis set_empty)
    note start = row_run_mounts_new [OF this, of "stamp P d 0" d "''$import''"]
    show ?thesis unfolding run start option.case row_run_stores
      by (rule tail) (simp_all add: fresh_row_def rs ls)
  qed
qed

section \<open>Every row of the registry is described\<close>

definition spec_described :: "registry_spec \<Rightarrow> bool" where
  "spec_described A \<longleftrightarrow> (\<forall>d b. sp_blobs A d = Some b \<or> sp_manifests A d = Some b \<longrightarrow> described_row b)"

lemma row_step_described:
  "row_step ts op row = Some b' \<Longrightarrow> (\<And>b. row = Some b \<Longrightarrow> described_row b) \<Longrightarrow> described_row b'"
  by (cases op) (auto simp: row_step_def fresh_row_def described_row_def split: option.splits if_splits)

lemma spec_action_described: "spec_action a A = Some B \<Longrightarrow> spec_described A \<Longrightarrow> spec_described B"
  by (cases "action_update a")
    (auto simp: spec_action_def spec_described_def row_try_def split: if_splits dest!: row_step_described)

lemma apply_actions_described:
  assumes "apply_actions as s = Some s'" and "spec_described (abs_db s)"
  shows "spec_described (abs_db s')"
proof -
  have "fold_opt spec_action as (abs_db s) = Some (abs_db s')"
    using assms(1) apply_actions_spec [of as s] by simp
  then show ?thesis
    by (rule fold_opt_invariant [where P = spec_described]) (use assms(2) spec_action_described in blast)+
qed

section \<open>Properties of import and export\<close>

lemma run_tags:
  "fold_opt spec_action (map (\<lambda>kd. HashTagged (t kd) (snd kd) (tk_repository (fst kd)) (tk_tag (fst kd)) u) kds) A =
     Some (A\<lparr>sp_tags := (\<lambda>k. case map_of (rev kds) k of None \<Rightarrow> sp_tags A k | Some d \<Rightarrow> Some d)\<rparr>)"
proof (induction kds arbitrary: A)
  case (Cons kd kds)
  then show ?case
    by (auto simp: spec_action_def map_add_def fun_eq_iff split: option.splits intro!: arg_cong [where f = "\<lambda>T. A\<lparr>sp_tags := T\<rparr>"])
qed simp

definition restored :: "obj option \<Rightarrow> obj option \<Rightarrow> bool" where
  "restored row row' \<longleftrightarrow>
     (case row of
        None \<Rightarrow> row' = None
      | Some b \<Rightarrow> if repositories b = {} then row' = None else (\<exists>b'. row' = Some b' \<and> same_row b b'))"

lemma imported_restored:
  assumes "orders_ok P" and "bt_wf t"
    and "\<And>d b. bt_get t d = Some b \<Longrightarrow> row_wf b \<and> described_row b"
    and "\<forall>kv \<in> set t. row_run (import_blob P kv) None \<noteq> None"
  shows "restored (bt_get t d) (imported (import_blob P) t (\<lambda>_. None) d)"
proof (cases "bt_get t d")
  case None
  then show ?thesis by (simp add: restored_def imported_def bt_get_def)
next
  case (Some b)
  have b: "row_wf b" "described_row b" using assms(3) [OF Some] by auto
  have ok: "row_run (import_blob P (d, b)) None \<noteq> None" using assms(4) bt_get_in_set [OF Some] by blast
  have m: "map_of t d = Some b" using Some by (simp add: bt_get_def)
  show ?thesis
    using row_run_import [OF assms(1) b, of d] ok m Some
    by (cases "repositories b = {}") (auto simp: restored_def imported_def split: if_splits)
qed

lemma import_blob_None_iff:
  assumes "orders_ok P" and "bt_wf t" and "\<And>d b. bt_get t d = Some b \<Longrightarrow> row_wf b \<and> described_row b"
  shows "(\<exists>kv \<in> set t. row_run (import_blob P kv) None = None) \<longleftrightarrow>
    (\<exists>d b. bt_get t d = Some b \<and> repositories b = {} \<and> locations b \<noteq> {})"
proof -
  have "row_run (import_blob P (d, b)) None = None \<longleftrightarrow> repositories b = {} \<and> locations b \<noteq> {}"
    if "bt_get t d = Some b" for d b
    using row_run_import [OF assms(1), of b d] assms(3) [OF that] by (cases "repositories b = {}") auto
  then show ?thesis using bt_get_iff [OF assms(2)] by (metis prod.collapse)
qed

lemma import_manifest_imported: "imported (import_manifest P) t R = imported (import_blob P) t R"
  unfolding imported_def row_run_import_manifest ..

lemma import_export_spec:
  assumes "orders_ok P" and "db_wf s" and "spec_described (abs_db s)"
    and ib: "ib = \<lparr>ib_blobs = sr_blobs (to_serializable s), ib_manifests = sr_manifests (to_serializable s),
      ib_tags = sr_tags (to_serializable s)\<rparr>"
  shows "map_option abs_db (apply_actions (import_actions P ib) empty_db) =
    (if (\<exists>kv \<in> set (blobs s). row_run (import_blob P kv) None = None) \<or>
        (\<exists>kv \<in> set (manifests s). row_run (import_blob P kv) None = None)
     then None
     else Some \<lparr>sp_blobs = imported (import_blob P) (blobs s) (\<lambda>_. None),
       sp_manifests = imported (import_blob P) (manifests s) (\<lambda>_. None), sp_tags = bt_get (tags s)\<rparr>)"
proof -
  let ?A = "abs_db empty_db"
  let ?B = "?A\<lparr>sp_blobs := imported (import_blob P) (blobs s) (\<lambda>_. None)\<rparr>"
  let ?C = "?B\<lparr>sp_manifests := imported (import_blob P) (manifests s) (\<lambda>_. None)\<rparr>"
  have A: "?A = \<lparr>sp_blobs = (\<lambda>_. None), sp_manifests = (\<lambda>_. None), sp_tags = (\<lambda>_. None)\<rparr>"
    by (simp add: abs_db_def empty_db_def fun_eq_iff tx_get_blob_def tx_get_manifest_def)
  have wf: "distinct (map fst (blobs s))" "distinct (map fst (manifests s))"
    using assms(2) by (simp_all add: db_wf_def bt_wf_distinct)
  have b: "fold_opt spec_action (concat (map (import_blob P) (blobs s))) ?A =
      (if \<exists>kv \<in> set (blobs s). row_run (import_blob P kv) None = None then None else Some ?B)"
    using blob_rows.run_rows [OF wf(1), of ?A P] by (simp add: A)
  have m: "fold_opt spec_action (concat (map (import_manifest P) (manifests s))) ?B =
      (if \<exists>kv \<in> set (manifests s). row_run (import_blob P kv) None = None then None else Some ?C)"
    using manifest_rows.run_rows [OF wf(2), of ?B P]
    by (simp add: A row_run_import_manifest import_manifest_imported)
  have t: "fold_opt spec_action (map (\<lambda>kd. HashTagged (stamp P (snd kd) 4) (snd kd) (tk_repository (fst kd))
        (tk_tag (fst kd)) ''$import'') (flat_tags (sr_tags (to_serializable s)))) ?C =
      Some (?C\<lparr>sp_tags := bt_get (tags s)\<rparr>)"
    unfolding run_tags to_serializable_tags [OF assms(2)] by (simp add: A fun_eq_iff split: option.splits)
  show ?thesis
    unfolding apply_actions_spec import_actions_def ib
    by (simp add: fold_opt_append to_serializable_rows [OF assms(2)] b m t)
qed

text \<open>
  C27. What importing an export restores. Applied to an empty registry, the import of the export of a
  registry panics exactly when some row that no repository mounts still lists a holder. When it does not panic,
  it restores every tag, and every row that some repository mounts, with all its fields but the times,
  which are those of the import; the rows no repository mounts are lost.
\<close>

theorem import_export_restores:
  assumes "orders_ok P" and "db_wf (sm_db st)" and "spec_described (abs_db (sm_db st))"
  shows "(apply_actions (import_actions P (export_registry st)) empty_db = None \<longleftrightarrow>
      (\<exists>d b. (get_blob st d = Some b \<or> get_manifest st d = Some b) \<and> repositories b = {} \<and> locations b \<noteq> {})) \<and>
    (\<forall>s'. apply_actions (import_actions P (export_registry st)) empty_db = Some s' \<longrightarrow>
      (\<forall>r t. get_tag s' r t = get_tag (sm_db st) r t) \<and>
      (\<forall>d. restored (get_blob st d) (tx_get_blob s' d)) \<and>
      (\<forall>d. restored (get_manifest st d) (tx_get_manifest s' d)))"
proof -
  let ?s = "sm_db st" and ?run = "apply_actions (import_actions P (export_registry st)) empty_db"
  have wf: "bt_wf (blobs ?s)" "bt_wf (manifests ?s)" using assms(2) by (simp_all add: db_wf_def)
  have b: "row_wf b \<and> described_row b" if "bt_get (blobs ?s) d = Some b" for d b
    using that assms(3) db_wf_blob [OF assms(2)] by (auto simp: spec_described_def tx_get_blob_def)
  have m: "row_wf b \<and> described_row b" if "bt_get (manifests ?s) d = Some b" for d b
    using that assms(3) db_wf_manifest [OF assms(2)] by (auto simp: spec_described_def tx_get_manifest_def)
  note spec = import_export_spec [OF assms refl]
  have run: "map_option abs_db ?run =
    (if (\<exists>kv \<in> set (blobs ?s). row_run (import_blob P kv) None = None) \<or>
        (\<exists>kv \<in> set (manifests ?s). row_run (import_blob P kv) None = None)
     then None
     else Some \<lparr>sp_blobs = imported (import_blob P) (blobs ?s) (\<lambda>_. None),
       sp_manifests = imported (import_blob P) (manifests ?s) (\<lambda>_. None), sp_tags = bt_get (tags ?s)\<rparr>)"
    using spec by (simp add: export_registry_def Let_def)
  have "?run = None \<longleftrightarrow> map_option abs_db ?run = None" by (cases ?run) simp_all
  also have "... \<longleftrightarrow> (\<exists>kv \<in> set (blobs ?s). row_run (import_blob P kv) None = None) \<or>
      (\<exists>kv \<in> set (manifests ?s). row_run (import_blob P kv) None = None)" unfolding run by simp
  also have "... \<longleftrightarrow> (\<exists>d b. bt_get (blobs ?s) d = Some b \<and> repositories b = {} \<and> locations b \<noteq> {}) \<or>
      (\<exists>d b. bt_get (manifests ?s) d = Some b \<and> repositories b = {} \<and> locations b \<noteq> {})"
    using import_blob_None_iff [OF assms(1) wf(1) b] import_blob_None_iff [OF assms(1) wf(2) m] by simp
  finally have panics: "?run = None \<longleftrightarrow>
      (\<exists>d b. (get_blob st d = Some b \<or> get_manifest st d = Some b) \<and> repositories b = {} \<and> locations b \<noteq> {})"
    unfolding get_blob_def get_manifest_def by blast
  have "(\<forall>r t. get_tag s' r t = get_tag ?s r t) \<and> (\<forall>d. restored (get_blob st d) (tx_get_blob s' d)) \<and>
      (\<forall>d. restored (get_manifest st d) (tx_get_manifest s' d))" if "?run = Some s'" for s'
  proof -
    have ok: "\<forall>kv \<in> set (blobs ?s). row_run (import_blob P kv) None \<noteq> None"
        "\<forall>kv \<in> set (manifests ?s). row_run (import_blob P kv) None \<noteq> None"
      and s': "tx_get_blob s' = imported (import_blob P) (blobs ?s) (\<lambda>_. None)"
        "tx_get_manifest s' = imported (import_blob P) (manifests ?s) (\<lambda>_. None)" "bt_get (tags s') = bt_get (tags ?s)"
      using run that by (auto simp: abs_db_def split: if_splits)
    then show ?thesis
      using imported_restored [OF assms(1) wf(1) b ok(1)] imported_restored [OF assms(1) wf(2) m ok(2)]
      by (simp add: get_blob_def get_manifest_def get_tag_def)
  qed
  with panics show ?thesis by blast
qed

definition sample_orders :: orders where
  "sample_orders = \<lparr>itr = sorted_list_of_set, itl = sorted_list_of_set, stamp = (\<lambda>_ _. 0)\<rparr>"

lemma sample_orders_ok: "orders_ok sample_orders"
  by (simp add: orders_ok_def sample_orders_def hash_iter_def)

text \<open>A blob that is mounted and tagged is restored with its tag.\<close>

definition exported_db :: db where
  "exported_db = empty_db\<lparr>blobs := [(a64, served_row)],
     tags := [(TagKey (RepositoryName ''r'') ''t'', a64)]\<rparr>"

lemma exported_db_ok: "db_wf exported_db" "spec_described (abs_db exported_db)"
  by (auto simp: exported_db_def db_wf_def empty_db_def bt_wf_def served_row_def orphan_row_def row_wf_def tx_get_blob_def
      tx_get_manifest_def spec_described_def abs_db_def described_row_def split: if_splits)

theorem import_export_restores_witness:
  "\<exists>s' b'. apply_actions (import_actions sample_orders (export_registry (new_store 1 exported_db))) empty_db = Some s' \<and>
     get_tag s' (RepositoryName ''r'') ''t'' = Some a64 \<and> tx_get_blob s' a64 = Some b' \<and> same_row served_row b'"
proof -
  let ?st = "new_store 1 exported_db"
  have st: "sm_db ?st = exported_db" by (simp add: new_store_def)
  have get: "get_blob ?st d = (if d = a64 then Some served_row else None)" "get_manifest ?st d = None"
      "get_tag (sm_db ?st) (RepositoryName ''r'') ''t'' = Some a64" for d
    by (simp_all add: get_blob_def get_manifest_def get_tag_def new_store_def exported_db_def empty_db_def)
  have rs: "repositories served_row \<noteq> {}" by (simp add: served_row_def)
  have "db_wf (sm_db ?st)" "spec_described (abs_db (sm_db ?st))" using exported_db_ok by (simp_all add: st)
  note R = import_export_restores [OF sample_orders_ok this]
  have "apply_actions (import_actions sample_orders (export_registry ?st)) empty_db \<noteq> None"
    using conjunct1 [OF R] rs by (auto simp: get split: if_splits)
  then obtain s' where s': "apply_actions (import_actions sample_orders (export_registry ?st)) empty_db = Some s'" by auto
  then have "get_tag s' (RepositoryName ''r'') ''t'' = get_tag (sm_db ?st) (RepositoryName ''r'') ''t''"
      "restored (get_blob ?st a64) (tx_get_blob s' a64)"
    using conjunct2 [OF R] by blast+
  with s' rs show ?thesis by (auto simp: get restored_def)
qed

section \<open>Membership of the cluster\<close>

text \<open>
  Raft is a parameter: its calls on a state \<open>'r\<close>, with the answer the endpoint returns as JSON. A new cluster
  has one node, the one that was asked; \<open>add_learner\<close> waits until the learner has caught up, and
  \<open>change_membership\<close> does not keep removed voters as learners.
\<close>

record ('r, 'a) raft_calls =
  raft_initialize :: "(u64, string) tree \<Rightarrow> 'r \<Rightarrow> 'r \<times> 'a"
  raft_add_learner :: "u64 \<Rightarrow> string \<Rightarrow> bool \<Rightarrow> 'r \<Rightarrow> 'r \<times> 'a"
  raft_change_membership :: "u64 set \<Rightarrow> bool \<Rightarrow> 'r \<Rightarrow> 'r \<times> 'a"
  raft_client_write :: "registry_request \<Rightarrow> 'r \<Rightarrow> 'r \<times> 'a"

definition init_cluster :: "('r, 'a) raft_calls \<Rightarrow> u64 \<Rightarrow> string \<Rightarrow> 'r \<Rightarrow> 'r \<times> 'a" where
  "init_cluster raft app_id addr r = raft_initialize raft (bt_insert app_id addr []) r"

definition add_learner :: "('r, 'a) raft_calls \<Rightarrow> u64 \<times> string \<Rightarrow> 'r \<Rightarrow> 'r \<times> 'a" where
  "add_learner raft req r = raft_add_learner raft (fst req) (snd req) True r"

definition change_membership :: "('r, 'a) raft_calls \<Rightarrow> u64 set \<Rightarrow> 'r \<Rightarrow> 'r \<times> 'a" where
  "change_membership raft ids r = raft_change_membership raft ids False r"

definition api_write :: "('r, 'a) raft_calls \<Rightarrow> registry_request \<Rightarrow> 'r \<Rightarrow> 'r \<times> 'a" where
  "api_write raft req r = raft_client_write raft req r"

end
