(* ===== verification/Fsck.thy ===== *)
theory Fsck
  imports Management
begin

text \<open>
  The \<open>Fsck\<close> command of \<^verbatim>\<open>src/bin/main.rs\<close>: compare an export of the registry with the files of this
  node, log the copies that are missing, and report manifests that do not fit their blobs. \<open>i\<close> is the
  node, \<open>now\<close> the clock. What is printed is a list of messages; \<open>None\<close> is a panic.
\<close>

section \<open>The check\<close>

datatype fsck_message =
  Not_Available digest repository_name
| Wrong_Size digest digest "u64 option" "u64 option"
| Blob_Missing digest digest
| Not_Valid digest extract_error

fun fsck_blobs ::
  "env \<Rightarrow> u64 \<Rightarrow> (object_kind \<Rightarrow> digest \<Rightarrow> timestamp) \<Rightarrow> (digest \<times> blob) list \<Rightarrow> filesystem \<Rightarrow>
     (filesystem \<times> (digest \<times> blob) list \<times> registry_action list) option" where
  "fsck_blobs E i now [] f = Some (f, [], [])"
| "fsck_blobs E i now ((d, b) # kvs) f =
     (if i \<notin> locations b
      then map_option (\<lambda>(f, rows, fxs). (f, (d, b) # rows, fxs)) (fsck_blobs E i now kvs f)
      else case get_blob_path (env_io E) (root E) d f of
        None \<Rightarrow> None
      | Some (p, f) \<Rightarrow>
          if \<not> path_exists p f
          then map_option (\<lambda>(f, rows, fxs). (f, (d, b\<lparr>locations := locations b - {i}\<rparr>) # rows,
              BlobUnstored (now Blob_Kind d) d i ''$fsck'' # fxs)) (fsck_blobs E i now kvs f)
          else map_option (\<lambda>(f, rows, fxs). (f, (d, b) # rows, fxs)) (fsck_blobs E i now kvs f))"

text \<open>The messages about one dependency of a manifest, and about all of them.\<close>

definition check_extraction ::
  "orders \<Rightarrow> (digest \<times> blob) list \<Rightarrow> digest \<Rightarrow> manifest \<Rightarrow> extraction \<Rightarrow> fsck_message list" where
  "check_extraction P bs d m x =
     (case map_of bs (ex_digest x) of
        None \<Rightarrow> [Blob_Missing d (ex_digest x)]
      | Some b \<Rightarrow>
          map (Not_Available d) [r \<leftarrow> itr P (repositories m). r \<notin> repositories b] @
          (case ex_size x of
             None \<Rightarrow> []
           | Some sz \<Rightarrow> if obj_size b \<noteq> Some sz then [Wrong_Size d (ex_digest x) (obj_size b) (ex_size x)] else []))"

definition check_manifest ::
  "codec \<Rightarrow> env \<Rightarrow> orders \<Rightarrow> (digest \<times> blob) list \<Rightarrow> digest \<Rightarrow> manifest \<Rightarrow> string \<Rightarrow> path \<Rightarrow> filesystem \<Rightarrow>
     fsck_message list" where
  "check_manifest C E P bs d m ct p f =
     (case parse_manifest C (env_io E) p ct f of
        Inl e \<Rightarrow> [Not_Valid d e]
      | Inr xs \<Rightarrow> concat (map (check_extraction P bs d m) (ex_order C xs)))"

fun fsck_manifests ::
  "codec \<Rightarrow> env \<Rightarrow> orders \<Rightarrow> u64 \<Rightarrow> (object_kind \<Rightarrow> digest \<Rightarrow> timestamp) \<Rightarrow> (digest \<times> blob) list \<Rightarrow>
     (digest \<times> manifest) list \<Rightarrow> filesystem \<Rightarrow>
     (filesystem \<times> registry_action list \<times> fsck_message list) option" where
  "fsck_manifests C E P i now bs [] f = Some (f, [], [])"
| "fsck_manifests C E P i now bs ((d, m) # kvs) f =
     (if i \<notin> locations m then fsck_manifests C E P i now bs kvs f
      else case get_manifest_path (env_io E) (root E) d f of
        None \<Rightarrow> None
      | Some (p, f) \<Rightarrow>
          if \<not> path_exists p f
          then map_option (\<lambda>(f, fxs, ms). (f, ManifestUnstored (now Manifest_Kind d) d i ''$fsck'' # fxs, ms))
            (fsck_manifests C E P i now bs kvs f)
          else case content_type m of
            None \<Rightarrow> None
          | Some ct \<Rightarrow>
              map_option (\<lambda>(f', fxs, ms). (f', fxs, check_manifest C E P bs d m ct p f @ ms))
                (fsck_manifests C E P i now bs kvs f))"

text \<open>
  The whole command: the export, the two sweeps, and the write of the fixes if they are to be made
  (even when there are none). The loop over the tags does nothing.
\<close>

definition fsck ::
  "codec \<Rightarrow> env \<Rightarrow> orders \<Rightarrow> u64 \<Rightarrow> (object_kind \<Rightarrow> digest \<Rightarrow> timestamp) \<Rightarrow> bool \<Rightarrow> import_body \<Rightarrow> filesystem \<Rightarrow>
     (filesystem \<times> registry_action list option \<times> fsck_message list) option" where
  "fsck C E P i now repair ib f =
     (case fsck_blobs E i now (ib_blobs ib) f of
        None \<Rightarrow> None
      | Some (f, bs, fxs) \<Rightarrow>
          (case fsck_manifests C E P i now bs (ib_manifests ib) f of
             None \<Rightarrow> None
           | Some (f, fxs', ms) \<Rightarrow> Some (f, if repair then Some (fxs @ fxs') else None, ms)))"

section \<open>Which fixes are made\<close>

text \<open>Looking for a file creates its directories, which never makes an object's path exist.\<close>

lemma locate_keeps_objects:
  assumes "more_dirs f f'" and "\<And>p. p \<in> dirs f' - dirs f \<Longrightarrow> length p < length rt + 5"
  shows "path_exists (object_path k rt e) f' \<longleftrightarrow> path_exists (object_path k rt e) f"
proof -
  have "length (object_path k rt e) = length rt + 5" by (simp add: object_path_def Let_def)
  then have "object_path k rt e \<notin> dirs f' - dirs f" using assms(2) [of "object_path k rt e"] by auto
  then show ?thesis using assms(1) by (auto simp: path_exists_def more_dirs_def)
qed

context object_layout begin

lemma locate_exists:
  assumes "hex_digest d" and "locate io rt d f = Some (p, f')"
  shows "p = object_path kind rt d"
    and "path_exists (object_path k rt e) f' \<longleftrightarrow> path_exists (object_path k rt e) f"
proof -
  show p: "p = object_path kind rt d" using locate_path [OF assms] by simp
  have c: "create_dir_all io (butlast (object_path kind rt d)) f = Some f'"
    using assms by (auto simp: locate_hex)
  have "length p < length rt + 5" if "p \<in> dirs f' - dirs f" for p
  proof -
    have "\<exists>n. p = take n (butlast (object_path kind rt d))"
      using that c by (auto simp: create_dir_all_def split: if_splits)
    then show ?thesis by (auto simp: object_path_def Let_def)
  qed
  moreover have "more_dirs f f'" using create_dir_all_files [OF c] by (auto simp: more_dirs_def)
  ultimately show "path_exists (object_path k rt e) f' \<longleftrightarrow> path_exists (object_path k rt e) f"
    by (intro locate_keeps_objects)
qed

end

definition lost_copy :: "string \<Rightarrow> env \<Rightarrow> u64 \<Rightarrow> filesystem \<Rightarrow> digest \<times> obj \<Rightarrow> bool" where
  "lost_copy k E i f kv \<longleftrightarrow> i \<in> locations (snd kv) \<and> \<not> path_exists (object_path k (root E) (fst kv)) f"

lemma fsck_blobs_fixes:
  assumes "\<forall>kv \<in> set kvs. hex_digest (fst kv)" and "fsck_blobs E i now kvs f = Some (f', rows, fxs)"
  shows "fxs = map (\<lambda>d. BlobUnstored (now Blob_Kind d) d i ''$fsck'') (map fst (filter (lost_copy ''blobs'' E i f) kvs)) \<and>
    (\<forall>k e. path_exists (object_path k (root E) e) f' \<longleftrightarrow> path_exists (object_path k (root E) e) f)"
  using assms
proof (induction kvs arbitrary: f rows fxs)
  case (Cons kv kvs)
  obtain d b where kv: "kv = (d, b)" by (cases kv)
  have hex: "hex_digest d" "\<forall>kv \<in> set kvs. hex_digest (fst kv)" using Cons.prems(1) kv by auto
  show ?case
  proof (cases "i \<in> locations b")
    case False
    then show ?thesis using Cons.prems(2) Cons.IH [OF hex(2)] kv
      by (auto simp: lost_copy_def)
  next
    case True
    then obtain p g where loc: "get_blob_path (env_io E) (root E) d f = Some (p, g)"
      using Cons.prems(2) kv by (auto split: option.splits)
    note L = blob_layout.locate_exists [OF hex(1) loc]
    have same: "filter (lost_copy ''blobs'' E i g) kvs = filter (lost_copy ''blobs'' E i f) kvs"
      using L(2) by (simp add: lost_copy_def [abs_def])
    obtain rows' fxs' where rec: "fsck_blobs E i now kvs g = Some (f', rows', fxs')"
        "fxs = (if path_exists p g then fxs' else BlobUnstored (now Blob_Kind d) d i ''$fsck'' # fxs')"
      using Cons.prems(2) kv True loc by (auto split: if_splits)
    show ?thesis using Cons.IH [OF hex(2) rec(1)] rec(2) True L kv same by (auto simp: lost_copy_def)
  qed
qed simp

lemma fsck_manifests_fixes:
  assumes "\<forall>kv \<in> set kvs. hex_digest (fst kv)"
    and "fsck_manifests C E P i now bs kvs f = Some (f', fxs, ms)"
  shows "fxs = map (\<lambda>d. ManifestUnstored (now Manifest_Kind d) d i ''$fsck'')
      (map fst (filter (lost_copy ''manifests'' E i f) kvs)) \<and>
    (\<forall>k e. path_exists (object_path k (root E) e) f' \<longleftrightarrow> path_exists (object_path k (root E) e) f)"
  using assms
proof (induction kvs arbitrary: f fxs ms)
  case (Cons kv kvs)
  obtain d m where kv: "kv = (d, m)" by (cases kv)
  have hex: "hex_digest d" "\<forall>kv \<in> set kvs. hex_digest (fst kv)" using Cons.prems(1) kv by auto
  show ?case
  proof (cases "i \<in> locations m")
    case False
    then show ?thesis using Cons.prems(2) Cons.IH [OF hex(2)] kv by (auto simp: lost_copy_def)
  next
    case True
    then obtain p g where loc: "get_manifest_path (env_io E) (root E) d f = Some (p, g)"
      using Cons.prems(2) kv by (auto split: option.splits)
    note L = manifest_layout.locate_exists [OF hex(1) loc]
    have same: "filter (lost_copy ''manifests'' E i g) kvs = filter (lost_copy ''manifests'' E i f) kvs"
      using L(2) by (simp add: lost_copy_def [abs_def])
    obtain fxs' ms' where rec: "fsck_manifests C E P i now bs kvs g = Some (f', fxs', ms')"
        "fxs = (if path_exists p g then fxs' else ManifestUnstored (now Manifest_Kind d) d i ''$fsck'' # fxs')"
      using Cons.prems(2) kv True loc by (auto split: if_splits option.splits)
    show ?thesis using Cons.IH [OF hex(2) rec(1)] rec(2) True L kv same by (auto simp: lost_copy_def)
  qed
qed simp

section \<open>Properties of the check\<close>

text \<open>A row after the check, given whether the file is there.\<close>

definition corrected :: "bool \<Rightarrow> u64 \<Rightarrow> obj option \<Rightarrow> obj option \<Rightarrow> bool" where
  "corrected present i row row' \<longleftrightarrow>
     (case row of
        None \<Rightarrow> row' = None
      | Some b \<Rightarrow>
          if i \<notin> locations b \<or> present then row' = Some b
          else if locations b = {i} then row' = None
          else (\<exists>b'. row' = Some b' \<and> locations b' = locations b - {i} \<and> repositories b' = repositories b \<and>
            dependencies b' = dependencies b \<and> content_type b' = content_type b \<and> obj_size b' = obj_size b))"

lemma unstore_corrected:
  assumes "bt_wf t"
  shows "corrected (path_exists (object_path k (root E) d) f) i (bt_get t d)
    (if d \<in> set (map fst (filter (lost_copy k E i f) t)) then row_step ts (Unstore i) (bt_get t d) else bt_get t d)"
proof -
  have "d \<in> set (map fst (filter (lost_copy k E i f) t)) \<longleftrightarrow> (\<exists>b. bt_get t d = Some b \<and> lost_copy k E i f (d, b))"
    using bt_get_iff [OF assms] by force
  then show ?thesis
    by (cases "bt_get t d") (auto simp: corrected_def lost_copy_def row_step_def)
qed

lemma fsck_spec:
  assumes "db_wf s"
  shows "fold_opt spec_action
      (map (\<lambda>d. BlobUnstored (now Blob_Kind d) d i u) (map fst (filter Q (blobs s))) @
       map (\<lambda>d. ManifestUnstored (now Manifest_Kind d) d i u) (map fst (filter R (manifests s)))) (abs_db s) =
    Some \<lparr>sp_blobs = (\<lambda>d. if d \<in> set (map fst (filter Q (blobs s)))
        then row_step (now Blob_Kind d) (Unstore i) (tx_get_blob s d) else tx_get_blob s d),
      sp_manifests = (\<lambda>d. if d \<in> set (map fst (filter R (manifests s)))
        then row_step (now Manifest_Kind d) (Unstore i) (tx_get_manifest s d) else tx_get_manifest s d),
      sp_tags = bt_get (tags s)\<rparr>"
proof -
  have d: "distinct (map fst (filter Q (blobs s)))" "distinct (map fst (filter R (manifests s)))"
    using assms by (simp_all add: db_wf_def bt_wf_distinct distinct_map_filter)
  show ?thesis
    unfolding fold_opt_append
      blob_rows.run_unstores [where act = "\<lambda>d. BlobUnstored (now Blob_Kind d) d i u" and t = "now Blob_Kind",
        OF action_update.simps(3) d(1)] option.case
      manifest_rows.run_unstores [where act = "\<lambda>d. ManifestUnstored (now Manifest_Kind d) d i u" and
        t = "now Manifest_Kind", OF action_update.simps(9) d(2)]
    by (simp add: abs_db_def cong: if_cong)
qed

text \<open>
  A repair makes the registry agree with the disk: applying the fixes never panics, removes this
  node from the holders of exactly the objects whose file is missing (and the row with its last
  holder), and changes no other row and no tag. So afterwards every copy the registry lists for this
  node has its file.
\<close>

theorem fsck_repairs:
  assumes "db_wf (sm_db st)" and "rows_hex st"
    and "fsck C E P i now True (export_registry st) f = Some (f', Some fxs, ms)"
  shows "\<exists>s'. apply_actions fxs (sm_db st) = Some s' \<and>
    (\<forall>d. corrected (path_exists (blob_file (root E) d) f') i (get_blob st d) (tx_get_blob s' d)) \<and>
    (\<forall>d. corrected (path_exists (manifest_file (root E) d) f') i (get_manifest st d) (tx_get_manifest s' d)) \<and>
    (\<forall>r t. get_tag s' r t = get_tag (sm_db st) r t)"
proof -
  let ?s = "sm_db st"
  have ib: "ib_blobs (export_registry st) = blobs ?s" "ib_manifests (export_registry st) = manifests ?s"
    by (simp_all add: export_registry_def Let_def to_serializable_rows [OF assms(1)])
  have wf: "bt_wf (blobs ?s)" "bt_wf (manifests ?s)" using assms(1) by (simp_all add: db_wf_def)
  have hex: "\<forall>kv \<in> set (blobs ?s). hex_digest (fst kv)" "\<forall>kv \<in> set (manifests ?s). hex_digest (fst kv)"
    using assms(2) bt_get_iff wf by (fastforce simp: rows_hex_def get_blob_def get_manifest_def)+
  obtain g bs fb fm where b: "fsck_blobs E i now (blobs ?s) f = Some (g, bs, fb)"
    and m: "fsck_manifests C E P i now bs (manifests ?s) g = Some (f', fm, ms)" and fxs: "fxs = fb @ fm"
    using assms(3) by (auto simp: fsck_def ib split: option.splits)
  note B = fsck_blobs_fixes [OF hex(1) b] and M = fsck_manifests_fixes [OF hex(2) m]
  have same: "lost_copy k E i f = lost_copy k E i f'" "lost_copy k E i g = lost_copy k E i f'" for k
    using B M by (auto simp: lost_copy_def fun_eq_iff)
  have fx: "fxs = map (\<lambda>d. BlobUnstored (now Blob_Kind d) d i ''$fsck'')
        (map fst (filter (lost_copy ''blobs'' E i f') (blobs ?s))) @
      map (\<lambda>d. ManifestUnstored (now Manifest_Kind d) d i ''$fsck'')
        (map fst (filter (lost_copy ''manifests'' E i f') (manifests ?s)))"
    using conjunct1 [OF B] conjunct1 [OF M] unfolding fxs same by simp
  have "map_option abs_db (apply_actions fxs ?s) = Some
     \<lparr>sp_blobs = (\<lambda>d. if d \<in> set (map fst (filter (lost_copy ''blobs'' E i f') (blobs ?s)))
        then row_step (now Blob_Kind d) (Unstore i) (tx_get_blob ?s d) else tx_get_blob ?s d),
      sp_manifests = (\<lambda>d. if d \<in> set (map fst (filter (lost_copy ''manifests'' E i f') (manifests ?s)))
        then row_step (now Manifest_Kind d) (Unstore i) (tx_get_manifest ?s d) else tx_get_manifest ?s d),
      sp_tags = bt_get (tags ?s)\<rparr>"
    unfolding apply_actions_spec fx by (rule fsck_spec [OF assms(1)])
  then obtain s' where s': "apply_actions fxs ?s = Some s'"
    and abs: "tx_get_blob s' = (\<lambda>d. if d \<in> set (map fst (filter (lost_copy ''blobs'' E i f') (blobs ?s)))
        then row_step (now Blob_Kind d) (Unstore i) (tx_get_blob ?s d) else tx_get_blob ?s d)"
      "tx_get_manifest s' = (\<lambda>d. if d \<in> set (map fst (filter (lost_copy ''manifests'' E i f') (manifests ?s)))
        then row_step (now Manifest_Kind d) (Unstore i) (tx_get_manifest ?s d) else tx_get_manifest ?s d)"
      "bt_get (tags s') = bt_get (tags ?s)"
    by (cases "apply_actions fxs ?s") (simp_all add: abs_db_def)
  have "corrected (path_exists (blob_file (root E) d) f') i (get_blob st d) (tx_get_blob s' d)" for d
    using unstore_corrected [OF wf(1), of "''blobs''" E d f' i "now Blob_Kind d"]
    unfolding abs get_blob_def tx_get_blob_def .
  moreover have "corrected (path_exists (manifest_file (root E) d) f') i (get_manifest st d) (tx_get_manifest s' d)" for d
    using unstore_corrected [OF wf(2), of "''manifests''" E d f' i "now Manifest_Kind d"]
    unfolding abs get_manifest_def tx_get_manifest_def .
  ultimately show ?thesis using s' abs(3) by (auto simp: get_tag_def)
qed

definition lost_store :: registry_store where
  "lost_store = new_store 1 (empty_db\<lparr>blobs := [(a64, orphan_row)]\<rparr>)"

lemma lost_store_wf: "db_wf (sm_db lost_store)"
  by (auto simp: lost_store_def new_store_def db_wf_def empty_db_def bt_wf_def orphan_row_def row_wf_def
      tx_get_blob_def tx_get_manifest_def split: if_splits)

lemma lost_store_run:
  "\<exists>f' fxs. fsck sample_codec sample_env sample_orders 1 (\<lambda>_ _. 0) True (export_registry lost_store) empty_fs =
     Some (f', Some fxs, [])"
proof -
  obtain f where loc: "get_blob_path (\<lambda>_. True) [''var''] a64 empty_fs = Some (blob_file [''var''] a64, f)"
    using empty_fs_create by (auto simp: get_blob_path_hex)
  then have "\<not> path_exists (blob_file [''var''] a64) f"
    using blob_layout.locate_exists(2) [OF a64_hex loc, of "''blobs''" a64]
    by (simp add: path_exists_def empty_fs_def object_path_def Let_def)
  moreover have "sm_db lost_store = empty_db\<lparr>blobs := [(a64, orphan_row)]\<rparr>" by (simp add: lost_store_def new_store_def)
  then have "ib_blobs (export_registry lost_store) = [(a64, orphan_row)]" "ib_manifests (export_registry lost_store) = []"
    using to_serializable_rows [OF lost_store_wf] by (simp_all add: export_registry_def Let_def empty_db_def)
  ultimately show ?thesis using loc by (simp add: fsck_def)
qed

theorem fsck_repairs_witness:
  "\<exists>f' fxs s'. fsck sample_codec sample_env sample_orders 1 (\<lambda>_ _. 0) True (export_registry lost_store) empty_fs =
      Some (f', Some fxs, []) \<and> apply_actions fxs (sm_db lost_store) = Some s'"
proof -
  obtain f' fxs where run: "fsck sample_codec sample_env sample_orders 1 (\<lambda>_ _. 0) True
      (export_registry lost_store) empty_fs = Some (f', Some fxs, [])" using lost_store_run by blast
  have "rows_hex lost_store"
    by (auto simp: rows_hex_def lost_store_def new_store_def get_blob_def get_manifest_def empty_db_def split: if_splits)
  from fsck_repairs [OF lost_store_wf this run] run show ?thesis by blast
qed

end
