(* ===== verification/Client.thy ===== *)
theory Client
  imports Fsck
begin

text \<open>
  \<^verbatim>\<open>src/client.rs\<close>, the client of the cluster's HTTP API, and \<open>send_rpc\<close> of
  \<^verbatim>\<open>src/network/raft_network_impl.rs\<close>. The transport is a parameter: what the \<open>k\<close>-th request of a call
  gets from a URL, \<open>None\<close> for a transport error, a timeout or a reply that does not parse, else the
  \<open>Result\<close> the remote endpoint returned. The loop that looks for the leader counts its own retries
  down, so it always ends.
\<close>

section \<open>Errors and requests\<close>

datatype remote_error = Remote_Forward "u64 option" "string option" | Remote_Other

datatype rpc_error = Network_Error | Remote_Error u64 remote_error

record client =
  leader_id :: u64
  leader_addr :: string

definition new_client :: "u64 \<Rightarrow> string \<Rightarrow> client" where
  "new_client i addr = \<lparr>leader_id = i, leader_addr = addr\<rparr>"

type_synonym 'r transport = "nat \<Rightarrow> string \<Rightarrow> (remote_error + 'r) option"

definition rpc_url :: "string \<Rightarrow> string \<Rightarrow> string" where
  "rpc_url addr uri = ''http://'' @ addr @ ''/'' @ uri"

definition do_send_rpc_to_leader ::
  "'r transport \<Rightarrow> nat \<Rightarrow> string \<Rightarrow> client \<Rightarrow> rpc_error + 'r" where
  "do_send_rpc_to_leader net k uri cl =
     (case net k (rpc_url (leader_addr cl) uri) of
        None \<Rightarrow> Inl Network_Error
      | Some (Inl e) \<Rightarrow> Inl (Remote_Error (leader_id cl) e)
      | Some (Inr x) \<Rightarrow> Inr x)"

text \<open>The node to forward to, if the error names both its id and its address.\<close>

definition forward_to_leader :: "rpc_error \<Rightarrow> (u64 \<times> string) option" where
  "forward_to_leader e =
     (case e of Remote_Error _ (Remote_Forward (Some i) (Some a)) \<Rightarrow> Some (i, a) | _ \<Rightarrow> None)"

text \<open>The loop: \<open>n_retry\<close> counts down, \<open>k\<close> counts the requests.\<close>

function send_rpc_loop ::
  "'r transport \<Rightarrow> string \<Rightarrow> nat \<Rightarrow> nat \<Rightarrow> client \<Rightarrow> client \<times> (rpc_error + 'r)" where
  "send_rpc_loop net uri n_retry k cl =
     (case do_send_rpc_to_leader net k uri cl of
        Inr x \<Rightarrow> (cl, Inr x)
      | Inl e \<Rightarrow>
          (case forward_to_leader e of
             None \<Rightarrow> (cl, Inl e)
           | Some (i, a) \<Rightarrow>
               (let cl = cl\<lparr>leader_id := i, leader_addr := a\<rparr>
                in if 0 < n_retry - 1 then send_rpc_loop net uri (n_retry - 1) (Suc k) cl
                   else (cl, Inl e))))"
  by pat_completeness auto
termination by (relation "measure (\<lambda>(net, uri, n, k, cl). n)") auto

declare send_rpc_loop.simps [simp del]

definition send_rpc_to_leader ::
  "'r transport \<Rightarrow> string \<Rightarrow> client \<Rightarrow> client \<times> (rpc_error + 'r)" where
  "send_rpc_to_leader net uri cl = send_rpc_loop net uri 3 0 cl"

text \<open>The calls of the API: their endpoint, and whether they look for the leader.\<close>

datatype client_call =
  Call_Write | Call_Read | Call_Consistent_Read | Call_Init | Call_Add_Learner | Call_Change_Membership
| Call_Import | Call_Export | Call_Metrics

fun call_uri :: "client_call \<Rightarrow> string" where
  "call_uri Call_Write = ''write''"
| "call_uri Call_Read = ''read''"
| "call_uri Call_Consistent_Read = ''consistent_read''"
| "call_uri Call_Init = ''init''"
| "call_uri Call_Add_Learner = ''add-learner''"
| "call_uri Call_Change_Membership = ''change-membership''"
| "call_uri Call_Import = ''import''"
| "call_uri Call_Export = ''export''"
| "call_uri Call_Metrics = ''metrics''"

definition client_request ::
  "'r transport \<Rightarrow> client_call \<Rightarrow> client \<Rightarrow> client \<times> (rpc_error + 'r)" where
  "client_request net c cl =
     (if c \<in> {Call_Read, Call_Consistent_Read, Call_Init, Call_Metrics}
      then (cl, do_send_rpc_to_leader net 0 (call_uri c) cl)
      else send_rpc_to_leader net (call_uri c) cl)"

text \<open>The raft network sends one request and never follows a leader.\<close>

definition send_rpc :: "'r transport \<Rightarrow> u64 \<Rightarrow> string \<Rightarrow> string \<Rightarrow> rpc_error + 'r" where
  "send_rpc net target addr uri =
     (case net 0 (rpc_url addr uri) of
        None \<Rightarrow> Inl Network_Error
      | Some (Inl e) \<Rightarrow> Inl (Remote_Error target e)
      | Some (Inr x) \<Rightarrow> Inr x)"

section \<open>Following the leader\<close>

text \<open>The nodes a call tries: each but the first was named by the one before.\<close>

inductive chain :: "'r transport \<Rightarrow> string \<Rightarrow> nat \<Rightarrow> client list \<Rightarrow> bool" for net uri where
  single: "chain net uri k [cl]"
| forwarded: "do_send_rpc_to_leader net k uri cl = Inl e \<Longrightarrow>
    forward_to_leader e = Some (leader_id cl', leader_addr cl') \<Longrightarrow>
    chain net uri (Suc k) (cl' # cls) \<Longrightarrow> chain net uri k (cl # cl' # cls)"

lemma client_eqI: "leader_id c = leader_id d \<Longrightarrow> leader_addr c = leader_addr d \<Longrightarrow> c = (d :: client)"
  by (cases c; cases d) simp

text \<open>What a call returns, against the nodes it tried.\<close>

definition follows ::
  "'r transport \<Rightarrow> string \<Rightarrow> nat \<Rightarrow> nat \<Rightarrow> client \<Rightarrow> client \<times> (rpc_error + 'r) \<Rightarrow> client list \<Rightarrow> bool" where
  "follows net uri n k cl out cls \<longleftrightarrow>
     cls \<noteq> [] \<and> hd cls = cl \<and> length cls \<le> n \<and> chain net uri k cls \<and>
     snd out = do_send_rpc_to_leader net (k + length cls - 1) uri (last cls) \<and>
     (case snd out of
        Inr x \<Rightarrow> fst out = last cls
      | Inl e \<Rightarrow>
          (case forward_to_leader e of
             None \<Rightarrow> fst out = last cls
           | Some (i, a) \<Rightarrow> length cls = n \<and> fst out = \<lparr>leader_id = i, leader_addr = a\<rparr>))"

lemma follows_now:
  assumes "0 < n" and "snd out = do_send_rpc_to_leader net k uri cl"
    and "\<And>x. snd out = Inr x \<Longrightarrow> fst out = cl"
    and "\<And>e. snd out = Inl e \<Longrightarrow> forward_to_leader e = None \<Longrightarrow> fst out = cl"
    and "\<And>e i a. snd out = Inl e \<Longrightarrow> forward_to_leader e = Some (i, a) \<Longrightarrow>
      n = 1 \<and> fst out = \<lparr>leader_id = i, leader_addr = a\<rparr>"
  shows "follows net uri n k cl out [cl]"
  using assms by (auto simp: follows_def intro: chain.single split: sum.splits option.splits)

lemma follows_later:
  assumes "follows net uri n (Suc k) cl' out cls" and "do_send_rpc_to_leader net k uri cl = Inl e"
    and "forward_to_leader e = Some (leader_id cl', leader_addr cl')"
  shows "follows net uri (Suc n) k cl out (cl # cls)"
proof -
  obtain cls' where "cls = cl' # cls'" using assms(1) by (cases cls) (auto simp: follows_def)
  then show ?thesis using assms chain.forwarded [OF assms(2,3)]
    by (auto simp: follows_def split: sum.splits option.splits)
qed

lemma send_rpc_loop_follows:
  "0 < n \<Longrightarrow> \<exists>cls. follows net uri n k cl (send_rpc_loop net uri n k cl) cls"
proof (induction net uri n k cl rule: send_rpc_loop.induct)
  case (1 net uri n k cl)
  show ?case
  proof (cases "\<exists>e i a. do_send_rpc_to_leader net k uri cl = Inl e \<and> forward_to_leader e = Some (i, a) \<and> 0 < n - 1")
    case True
    then obtain e i a where e: "do_send_rpc_to_leader net k uri cl = Inl e" "forward_to_leader e = Some (i, a)" "0 < n - 1"
      by blast
    let ?cl = "cl\<lparr>leader_id := i, leader_addr := a\<rparr>"
    have run: "send_rpc_loop net uri n k cl = send_rpc_loop net uri (n - 1) (Suc k) ?cl"
      using e by (subst send_rpc_loop.simps) simp
    obtain cls where cls: "follows net uri (n - 1) (Suc k) ?cl (send_rpc_loop net uri (n - 1) (Suc k) ?cl) cls"
      using 1(1) [OF e(1,2) refl refl e(3) e(3)] by blast
    have "forward_to_leader e = Some (leader_id ?cl, leader_addr ?cl)" using e(2) by simp
    from follows_later [OF cls e(1) this] e(3) show ?thesis unfolding run by (intro exI [of _ "cl # cls"]) simp
  next
    case False
    have run: "send_rpc_loop net uri n k cl =
        (case do_send_rpc_to_leader net k uri cl of
           Inr x \<Rightarrow> (cl, Inr x)
         | Inl e \<Rightarrow> (case forward_to_leader e of
             None \<Rightarrow> (cl, Inl e) | Some (i, a) \<Rightarrow> (cl\<lparr>leader_id := i, leader_addr := a\<rparr>, Inl e)))"
      using False by (subst send_rpc_loop.simps) (auto split: sum.splits option.splits)
    have "follows net uri n k cl (send_rpc_loop net uri n k cl) [cl]"
      by (rule follows_now) (use 1(2) False in \<open>auto simp: run intro: client_eqI split: sum.splits option.splits\<close>)
    then show ?thesis by blast
  qed
qed

text \<open>
  C35. A call to the leader makes at most three requests. Each goes to the node named by the reply to
  the one before, and the result is the reply to the last. It is a forwarding error only after three
  requests, and then the client has learnt the node it was forwarded to, so a later call starts
  there; otherwise the client keeps the node that answered.
\<close>

theorem send_rpc_to_leader_follows:
  "\<exists>cls. follows net uri 3 0 cl (send_rpc_to_leader net uri cl) cls"
  unfolding send_rpc_to_leader_def by (rule send_rpc_loop_follows) simp

end
