(* ===== verification/Webhook.thy ===== *)
theory Webhook
  imports Client
begin

text \<open>
  \<^verbatim>\<open>src/webhook.rs\<close>: the worker that posts an event to every webhook whose matcher accepts it. The
  regular expressions, the HTTP client and the printed form of a status are parameters.
\<close>

section \<open>The worker\<close>

record webhook =
  hook_url :: string
  matcher :: "string \<Rightarrow> bool"

text \<open>\<open>posts\<close> are the requests made, in order; \<open>webhooks_total\<close> counts them by status.\<close>

record worker =
  posts :: "(string \<times> json) list"
  webhooks_total :: "string \<Rightarrow> nat"

definition event_payload :: "event \<Rightarrow> json" where
  "event_payload e =
     JObj [(''id'', JStr ''''), (''timestamp'', JStr ''2016-03-09T14:44:26.402973972-08:00''),
       (''action'', JStr ''push''),
       (''target'', JObj [(''mediaType'', JStr (ev_content_type e)), (''size'', JNum 708),
          (''digest'', JStr (digest_to_string (ev_digest e))), (''length'', JNum 708),
          (''repository'', JStr (repository_name_to_string (ev_repository e))),
          (''url'', JStr (''/v2/'' @ repository_name_to_string (ev_repository e) @ ''/manifests/'' @
             digest_to_string (ev_digest e))),
          (''tag'', JStr (ev_tag e))]),
       (''request'', JObj [(''id'', JStr ''''), (''addr'', JStr ''192.168.64.11:42961''),
          (''host'', JStr ''192.168.100.227:5000''), (''method'', JStr ''PUT''),
          (''useragent'', JStr ''curl/7.38.0'')]),
       (''actor'', JObj []),
       (''source'', JObj [(''addr'', JStr ''xtal.local:5000''),
          (''instanceID'', JStr ''a53db899-3b4b-4a62-a067-8dd013beaca4'')])]"

definition match_target :: "event \<Rightarrow> string" where
  "match_target e = repository_name_to_string (ev_repository e) @ '':'' @ ev_tag e"

text \<open>\<open>answer k\<close> is what the \<open>k\<close>-th post gets: the printed status, or \<open>None\<close> for an error.\<close>

definition post_hook ::
  "(nat \<Rightarrow> string option) \<Rightarrow> event \<Rightarrow> webhook \<Rightarrow> worker \<Rightarrow> worker" where
  "post_hook answer e h w =
     (if \<not> matcher h (match_target e) then w
      else let label = (case answer (length (posts w)) of Some s \<Rightarrow> s | None \<Rightarrow> ''000'')
        in w\<lparr>posts := posts w @ [(hook_url h, event_payload e)],
             webhooks_total := (webhooks_total w)(label := Suc (webhooks_total w label))\<rparr>)"

definition post_event ::
  "(nat \<Rightarrow> string option) \<Rightarrow> webhook list \<Rightarrow> event \<Rightarrow> worker \<Rightarrow> worker" where
  "post_event answer hooks e w = fold (post_hook answer e) hooks w"

text \<open>The worker receives until the queue is closed.\<close>

definition webhook_worker ::
  "(nat \<Rightarrow> string option) \<Rightarrow> webhook list \<Rightarrow> event list \<Rightarrow> worker \<Rightarrow> worker" where
  "webhook_worker answer hooks es w = fold (post_event answer hooks) es w"

definition idle_worker :: worker where
  "idle_worker = \<lparr>posts = [], webhooks_total = (\<lambda>_. 0)\<rparr>"

section \<open>What is posted\<close>

definition hooks_for :: "webhook list \<Rightarrow> event \<Rightarrow> (string \<times> json) list" where
  "hooks_for hooks e = map (\<lambda>h. (hook_url h, event_payload e)) [h \<leftarrow> hooks. matcher h (match_target e)]"

lemma post_event_posts: "posts (post_event answer hooks e w) = posts w @ hooks_for hooks e"
  unfolding post_event_def
  by (induction hooks arbitrary: w) (auto simp: post_hook_def hooks_for_def Let_def)

lemma webhook_worker_posts:
  "posts (webhook_worker answer hooks es w) = posts w @ concat (map (hooks_for hooks) es)"
  unfolding webhook_worker_def by (induction es arbitrary: w) (simp_all add: post_event_posts)

text \<open>The counters add up to the posts, over any finite set of labels that holds those seen.\<close>

definition counted :: "(nat \<Rightarrow> string option) \<Rightarrow> worker \<Rightarrow> bool" where
  "counted answer w \<longleftrightarrow> (\<forall>l. webhooks_total w l =
     length [k \<leftarrow> [0..<length (posts w)]. (case answer k of Some s \<Rightarrow> s | None \<Rightarrow> ''000'') = l])"

lemma post_hook_counted: "counted answer w \<Longrightarrow> counted answer (post_hook answer e h w)"
  by (auto simp: counted_def post_hook_def Let_def)

lemma webhook_worker_counted: "counted answer w \<Longrightarrow> counted answer (webhook_worker answer hooks es w)"
proof -
  have event: "counted answer w \<Longrightarrow> counted answer (post_event answer hooks e w)" for e w
    unfolding post_event_def by (induction hooks arbitrary: w) (simp_all add: post_hook_counted)
  show "counted answer w \<Longrightarrow> counted answer (webhook_worker answer hooks es w)"
    unfolding webhook_worker_def by (induction es arbitrary: w) (simp_all add: event)
qed

text \<open>
  Every queued event is posted exactly once to every webhook whose matcher accepts
  \<open>repository:tag\<close>, in the order of the queue and of the configuration, whatever the answers are; a
  failed post is not repeated. The counter of a status counts the posts answered with it.
\<close>

theorem webhooks_delivered:
  "posts (webhook_worker answer hooks es idle_worker) =
     concat (map (\<lambda>e. map (\<lambda>h. (hook_url h, event_payload e)) [h \<leftarrow> hooks. matcher h (match_target e)]) es) \<and>
   counted answer (webhook_worker answer hooks es idle_worker)"
proof
  show "posts (webhook_worker answer hooks es idle_worker) =
      concat (map (\<lambda>e. map (\<lambda>h. (hook_url h, event_payload e)) [h \<leftarrow> hooks. matcher h (match_target e)]) es)"
    by (simp add: webhook_worker_posts idle_worker_def hooks_for_def [abs_def])
  show "counted answer (webhook_worker answer hooks es idle_worker)"
    by (rule webhook_worker_counted) (simp add: counted_def idle_worker_def)
qed

end
