(* ===== verification/Router.thy ===== *)
theory Router
  imports Webhook
begin

text \<open>
  The registry's router: the services \<^verbatim>\<open>src/lib.rs\<close> registers, the route attributes of the handlers,
  and the typed values actix extracts from a request before a handler runs.

  A route is a list of pieces; matching is what the regular expression of a route does: the first
  variable takes as much as it can. The services are tried in the order they are registered. The
  path is the one after percent-decoding, below the scope \<^verbatim>\<open>/v2\<close>.
\<close>

section \<open>Routes\<close>

datatype http_method = Get | Head | Put | Post | Patch | Delete

datatype piece = is_Lit: Lit string | Repository | Segment | Sha256

datatype endpoint =
  Upload_Delete | Upload_Get | Upload_Patch | Upload_Post | Upload_Put
| Blob_Head | Blob_Get | Blob_Delete
| Manifest_Put | Manifest_Head | Manifest_Head_Tag | Manifest_Get | Manifest_Get_Tag
| Manifest_Delete | Manifest_Delete_Tag
| Tags_List | Root_Get | Root_Head

text \<open>What a variable may stand for: \<^verbatim>\<open>[^{}]+\<close>, \<^verbatim>\<open>[^/]+\<close> and \<^verbatim>\<open>sha256:.*\<close>.\<close>

fun captures :: "piece \<Rightarrow> string \<Rightarrow> bool" where
  "captures (Lit l) s = (s = l)"
| "captures Repository s = (s \<noteq> [] \<and> CHR ''{'' \<notin> set s \<and> CHR ''}'' \<notin> set s)"
| "captures Segment s = (s \<noteq> [] \<and> CHR ''/'' \<notin> set s)"
| "captures Sha256 s = starts_with ''sha256:'' s"

text \<open>What the variables of a match stand for; each takes the longest string that leaves a match.\<close>

fun match_route :: "piece list \<Rightarrow> string \<Rightarrow> string list option" where
  "match_route [] s = (if s = [] then Some [] else None)"
| "match_route (p # ps) s =
     (case [k \<leftarrow> rev [0..<Suc (length s)]. captures p (take k s) \<and> match_route ps (drop k s) \<noteq> None] of
        [] \<Rightarrow> None
      | k # _ \<Rightarrow> map_option (\<lambda>vs. if is_Lit p then vs else take k s # vs) (match_route ps (drop k s)))"

declare match_route.simps(2) [simp del]

abbreviation under_repository :: "string \<Rightarrow> piece list \<Rightarrow> piece list" where
  "under_repository l ps \<equiv> Lit ''/'' # Repository # Lit l # ps"

definition uploads_route :: "piece list" where
  "uploads_route = under_repository ''/blobs/uploads/'' [Segment]"

definition blob_route :: "piece list" where
  "blob_route = under_repository ''/blobs/'' [Segment]"

definition manifest_route :: "piece list" where
  "manifest_route = under_repository ''/manifests/'' [Sha256]"

definition tag_route :: "piece list" where
  "tag_route = under_repository ''/manifests/'' [Segment]"

definition registry_api :: "(http_method \<times> piece list \<times> endpoint) list" where
  "registry_api =
     [(Delete, uploads_route, Upload_Delete), (Get, uploads_route, Upload_Get),
      (Patch, uploads_route, Upload_Patch),
      (Post, under_repository ''/blobs/uploads'' [], Upload_Post), (Put, uploads_route, Upload_Put),
      (Head, blob_route, Blob_Head), (Get, blob_route, Blob_Get), (Delete, blob_route, Blob_Delete),
      (Put, tag_route, Manifest_Put),
      (Head, manifest_route, Manifest_Head), (Head, tag_route, Manifest_Head_Tag),
      (Get, manifest_route, Manifest_Get), (Get, tag_route, Manifest_Get_Tag),
      (Delete, manifest_route, Manifest_Delete), (Delete, tag_route, Manifest_Delete_Tag),
      (Get, under_repository ''/tags/list'' [], Tags_List),
      (Get, [], Root_Get), (Head, [], Root_Head)]"

text \<open>The endpoint of a request and what its variables stand for; \<open>None\<close> is a 404.\<close>

fun first_route ::
  "(http_method \<times> piece list \<times> 'e) list \<Rightarrow> http_method \<Rightarrow> string \<Rightarrow> ('e \<times> string list) option" where
  "first_route [] m s = None"
| "first_route ((m', ps, e) # rs) m s =
     (if m' = m \<and> match_route ps s \<noteq> None then Some (e, the (match_route ps s)) else first_route rs m s)"

text \<open>
  \<open>NormalizePath::trim\<close> makes one slash of several and takes slashes off the end; the scope takes \<^verbatim>\<open>/v2\<close> off the
  front.
\<close>

fun merge_slashes :: "string \<Rightarrow> string" where
  "merge_slashes (c # c' # s) =
     (if c = CHR ''/'' \<and> c' = CHR ''/'' then merge_slashes (c' # s) else c # merge_slashes (c' # s))"
| "merge_slashes s = s"

definition trim_slashes :: "string \<Rightarrow> string" where
  "trim_slashes s = rev (dropWhile (\<lambda>c. c = CHR ''/'') (rev s))"

definition route :: "http_method \<Rightarrow> string \<Rightarrow> (endpoint \<times> string list) option" where
  "route m uri =
     (let s = trim_slashes (merge_slashes uri)
      in if starts_with ''/v2'' s \<and> (drop 3 s = [] \<or> hd (drop 3 s) = CHR ''/'')
         then first_route registry_api m (drop 3 s) else None)"

section \<open>What a match means\<close>

fun fits :: "piece list \<Rightarrow> string list \<Rightarrow> bool" where
  "fits [] vs = (vs = [])"
| "fits (Lit l # ps) vs = fits ps vs"
| "fits (p # ps) vs = (case vs of [] \<Rightarrow> False | v # vs \<Rightarrow> captures p v \<and> fits ps vs)"

fun fill :: "piece list \<Rightarrow> string list \<Rightarrow> string" where
  "fill [] vs = []"
| "fill (Lit l # ps) vs = l @ fill ps vs"
| "fill (p # ps) vs = (case vs of [] \<Rightarrow> [] | v # vs \<Rightarrow> v @ fill ps vs)"

lemma filter_Cons_holds: "filter P xs = k # ks \<Longrightarrow> P k"
  by (meson filter_eq_ConsD)

lemma filter_exists_Cons: "x \<in> set xs \<Longrightarrow> P x \<Longrightarrow> \<exists>k ks. filter P xs = k # ks"
  by (cases "filter P xs") (auto simp: filter_empty_conv)

lemma match_route_Cons:
  assumes "match_route (p # ps) s = Some vs"
  obtains k ws where "captures p (take k s)" and "match_route ps (drop k s) = Some ws"
    and "vs = (if is_Lit p then ws else take k s # ws)"
proof -
  let ?ks = "[k \<leftarrow> rev [0..<Suc (length s)]. captures p (take k s) \<and> match_route ps (drop k s) \<noteq> None]"
  obtain k ks where ks: "?ks = k # ks" using assms by (cases ?ks) (simp_all add: match_route.simps(2) del: upt_Suc)
  have "vs = (if is_Lit p then the (match_route ps (drop k s)) else take k s # the (match_route ps (drop k s)))"
    using assms ks by (auto simp: match_route.simps(2) simp del: upt_Suc)
  then show thesis using that filter_Cons_holds [OF ks] by auto
qed

lemma match_route_sound: "match_route ps s = Some vs \<Longrightarrow> fits ps vs \<and> fill ps vs = s"
proof (induction ps arbitrary: s vs)
  case (Cons p ps)
  then obtain k ws where k: "captures p (take k s)" "match_route ps (drop k s) = Some ws"
    "vs = (if is_Lit p then ws else take k s # ws)"
    using match_route_Cons by metis
  then have ws: "fits ps ws" "fill ps ws = drop k s" using Cons.IH by auto
  obtain c where "captures p c" "s = c @ fill ps ws" "vs = (if is_Lit p then ws else c # ws)"
    using k(1,3) ws(2) by (metis append_take_drop_id)
  then show ?case using ws(1) by (cases p) simp_all
qed (simp split: if_splits)

lemma match_route_complete: "fits ps vs \<Longrightarrow> match_route ps (fill ps vs) \<noteq> None"
proof (induction ps arbitrary: vs)
  case (Cons p ps)
  define s where "s = fill (p # ps) vs"
  obtain c ws where c: "captures p c" "fits ps ws" "s = c @ fill ps ws"
    using Cons.prems by (cases p) (auto simp: s_def split: list.splits)
  have "length c \<in> set (rev [0..<Suc (length s)])" using c(3) by auto
  moreover have "captures p (take (length c) s) \<and> match_route ps (drop (length c) s) \<noteq> None"
    using c Cons.IH by simp
  ultimately obtain k ks where
    ks: "[k \<leftarrow> rev [0..<Suc (length s)]. captures p (take k s) \<and> match_route ps (drop k s) \<noteq> None] = k # ks"
    using filter_exists_Cons
      [of "length c" "rev [0..<Suc (length s)]" "\<lambda>k. captures p (take k s) \<and> match_route ps (drop k s) \<noteq> None"]
    by blast
  then have "match_route ps (drop k s) \<noteq> None" using filter_Cons_holds [OF ks] by simp
  then show ?case using ks unfolding s_def [symmetric] by (simp add: match_route.simps(2) del: upt_Suc)
qed simp

lemma match_route_iff: "match_route ps s \<noteq> None \<longleftrightarrow> (\<exists>vs. fits ps vs \<and> fill ps vs = s)"
  using match_route_sound match_route_complete by blast

text \<open>A match is decided when there is at most one way to fill the pieces.\<close>

lemma match_route_unique:
  assumes "fits ps vs" and "\<And>ws. fits ps ws \<Longrightarrow> fill ps ws = fill ps vs \<Longrightarrow> ws = vs"
  shows "match_route ps (fill ps vs) = Some vs"
proof -
  obtain ws where ws: "match_route ps (fill ps vs) = Some ws" using match_route_complete [OF assms(1)] by auto
  then show ?thesis using match_route_sound [OF ws] assms(2) by simp
qed

section \<open>Routes do not overlap\<close>

text \<open>A name the registry's clients may use: no braces and no colons, and no empty component.\<close>

definition plain_name :: "string \<Rightarrow> bool" where
  "plain_name r \<longleftrightarrow> r \<noteq> [] \<and> set r \<inter> {CHR ''{'', CHR ''}'', CHR '':''} = {} \<and>
     hd r \<noteq> CHR ''/'' \<and> last r \<noteq> CHR ''/'' \<and> merge_slashes r = r"

text \<open>Where the last segment begins is determined.\<close>

lemma last_segment:
  assumes "a @ CHR ''/'' # b = a' @ CHR ''/'' # b'" and "CHR ''/'' \<notin> set b" and "CHR ''/'' \<notin> set b'"
  shows "a = a' \<and> b = b'"
  using assms rsplit_once_Some_iff [of "CHR ''/''"] by (metis option.inject prod.inject)

lemma fits_segment: "fits (under_repository l [Segment]) vs \<longleftrightarrow>
    (\<exists>r x. vs = [r, x] \<and> captures Repository r \<and> captures Segment x)"
  by (auto split: list.splits)

lemma fits_end: "fits (under_repository l []) vs \<longleftrightarrow> (\<exists>r. vs = [r] \<and> captures Repository r)"
  by (auto split: list.splits)

lemma fits_sha256: "fits (under_repository l [Sha256]) vs \<longleftrightarrow>
    (\<exists>r x. vs = [r, x] \<and> captures Repository r \<and> captures Sha256 x)"
  by (auto split: list.splits)

lemma match_segment:
  assumes "captures Repository r" and "captures Segment x"
  shows "match_route (under_repository (l @ ''/'') [Segment]) (''/'' @ r @ l @ ''/'' @ x) = Some [r, x]"
proof -
  have "match_route (under_repository (l @ ''/'') [Segment]) (fill (under_repository (l @ ''/'') [Segment]) [r, x]) = Some [r, x]"
  proof (rule match_route_unique)
    show "fits (under_repository (l @ ''/'') [Segment]) [r, x]" using assms by simp
    fix ws assume "fits (under_repository (l @ ''/'') [Segment]) ws"
      and eq: "fill (under_repository (l @ ''/'') [Segment]) ws = fill (under_repository (l @ ''/'') [Segment]) [r, x]"
    then obtain r' x' where ws: "ws = [r', x']" "captures Segment x'" unfolding fits_segment by blast
    have "(r' @ l) @ CHR ''/'' # x' = (r @ l) @ CHR ''/'' # x" using eq ws(1) by simp
    from last_segment [OF this] show "ws = [r, x]" using ws assms(2) by simp
  qed
  then show ?thesis by simp
qed

text \<open>When a route that ends in a segment matches.\<close>

lemma match_segment_iff:
  assumes "captures Segment x"
  shows "match_route (under_repository (l @ ''/'') [Segment]) (''/'' @ s @ ''/'' @ x) \<noteq> None \<longleftrightarrow>
    (\<exists>r. captures Repository r \<and> s = r @ l)"
proof
  assume "match_route (under_repository (l @ ''/'') [Segment]) (''/'' @ s @ ''/'' @ x) \<noteq> None"
  then obtain vs where vs: "fits (under_repository (l @ ''/'') [Segment]) vs"
      "fill (under_repository (l @ ''/'') [Segment]) vs = ''/'' @ s @ ''/'' @ x"
    unfolding match_route_iff by blast
  then obtain r x' where r: "vs = [r, x']" "captures Repository r" "captures Segment x'"
    unfolding fits_segment by blast
  have "(r @ l) @ CHR ''/'' # x' = s @ CHR ''/'' # x" using vs(2) r(1) by simp
  from last_segment [OF this] show "\<exists>r. captures Repository r \<and> s = r @ l" using r assms by auto
next
  assume "\<exists>r. captures Repository r \<and> s = r @ l"
  then show "match_route (under_repository (l @ ''/'') [Segment]) (''/'' @ s @ ''/'' @ x) \<noteq> None"
    using match_segment [OF _ assms] by force
qed

lemma match_end_iff:
  "match_route (under_repository l []) (''/'' @ s) \<noteq> None \<longleftrightarrow> (\<exists>r. captures Repository r \<and> s = r @ l)"
  unfolding match_route_iff fits_end by auto

lemma match_end:
  assumes "captures Repository r"
  shows "match_route (under_repository l []) (''/'' @ r @ l) = Some [r]"
proof -
  have "match_route (under_repository l []) (fill (under_repository l []) [r]) = Some [r]"
    by (rule match_route_unique) (use assms in \<open>auto split: list.splits\<close>)
  then show ?thesis by simp
qed

text \<open>A digest route needs a colon; its digest is determined when the name has none.\<close>

lemma match_sha256_colon:
  assumes "CHR '':'' \<notin> set s"
  shows "match_route (under_repository l [Sha256]) s = None"
proof (rule ccontr)
  assume "match_route (under_repository l [Sha256]) s \<noteq> None"
  then obtain vs where vs: "fits (under_repository l [Sha256]) vs" "fill (under_repository l [Sha256]) vs = s"
    unfolding match_route_iff by blast
  then show False using assms unfolding fits_sha256 by (auto simp: starts_with_iff)
qed

lemma match_sha256:
  assumes "captures Repository r" and "CHR '':'' \<notin> set r" and "CHR ''/'' \<notin> set y"
  shows "match_route manifest_route (''/'' @ r @ ''/manifests/'' @ ''sha256:'' @ y) = Some [r, ''sha256:'' @ y]"
proof -
  have "match_route manifest_route (fill manifest_route [r, ''sha256:'' @ y]) = Some [r, ''sha256:'' @ y]"
  proof (rule match_route_unique)
    show "fits manifest_route [r, ''sha256:'' @ y]"
      using assms(1) by (simp add: manifest_route_def starts_with_def)
    fix ws assume ws: "fits manifest_route ws" "fill manifest_route ws = fill manifest_route [r, ''sha256:'' @ y]"
    then obtain r' y' where r': "ws = [r', ''sha256:'' @ y']" "captures Repository r'"
      unfolding manifest_route_def fits_sha256 by (auto simp: starts_with_iff)
    have eq: "r' @ ''/manifests/sha256:'' @ y' = r @ ''/manifests/sha256:'' @ y"
      using ws(2) r'(1) by (simp add: manifest_route_def)
    then obtain us where split: "r' = r @ us \<and> us @ ''/manifests/sha256:'' @ y' = ''/manifests/sha256:'' @ y \<or>
        r' @ us = r \<and> ''/manifests/sha256:'' @ y' = us @ ''/manifests/sha256:'' @ y"
      using append_eq_append_conv2 by blast
    have "us = []"
      using split
    proof
      assume us: "r' = r @ us \<and> us @ ''/manifests/sha256:'' @ y' = ''/manifests/sha256:'' @ y"
      then have "count_list (us @ ''/manifests/sha256:'' @ y') (CHR ''/'') = count_list (''/manifests/sha256:'' @ y) (CHR ''/'')"
        by simp
      then have n: "count_list us (CHR ''/'') = 0" "count_list y' (CHR ''/'') = 0"
        using assms(3) by (auto simp: count_list_0_iff)
      then show "us = []" using us by (cases us) (auto simp: count_list_0_iff)
    next
      assume us: "r' @ us = r \<and> ''/manifests/sha256:'' @ y' = us @ ''/manifests/sha256:'' @ y"
      then have "CHR '':'' \<notin> set us" using assms(2) by auto
      then show "us = []" using us by (cases us) (auto simp: append_eq_Cons_conv Cons_eq_append_conv)
    qed
    then have "r' = r" using split by auto
    then show "ws = [r, ''sha256:'' @ y]" using eq r'(1) by simp
  qed
  then show ?thesis by (simp add: manifest_route_def)
qed

section \<open>Paths that need no normalising\<close>

lemma merge_slashes_append:
  "merge_slashes a = a \<Longrightarrow> merge_slashes b = b \<Longrightarrow> a = [] \<or> last a \<noteq> CHR ''/'' \<or> b = [] \<or> hd b \<noteq> CHR ''/'' \<Longrightarrow>
   merge_slashes (a @ b) = a @ b"
proof (induction a rule: merge_slashes.induct)
  case (1 c c' s)
  have len: "length (merge_slashes t) \<le> length t" for t by (induction t rule: merge_slashes.induct) auto
  have no: "\<not> (c = CHR ''/'' \<and> c' = CHR ''/'')"
    using "1.prems"(1) len [of "c' # s"] by (metis impossible_Cons merge_slashes.simps(1))
  then show ?case using 1 by auto
qed (simp, cases b, auto)

lemma merge_slashes_segment: "CHR ''/'' \<notin> set x \<Longrightarrow> merge_slashes x = x"
  by (induction x rule: merge_slashes.induct) auto

lemma trim_slashes_id: "s \<noteq> [] \<Longrightarrow> last s \<noteq> CHR ''/'' \<Longrightarrow> trim_slashes s = s"
  by (cases s rule: rev_cases) (auto simp: trim_slashes_def)

text \<open>A path below a repository: the literal of the route, then a segment or nothing.\<close>

lemma route_below:
  assumes "plain_name r" and "merge_slashes l = l" and "l \<noteq> []" and "x = [] \<longrightarrow> last l \<noteq> CHR ''/''"
    and "CHR ''/'' \<notin> set x"
  shows "route m (''/v2/'' @ r @ l @ x) = first_route registry_api m (''/'' @ r @ l @ x)"
proof -
  have r: "r \<noteq> []" "merge_slashes r = r" "last r \<noteq> CHR ''/''" "hd r \<noteq> CHR ''/''"
    using assms(1) by (simp_all add: plain_name_def)
  have lx: "merge_slashes (l @ x) = l @ x"
  proof (rule merge_slashes_append [OF assms(2) merge_slashes_segment [OF assms(5)]])
    show "l = [] \<or> last l \<noteq> CHR ''/'' \<or> x = [] \<or> hd x \<noteq> CHR ''/''"
      using assms(5) by (cases x) auto
  qed
  have "merge_slashes (r @ l @ x) = r @ l @ x" by (rule merge_slashes_append [OF r(2) lx]) (use r in blast)
  then have "merge_slashes (''/v2/'' @ (r @ l @ x)) = ''/v2/'' @ (r @ l @ x)"
    by (rule merge_slashes_append [rotated]) (use r in auto)
  moreover have "last (''/v2/'' @ r @ l @ x) \<noteq> CHR ''/''"
    using assms(3-5) by (cases "x = []") (auto simp: last_append dest: last_in_set)
  ultimately have "trim_slashes (merge_slashes (''/v2/'' @ r @ l @ x)) = ''/v2/'' @ r @ l @ x"
    using trim_slashes_id by simp
  then show ?thesis by (simp add: route_def starts_with_def)
qed

section \<open>Every endpoint is reached\<close>

fun endpoint_method :: "endpoint \<Rightarrow> http_method" where
  "endpoint_method e =
     (if e \<in> {Upload_Delete, Blob_Delete, Manifest_Delete, Manifest_Delete_Tag} then Delete
      else if e \<in> {Upload_Put, Manifest_Put} then Put
      else if e = Upload_Patch then Patch
      else if e = Upload_Post then Post
      else if e \<in> {Blob_Head, Manifest_Head, Manifest_Head_Tag, Root_Head} then Head
      else Get)"

fun endpoint_uri :: "endpoint \<Rightarrow> string \<Rightarrow> string \<Rightarrow> string" where
  "endpoint_uri e r x =
     (if e \<in> {Root_Get, Root_Head} then ''/v2''
      else ''/v2/'' @ r @
        (if e = Upload_Post then ''/blobs/uploads''
         else if e = Tags_List then ''/tags/list''
         else if e \<in> {Upload_Delete, Upload_Get, Upload_Patch, Upload_Put} then ''/blobs/uploads/'' @ x
         else if e \<in> {Blob_Head, Blob_Get, Blob_Delete} then ''/blobs/'' @ x
         else ''/manifests/'' @ x))"

fun endpoint_values :: "endpoint \<Rightarrow> string \<Rightarrow> string \<Rightarrow> string list" where
  "endpoint_values e r x =
     (if e \<in> {Root_Get, Root_Head} then [] else if e \<in> {Upload_Post, Tags_List} then [r] else [r, x])"

text \<open>A tag has no colon, a digest begins with its algorithm; neither has a slash.\<close>

fun endpoint_segment :: "endpoint \<Rightarrow> string \<Rightarrow> bool" where
  "endpoint_segment e x =
     (if e \<in> {Manifest_Head, Manifest_Get, Manifest_Delete} then \<exists>y. x = ''sha256:'' @ y \<and> CHR ''/'' \<notin> set y
      else if e \<in> {Manifest_Head_Tag, Manifest_Get_Tag, Manifest_Delete_Tag}
      then captures Segment x \<and> CHR '':'' \<notin> set x
      else captures Segment x)"

lemma plain_name_captured: "plain_name r \<Longrightarrow> captures Repository r \<and> CHR '':'' \<notin> set r"
  by (auto simp: plain_name_def)

lemma segment_other:
  assumes "captures Segment x" and "\<And>q. s \<noteq> q @ l"
  shows "match_route (under_repository (l @ ''/'') [Segment]) (''/'' @ s @ ''/'' @ x) = None"
  using match_segment_iff [OF assms(1), of l s] assms(2) by blast

lemma ends_differ:
  "r @ ''/blobs'' \<noteq> q @ ''/blobs/uploads''" "r @ ''/manifests'' \<noteq> q @ ''/blobs/uploads''"
  "r @ ''/manifests'' \<noteq> q @ ''/blobs''" "r @ ''/tags'' \<noteq> q @ ''/blobs/uploads''"
  "r @ ''/tags'' \<noteq> q @ ''/blobs''" "r @ ''/tags'' \<noteq> q @ ''/manifests''"
  by (auto dest!: arg_cong [of _ _ rev])

lemma blob_path_matches:
  assumes "plain_name r" and "captures Segment x"
  shows "match_route uploads_route (''/'' @ r @ ''/blobs/'' @ x) = None"
    and "match_route blob_route (''/'' @ r @ ''/blobs/'' @ x) = Some [r, x]"
    and "match_route uploads_route (''/'' @ r @ ''/blobs/uploads/'' @ x) = Some [r, x]"
  using segment_other [OF assms(2), of "r @ ''/blobs''" "''/blobs/uploads''"] ends_differ(1)
    match_segment [OF conjunct1 [OF plain_name_captured [OF assms(1)]] assms(2), of "''/blobs''"]
    match_segment [OF conjunct1 [OF plain_name_captured [OF assms(1)]] assms(2), of "''/blobs/uploads''"]
  by (simp_all add: uploads_route_def blob_route_def del: captures.simps)

lemma manifest_path_matches:
  assumes "plain_name r" and "captures Segment x"
  shows "match_route uploads_route (''/'' @ r @ ''/manifests/'' @ x) = None"
    and "match_route blob_route (''/'' @ r @ ''/manifests/'' @ x) = None"
    and "match_route tag_route (''/'' @ r @ ''/manifests/'' @ x) = Some [r, x]"
    and "CHR '':'' \<notin> set x \<Longrightarrow> match_route manifest_route (''/'' @ r @ ''/manifests/'' @ x) = None"
  using segment_other [OF assms(2), of "r @ ''/manifests''" "''/blobs/uploads''"]
    segment_other [OF assms(2), of "r @ ''/manifests''" "''/blobs''"] ends_differ(2,3)
    match_segment [OF conjunct1 [OF plain_name_captured [OF assms(1)]] assms(2), of "''/manifests''"]
    match_sha256_colon [of "''/'' @ r @ ''/manifests/'' @ x" "''/manifests/''"] plain_name_captured [OF assms(1)]
  by (simp_all add: uploads_route_def blob_route_def tag_route_def manifest_route_def del: captures.simps)

lemma tags_path_matches:
  assumes "plain_name r"
  shows "match_route uploads_route (''/'' @ r @ ''/tags/list'') = None"
    and "match_route blob_route (''/'' @ r @ ''/tags/list'') = None"
    and "match_route tag_route (''/'' @ r @ ''/tags/list'') = None"
    and "match_route manifest_route (''/'' @ r @ ''/tags/list'') = None"
    and "match_route (under_repository ''/tags/list'' []) (''/'' @ r @ ''/tags/list'') = Some [r]"
proof -
  have list: "captures Segment ''list''" by simp
  show "match_route uploads_route (''/'' @ r @ ''/tags/list'') = None"
    using segment_other [OF list, of "r @ ''/tags''" "''/blobs/uploads''"] ends_differ(4) by (simp add: uploads_route_def)
  show "match_route blob_route (''/'' @ r @ ''/tags/list'') = None"
    using segment_other [OF list, of "r @ ''/tags''" "''/blobs''"] ends_differ(5) by (simp add: blob_route_def)
  show "match_route tag_route (''/'' @ r @ ''/tags/list'') = None"
    using segment_other [OF list, of "r @ ''/tags''" "''/manifests''"] ends_differ(6) by (simp add: tag_route_def)
  show "match_route manifest_route (''/'' @ r @ ''/tags/list'') = None"
    using match_sha256_colon plain_name_captured [OF assms] by (simp add: manifest_route_def)
  show "match_route (under_repository ''/tags/list'' []) (''/'' @ r @ ''/tags/list'') = Some [r]"
    using match_end plain_name_captured [OF assms] by blast
qed

lemma route_endpoint:
  assumes "plain_name r" and "endpoint_segment e x"
  shows "route (endpoint_method e) (endpoint_uri e r x) = Some (e, endpoint_values e r x)"
proof -
  have root: "route m ''/v2'' = first_route registry_api m []" for m
    by (simp add: route_def trim_slashes_def starts_with_def)
  have no_root: "match_route ps [] = None"
    if "ps \<in> {uploads_route, blob_route, manifest_route, tag_route, under_repository ''/tags/list'' []}" for ps
    using that by (auto simp: match_route.simps uploads_route_def blob_route_def manifest_route_def tag_route_def)
  have sha: "captures Segment x" if "x = ''sha256:'' @ y" "CHR ''/'' \<notin> set y" for y using that by simp
  have seg: "captures Segment x" using assms(2) sha by (auto simp del: captures.simps split: if_splits)
  then have x: "CHR ''/'' \<notin> set x" "x \<noteq> []" by auto
  note M = blob_path_matches [OF assms(1) seg] manifest_path_matches [OF assms(1) seg]
    tags_path_matches [OF assms(1)]
    match_end [OF conjunct1 [OF plain_name_captured [OF assms(1)]], of "''/blobs/uploads''"]
  have D: "match_route manifest_route (''/'' @ r @ ''/manifests/'' @ x) = Some [r, x]"
    if "x = ''sha256:'' @ y" "CHR ''/'' \<notin> set y" for y
    using match_sha256 [OF _ _ that(2)] plain_name_captured [OF assms(1)] that(1) by simp
  have below: "route m (''/v2/'' @ r @ l @ x) = first_route registry_api m (''/'' @ r @ l @ x)"
    if "l \<in> {''/blobs/uploads/'', ''/blobs/'', ''/manifests/''}" for m l
    using that x by (intro route_below [OF assms(1)]) auto
  have below': "route m (''/v2/'' @ r @ l) = first_route registry_api m (''/'' @ r @ l)"
    if "l \<in> {''/blobs/uploads'', ''/tags/list''}" for m l
    using that route_below [OF assms(1), of l "[]" m] by auto
  note R = below [of "''/blobs/uploads/''"] below [of "''/blobs/''"] below [of "''/manifests/''"]
    below' [of "''/blobs/uploads''"] below' [of "''/tags/list''"] root no_root M
  show ?thesis
  proof (cases "e \<in> {Manifest_Head, Manifest_Get, Manifest_Delete}")
    case True
    then obtain y where "x = ''sha256:'' @ y" "CHR ''/'' \<notin> set y" using assms(2) by auto
    then show ?thesis using True R(3) M D by (auto simp: registry_api_def)
  next
    case False
    then show ?thesis using assms(2) R by (cases e) (simp_all add: registry_api_def)
  qed
qed

text \<open>
  C30. Each endpoint is reached by its own address and no other takes it: for every repository name
  without braces, colons and empty components, so for every name of the distribution grammar (slashes between
  components are allowed, also components \<^verbatim>\<open>blobs\<close> or \<^verbatim>\<open>manifests\<close>), and every digest, tag or upload, the router
  dispatches the address of the endpoint to that endpoint, with that name and that digest, tag or upload as its arguments.
\<close>

theorem route_reaches:
  assumes "plain_name r" and "endpoint_segment e x"
  shows "route (endpoint_method e) (endpoint_uri e r x) = Some (e, endpoint_values e r x)"
  using assms by (rule route_endpoint)

text \<open>A name that itself looks like the address of an upload and of a manifest.\<close>

theorem route_reaches_witness:
  "route Get ''/v2/a/blobs/uploads/manifests/blobs/sha256:0f'' =
     Some (Blob_Get, [''a/blobs/uploads/manifests'', ''sha256:0f''])"
  using route_reaches [of "''a/blobs/uploads/manifests''" Blob_Get "''sha256:0f''"]
  by (simp add: plain_name_def)

section \<open>Serving a request\<close>

text \<open>A request with its arguments, as the handlers get them.\<close>

datatype request =
  Delete_Upload repository_name string
| Get_Upload repository_name string
| Patch_Upload repository_name string "string option"
| Post_Upload repository_name "digest option" "repository_name option" "digest option"
| Put_Upload repository_name string digest
| Head_Blob repository_name digest
| Get_Blob repository_name digest
| Delete_Blob repository_name digest
| Put_Manifest repository_name string "string option"
| Head_Manifest repository_name digest
| Head_Manifest_Tag repository_name string
| Get_Manifest repository_name digest
| Get_Manifest_Tag repository_name string
| Delete_Manifest repository_name digest
| Delete_Manifest_Tag repository_name string
| List_Tags repository_name "string option" "nat option"
| Get_Version
| Head_Version

record http_request =
  verb :: http_method
  uri :: string
  query :: "string \<Rightarrow> string option"
  request_header :: "string \<Rightarrow> string option"
  chunks :: "bytes option list"

text \<open>
  The extractors of paths and queries: a value that does not parse is refused with 404 in the path
  and 400 in the query. A repository always parses.
\<close>

definition path_digest :: "string \<Rightarrow> nat + digest" where
  "path_digest s = (case digest_try_from s of Some (Inr d) \<Rightarrow> Inr d | _ \<Rightarrow> Inl 404)"

definition query_digest :: "string option \<Rightarrow> nat + digest option" where
  "query_digest q =
     (case q of
        None \<Rightarrow> Inr None
      | Some s \<Rightarrow> (case digest_try_from s of Some (Inr d) \<Rightarrow> Inr (Some d) | _ \<Rightarrow> Inl 400))"

definition query_usize :: "string option \<Rightarrow> nat + nat option" where
  "query_usize q =
     (case q of
        None \<Rightarrow> Inr None
      | Some s \<Rightarrow> (case parse_u64 s of None \<Rightarrow> Inl 400 | Some n \<Rightarrow> Inr (Some (unat n))))"

definition and_then :: "'e + 'a \<Rightarrow> ('a \<Rightarrow> 'e + 'b) \<Rightarrow> 'e + 'b" where
  "and_then x k = (case x of Inl e \<Rightarrow> Inl e | Inr a \<Rightarrow> k a)"

definition by_digest :: "(repository_name \<Rightarrow> digest \<Rightarrow> request) \<Rightarrow> string \<Rightarrow> string \<Rightarrow> nat + request" where
  "by_digest req r s = and_then (path_digest s) (\<lambda>d. Inr (req (RepositoryName r) d))"

text \<open>The typed request of an endpoint and its variables, or the status it is refused with.\<close>

definition decode_request :: "http_request \<Rightarrow> endpoint \<Rightarrow> string list \<Rightarrow> nat + request" where
  "decode_request q e vs =
     (case vs of
        [] \<Rightarrow> (case e of Root_Get \<Rightarrow> Inr Get_Version | Root_Head \<Rightarrow> Inr Head_Version | _ \<Rightarrow> Inl 404)
      | [r] \<Rightarrow>
          (case e of
             Upload_Post \<Rightarrow>
               and_then (query_digest (query q ''mount'')) (\<lambda>mount.
                 and_then (query_digest (query q ''digest'')) (\<lambda>d.
                   Inr (Post_Upload (RepositoryName r) mount (map_option RepositoryName (query q ''from'')) d)))
           | Tags_List \<Rightarrow>
               and_then (query_usize (query q ''n'')) (\<lambda>n. Inr (List_Tags (RepositoryName r) (query q ''last'') n))
           | _ \<Rightarrow> Inl 404)
      | [r, x] \<Rightarrow>
          (case e of
             Upload_Delete \<Rightarrow> Inr (Delete_Upload (RepositoryName r) x)
           | Upload_Get \<Rightarrow> Inr (Get_Upload (RepositoryName r) x)
           | Upload_Patch \<Rightarrow> Inr (Patch_Upload (RepositoryName r) x (request_header q ''content-range''))
           | Upload_Put \<Rightarrow>
               and_then (query_digest (query q ''digest'')) (\<lambda>d.
                 case d of None \<Rightarrow> Inl 400 | Some d \<Rightarrow> Inr (Put_Upload (RepositoryName r) x d))
           | Blob_Head \<Rightarrow> by_digest Head_Blob r x
           | Blob_Get \<Rightarrow> by_digest Get_Blob r x
           | Blob_Delete \<Rightarrow> by_digest Delete_Blob r x
           | Manifest_Put \<Rightarrow> Inr (Put_Manifest (RepositoryName r) x (request_header q ''content-type''))
           | Manifest_Head \<Rightarrow> by_digest Head_Manifest r x
           | Manifest_Head_Tag \<Rightarrow> Inr (Head_Manifest_Tag (RepositoryName r) x)
           | Manifest_Get \<Rightarrow> by_digest Get_Manifest r x
           | Manifest_Get_Tag \<Rightarrow> Inr (Get_Manifest_Tag (RepositoryName r) x)
           | Manifest_Delete \<Rightarrow> by_digest Delete_Manifest r x
           | Manifest_Delete_Tag \<Rightarrow> Inr (Delete_Manifest_Tag (RepositoryName r) x)
           | _ \<Rightarrow> Inl 404)
      | _ \<Rightarrow> Inl 404)"

text \<open>
  The handler of a request. \<open>w\<close> and \<open>resume\<close> are the wait of a read; \<open>ser\<close> is the encoding of the tag
  keys.
\<close>

fun handle ::
  "codec \<Rightarrow> (string \<Rightarrow> bytes) \<Rightarrow> env \<Rightarrow> token \<Rightarrow> bytes option list \<Rightarrow> nat \<Rightarrow> (node \<Rightarrow> node) \<Rightarrow> request \<Rightarrow>
     node \<Rightarrow> node \<times> reply option" where
  "handle C ser E tok cs w resume (Delete_Upload r i) n = upload_delete E tok r i n"
| "handle C ser E tok cs w resume (Get_Upload r i) n = upload_get E tok r i n"
| "handle C ser E tok cs w resume (Patch_Upload r i cr) n = upload_patch E tok r i cr cs n"
| "handle C ser E tok cs w resume (Post_Upload r m s d) n = upload_post E tok r m s d cs n"
| "handle C ser E tok cs w resume (Put_Upload r i d) n = upload_put E tok r i d cs n"
| "handle C ser E tok cs w resume (Head_Blob r d) n = blob_head E tok r d w resume n"
| "handle C ser E tok cs w resume (Get_Blob r d) n = blob_get E tok r d w resume n"
| "handle C ser E tok cs w resume (Delete_Blob r d) n = blob_delete E tok r d n"
| "handle C ser E tok cs w resume (Put_Manifest r t ct) n = manifest_put C E tok r t ct cs n"
| "handle C ser E tok cs w resume (Head_Manifest r d) n = manifest_head E tok r d w resume n"
| "handle C ser E tok cs w resume (Head_Manifest_Tag r t) n = manifest_head_by_tag E tok r t w resume n"
| "handle C ser E tok cs w resume (Get_Manifest r d) n = manifest_get E tok r d w resume n"
| "handle C ser E tok cs w resume (Get_Manifest_Tag r t) n = manifest_get_by_tag E tok r t w resume n"
| "handle C ser E tok cs w resume (Delete_Manifest r d) n = manifest_delete E tok r d n"
| "handle C ser E tok cs w resume (Delete_Manifest_Tag r t) n = manifest_delete_by_tag E tok r t n"
| "handle C ser E tok cs w resume (List_Tags r l k) n = (n, tags_list_get (set_order E) ser (node_store n) tok r l k)"
| "handle C ser E tok cs w resume Get_Version n = (n, v2_get tok)"
| "handle C ser E tok cs w resume Head_Version n = (n, v2_head tok)"

text \<open>
  A request from the socket to the reply: route, extract the arguments, then the token, then run the
  handler. The status of a refusal by the framework or by the token extractor is \<open>Inl\<close>.
\<close>

record auth =
  verify_token :: "token_config \<Rightarrow> string \<Rightarrow> claims option"
  token_settings :: "token_config option"

definition serve ::
  "auth \<Rightarrow> codec \<Rightarrow> (string \<Rightarrow> bytes) \<Rightarrow> env \<Rightarrow> nat \<Rightarrow> (node \<Rightarrow> node) \<Rightarrow> http_request \<Rightarrow> node \<Rightarrow>
     node \<times> (nat + reply) option" where
  "serve A C ser E w resume q n =
     (case route (verb q) (uri q) of
        None \<Rightarrow> (n, Some (Inl 404))
      | Some (e, vs) \<Rightarrow>
          (case decode_request q e vs of
             Inl code \<Rightarrow> (n, Some (Inl code))
           | Inr req \<Rightarrow>
               (case from_request (verify_token A) (token_settings A) (request_header q ''authorization'') of
                  None \<Rightarrow> (n, None)
                | Some (Inl err) \<Rightarrow> (n, Some (Inl (status (token_error_response err))))
                | Some (Inr tok) \<Rightarrow>
                    (case handle C ser E tok (chunks q) w resume req n of
                       (n, rep) \<Rightarrow> (n, map_option Inr rep)))))"

section \<open>Who may do what\<close>

fun request_access :: "request \<Rightarrow> (repository_name \<times> string) option" where
  "request_access (Delete_Upload r i) = Some (r, ''push'')"
| "request_access (Get_Upload r i) = Some (r, ''pull'')"
| "request_access (Patch_Upload r i cr) = Some (r, ''push'')"
| "request_access (Post_Upload r m s d) = Some (r, ''push'')"
| "request_access (Put_Upload r i d) = Some (r, ''push'')"
| "request_access (Head_Blob r d) = Some (r, ''pull'')"
| "request_access (Get_Blob r d) = Some (r, ''pull'')"
| "request_access (Delete_Blob r d) = Some (r, ''push'')"
| "request_access (Put_Manifest r t ct) = Some (r, ''push'')"
| "request_access (Head_Manifest r d) = Some (r, ''pull'')"
| "request_access (Head_Manifest_Tag r t) = Some (r, ''pull'')"
| "request_access (Get_Manifest r d) = Some (r, ''pull'')"
| "request_access (Get_Manifest_Tag r t) = Some (r, ''pull'')"
| "request_access (Delete_Manifest r d) = Some (r, ''push'')"
| "request_access (Delete_Manifest_Tag r t) = Some (r, ''push'')"
| "request_access (List_Tags r l k) = Some (r, ''pull'')"
| "request_access Get_Version = None"
| "request_access Head_Version = None"

definition effective :: "node \<Rightarrow> node \<times> reply option \<Rightarrow> bool" where
  "effective n out \<longleftrightarrow> fst out \<noteq> n \<or> (\<exists>h. snd out = Some (Inr h))"

context guarded begin

lemma effective_permitted: "effective n (handler E tok r q n) \<Longrightarrow> has_permission tok r perm"
  using effect_permitted [of E tok r q n] success_permitted [of E tok r q n] by (auto simp: effective_def)

end

lemma handle_permitted:
  assumes "request_access req = Some (r, p)" and "effective n (handle C ser E tok cs w resume req n)"
  shows "has_permission tok r p"
proof (cases req)
  case (Post_Upload r' m s d)
  then show ?thesis using assms post_guard.effective_permitted [of n E tok r "(m, s, d, cs)"] by simp
next
  case (Put_Upload r' i d)
  then show ?thesis using assms put_guard.effective_permitted [of n E tok r "(i, d, cs)"] by simp
next
  case (Patch_Upload r' i cr)
  then show ?thesis using assms patch_guard.effective_permitted [of n E tok r "(i, cr, cs)"] by simp
next
  case (Head_Blob r' d)
  then show ?thesis using assms blob_get_guard.effective_permitted [of n E tok r "(d, w, resume)"]
    by (simp add: blob_head_def)
next
  case (Get_Blob r' d)
  then show ?thesis using assms blob_get_guard.effective_permitted [of n E tok r "(d, w, resume)"] by simp
next
  case (Put_Manifest r' t ct)
  then show ?thesis using assms manifest_put_guard.effective_permitted [of n E tok r "(C, t, ct, cs)"] by simp
next
  case (Head_Manifest r' d)
  then show ?thesis using assms manifest_get_guard.effective_permitted [of n E tok r "(d, w, resume)"]
    by (simp add: manifest_head_def)
next
  case (Get_Manifest r' d)
  then show ?thesis using assms manifest_get_guard.effective_permitted [of n E tok r "(d, w, resume)"] by simp
next
  case (Head_Manifest_Tag r' t)
  then show ?thesis using assms manifest_tag_guard.effective_permitted [of n E tok r "(t, w, resume)"]
    by (simp add: manifest_head_by_tag_def)
next
  case (Get_Manifest_Tag r' t)
  then show ?thesis using assms manifest_tag_guard.effective_permitted [of n E tok r "(t, w, resume)"] by simp
next
  case (List_Tags r' l k)
  then show ?thesis using assms by (auto simp: effective_def tags_list_get_def split: if_splits)
qed (use assms upload_delete_guard.effective_permitted [of n E tok r] upload_get_guard.effective_permitted [of n E tok r]
    blob_delete_guard.effective_permitted [of n E tok r] manifest_delete_guard.effective_permitted [of n E tok r]
    manifest_untag_guard.effective_permitted [of n E tok r] in simp_all)

lemma first_route_method: "first_route rs m s = Some (e, vs) \<Longrightarrow> \<exists>ps. (m, ps, e) \<in> set rs"
  by (induction rs m s rule: first_route.induct) (auto split: if_splits)

lemma route_method:
  assumes "route m s = Some (e, vs)"
  shows "endpoint_method e = m"
proof -
  have "list_all (\<lambda>(m, ps, e). endpoint_method e = m) registry_api" by (simp add: registry_api_def)
  moreover obtain ps where "(m, ps, e) \<in> set registry_api"
    using assms by (auto simp: route_def Let_def dest: first_route_method split: if_splits)
  ultimately show ?thesis by (auto simp only: list_all_iff)
qed

definition method_permission :: "http_method \<Rightarrow> string" where
  "method_permission m = (if m \<in> {Get, Head} then ''pull'' else ''push'')"

lemma decode_access:
  "decode_request q e (r # vs) = Inr req \<Longrightarrow>
   request_access req = Some (RepositoryName r, method_permission (endpoint_method e))"
proof (cases vs)
  case Nil
  then show "decode_request q e (r # vs) = Inr req \<Longrightarrow> ?thesis"
    by (cases e) (auto simp: decode_request_def and_then_def method_permission_def split: sum.splits)
next
  case (Cons x xs)
  then show "decode_request q e (r # vs) = Inr req \<Longrightarrow> ?thesis"
    by (cases xs; cases e)
      (auto simp: decode_request_def by_digest_def and_then_def method_permission_def split: sum.splits option.splits)
qed

text \<open>
  C5. With a token server configured, nobody gets anything out of the registry, or changes anything
  in it, without a grant: if a request for an address below a repository changes the node or is
  answered with success, it carries a bearer token that the JWT library accepted, and the token
  grants, on exactly the repository named by the address, \<open>pull\<close> for a GET or HEAD and \<open>push\<close> for any
  other method.
\<close>

theorem serve_authorised:
  assumes "token_settings A = Some cfg" and "serve A C ser E w resume q n = (n', rep)"
    and "n' \<noteq> n \<or> (\<exists>h. rep = Some (Inr (Inr h)))" and "route (verb q) (uri q) = Some (e, r # vs)"
  shows "\<exists>h ty tok cl. request_header q ''authorization'' = Some h \<and> split_once (CHR '' '') h = Some (ty, tok) \<and>
    ascii_lower ty = ''bearer'' \<and> verify_token A cfg tok = Some cl \<and>
    (\<exists>a \<in> set (claim_access cl). acc_repository a = RepositoryName r \<and> method_permission (verb q) \<in> permissions a)"
proof -
  obtain req where req: "decode_request q e (r # vs) = Inr req"
    using assms by (cases "decode_request q e (r # vs)") (auto simp: serve_def)
  obtain tok where tok: "from_request (verify_token A) (Some cfg) (request_header q ''authorization'') = Some (Inr tok)"
    using assms req by (auto simp: serve_def split: option.splits sum.splits)
  have out: "fst (handle C ser E tok (chunks q) w resume req n) = n' \<and>
      map_option Inr (snd (handle C ser E tok (chunks q) w resume req n)) = rep"
    using assms req tok by (simp add: serve_def split: prod.splits)
  then have "effective n (handle C ser E tok (chunks q) w resume req n)"
    using assms(3) by (auto simp: effective_def)
  moreover have "request_access req = Some (RepositoryName r, method_permission (verb q))"
    using decode_access [OF req] route_method [OF assms(4)] by simp
  ultimately have "has_permission tok (RepositoryName r) (method_permission (verb q))"
    using handle_permitted by blast
  from permission_needs_verified_token [OF tok this] show ?thesis by blast
qed

definition sample_auth :: auth where
  "sample_auth = \<lparr>verify_token = (\<lambda>_ _. Some sample_claims),
     token_settings = Some \<lparr>tc_issuer = ''i'', tc_service = ''s'', tc_realm = ''u''\<rparr>\<rparr>"

definition sample_request :: http_request where
  "sample_request = \<lparr>verb = Get, uri = ''/v2/r/blobs/uploads/u'', query = (\<lambda>_. None),
     request_header = (\<lambda>h. if h = ''authorization'' then Some ''Bearer x'' else None), chunks = []\<rparr>"

lemma sample_route: "route Get ''/v2/r/blobs/uploads/u'' = Some (Upload_Get, [''r'', ''u''])"
  by code_simp

lemma sample_serve:
  "\<exists>h. serve sample_auth C ser sample_env w resume sample_request uploading_node = (uploading_node, Some (Inr (Inr h)))"
proof -
  let ?t = "\<lparr>access_list = claim_access sample_claims, sub = ''bob'', validated_token = True,
    admin = False, realm = Some ''u'', service = Some ''s''\<rparr>"
  have "ascii_lower ''Bearer'' = ''bearer''" by code_simp
  then have "from_request (verify_token sample_auth) (token_settings sample_auth) (Some ''Bearer x'') = Some (Inr ?t)"
    by (simp add: from_request_def visible_ascii_def sample_claims_def sample_auth_def)
  moreover have "\<exists>h. upload_get sample_env ?t (RepositoryName ''r'') ''u'' uploading_node = (uploading_node, Some (Inr h))"
    by (simp add: upload_get_def has_permission_def sample_claims_def uploading_node_def sample_upload_path
        is_file_def file_len_def)
  ultimately show ?thesis
    by (auto simp: serve_def sample_request_def sample_route decode_request_def)
qed

theorem serve_authorised_witness:
  "\<exists>a \<in> set (claim_access sample_claims). acc_repository a = RepositoryName ''r'' \<and> ''pull'' \<in> permissions a"
proof -
  obtain h where run: "serve sample_auth sample_codec id sample_env 0 id sample_request uploading_node =
      (uploading_node, Some (Inr (Inr h)))" using sample_serve by blast
  have cfg: "token_settings sample_auth = Some \<lparr>tc_issuer = ''i'', tc_service = ''s'', tc_realm = ''u''\<rparr>"
    by (simp add: sample_auth_def)
  have "route (verb sample_request) (uri sample_request) = Some (Upload_Get, [''r'', ''u''])"
    by (simp add: sample_request_def sample_route)
  from serve_authorised [OF cfg run _ this] show ?thesis
    by (auto simp: sample_auth_def sample_request_def method_permission_def)
qed

end
