(* ===== verification/Certificate.thy ===== *)
theory Certificate
  imports Files
begin

text \<open>
  \<^verbatim>\<open>src/certificate.rs\<close>: the certificate of the raft port, loaded at start and reloaded when its files change.
  What the TLS library does is a parameter: the keys and certificates it finds in a PEM text (\<open>None\<close> for
  one it cannot decode) and the keys it accepts. A key is kept as its DER bytes.
\<close>

section \<open>Loading\<close>

record tls_library =
  pkcs8_private_keys :: "string \<Rightarrow> bytes option list"
  rsa_signing_key :: "bytes \<Rightarrow> bool"
  pem_certs :: "string \<Rightarrow> bytes option list"
  watcher_new :: bool
  watch_path :: "string \<Rightarrow> bool"

record certified_key =
  cert_chain :: "bytes list"
  signing_key :: bytes

datatype certificate_error = Unreadable string | No_Private_Key | Bad_Private_Key | Bad_Certificate | Watch_Failed

definition private_key :: "tls_library \<Rightarrow> string \<Rightarrow> certificate_error + bytes" where
  "private_key L key_string =
     (case pkcs8_private_keys L key_string of
        [] \<Rightarrow> Inl No_Private_Key
      | None # _ \<Rightarrow> Inl Bad_Private_Key
      | Some k # _ \<Rightarrow> if rsa_signing_key L k then Inr k else Inl Bad_Private_Key)"

fun collect_certs :: "bytes option list \<Rightarrow> bytes list \<Rightarrow> bytes list option" where
  "collect_certs [] chain = Some chain"
| "collect_certs (None # items) chain = None"
| "collect_certs (Some item # items) chain = collect_certs items (chain @ [item])"

definition get_certified_key ::
  "tls_library \<Rightarrow> io \<Rightarrow> string \<Rightarrow> string \<Rightarrow> filesystem \<Rightarrow> certificate_error + certified_key" where
  "get_certified_key L io key_path chain_path f =
     (case read_to_string io (components key_path) f of
        None \<Rightarrow> Inl (Unreadable key_path)
      | Some key_string \<Rightarrow>
          (case private_key L key_string of
             Inl e \<Rightarrow> Inl e
           | Inr k \<Rightarrow>
               (case read_to_string io (components chain_path) f of
                  None \<Rightarrow> Inl (Unreadable chain_path)
                | Some chain_string \<Rightarrow>
                    (case collect_certs (pem_certs L chain_string) [] of
                       None \<Rightarrow> Inl Bad_Certificate
                     | Some chain \<Rightarrow> Inr \<lparr>cert_chain = chain, signing_key = k\<rparr>))))"

section \<open>Serving and reloading\<close>

record server_certificate =
  sc_key_path :: string
  sc_chain_path :: string
  sc_certified_key :: certified_key

definition new_server_certificate ::
  "tls_library \<Rightarrow> io \<Rightarrow> string \<Rightarrow> string \<Rightarrow> filesystem \<Rightarrow> certificate_error + server_certificate" where
  "new_server_certificate L io key_path chain_path f =
     (case get_certified_key L io key_path chain_path f of
        Inl e \<Rightarrow> Inl e
      | Inr ck \<Rightarrow>
          if watcher_new L \<and> watch_path L key_path \<and> watch_path L chain_path
          then Inr \<lparr>sc_key_path = key_path, sc_chain_path = chain_path, sc_certified_key = ck\<rparr>
          else Inl Watch_Failed)"

text \<open>
  One event of the watcher, an error of the watcher being \<open>False\<close>, with the I/O and the files at that
  moment. A key that cannot be loaded leaves the old one in service.
\<close>

type_synonym watch_event = "bool \<times> io \<times> filesystem"

definition reload :: "tls_library \<Rightarrow> watch_event \<Rightarrow> server_certificate \<Rightarrow> server_certificate" where
  "reload L ev sc =
     (case ev of (ok, io, f) \<Rightarrow>
        if ok
        then (case get_certified_key L io (sc_key_path sc) (sc_chain_path sc) f of
                Inl e \<Rightarrow> sc
              | Inr ck \<Rightarrow> sc\<lparr>sc_certified_key := ck\<rparr>)
        else sc)"

definition resolve :: "server_certificate \<Rightarrow> certified_key option" where
  "resolve sc = Some (sc_certified_key sc)"

section \<open>Which certificate is served\<close>

lemma collect_certs_eq:
  "collect_certs items chain = (if None \<in> set items then None else Some (chain @ map the items))"
  by (induction items chain rule: collect_certs.induct) auto

lemma get_certified_key_ok:
  "get_certified_key L io key_path chain_path f = Inr ck \<longleftrightarrow>
     (\<exists>ks cs rest. read_to_string io (components key_path) f = Some ks \<and>
        read_to_string io (components chain_path) f = Some cs \<and>
        pkcs8_private_keys L ks = Some (signing_key ck) # rest \<and> rsa_signing_key L (signing_key ck) \<and>
        pem_certs L cs = map Some (cert_chain ck))"
proof -
  have "(None \<notin> set items \<and> cert_chain ck = map the items) = (items = map Some (cert_chain ck))" for items :: "bytes option list"
  proof
    assume "None \<notin> set items \<and> cert_chain ck = map the items"
    moreover have "map (Some \<circ> the) items = items" if "None \<notin> set items"
      using that by (intro map_idI) (metis comp_apply option.collapse)
    ultimately show "items = map Some (cert_chain ck)" by simp
  qed (auto simp: comp_def)
  note certs = this
  have key: "private_key L ks = Inr k \<longleftrightarrow> (\<exists>rest. pkcs8_private_keys L ks = Some k # rest \<and> rsa_signing_key L k)" for ks k
    by (auto simp: private_key_def split: list.splits option.splits)
  show ?thesis
  proof (cases "read_to_string io (components key_path) f")
    case (Some ks)
    note ks = this
    show ?thesis
    proof (cases "private_key L ks")
      case (Inr k)
      then obtain rest where k: "pkcs8_private_keys L ks = Some k # rest" "rsa_signing_key L k" using key by blast
      show ?thesis
      proof (cases "read_to_string io (components chain_path) f")
        case (Some cs)
        have "get_certified_key L io key_path chain_path f = Inr ck \<longleftrightarrow>
            k = signing_key ck \<and> None \<notin> set (pem_certs L cs) \<and> cert_chain ck = map the (pem_certs L cs)"
          using ks Some Inr by (cases ck) (auto simp: get_certified_key_def collect_certs_eq)
        then show ?thesis unfolding certs using ks Some k by auto
      qed (use ks Inr in \<open>simp add: get_certified_key_def\<close>)
    qed (use ks key [of ks "signing_key ck"] in \<open>auto simp: get_certified_key_def\<close>)
  qed (simp add: get_certified_key_def)
qed

lemma reload_paths [simp]:
  "sc_key_path (reload L ev sc) = sc_key_path sc" "sc_chain_path (reload L ev sc) = sc_chain_path sc"
  by (auto simp: reload_def split: prod.splits sum.splits)

text \<open>What is served after any events is what the last event that loaded a certificate has loaded.\<close>

definition loads :: "tls_library \<Rightarrow> string \<Rightarrow> string \<Rightarrow> watch_event list \<Rightarrow> certified_key list" where
  "loads L key_path chain_path evs =
     [ck. (True, io, f) \<leftarrow> evs, Inr ck \<leftarrow> [get_certified_key L io key_path chain_path f]]"

lemma reload_serves_last:
  "resolve (fold (reload L) evs sc) =
     Some (last (sc_certified_key sc # loads L (sc_key_path sc) (sc_chain_path sc) evs))"
proof (induction evs arbitrary: sc)
  case (Cons ev evs)
  obtain ok io f where ev: "ev = (ok, io, f)" by (metis prod_cases3)
  show ?case
    by (cases "get_certified_key L io (sc_key_path sc) (sc_chain_path sc) f"; cases ok)
      (simp_all add: Cons.IH ev loads_def, simp_all add: reload_def)
qed (simp add: resolve_def loads_def)

end
