(* ===== verification/Startup.thy ===== *)
theory Startup
  imports Router Certificate
begin

text \<open>
  \<^verbatim>\<open>src/config.rs\<close> (the configuration and its defaults) and the start of a node in \<^verbatim>\<open>src/lib.rs\<close>: the node
  id, the storage directories, the database, the store and the three servers. What the host provides is a
  record of parameters: opening the database and creating raft (\<open>None\<close> or \<open>False\<close> is the panic), the TLS
  library and binding a port. The tasks and servers then run as the steps of the theory \<open>System\<close>.
\<close>

section \<open>Configuration\<close>

record listen_config =
  address :: string
  port :: "16 word"

record tls_config =
  tls_key :: string
  tls_chain :: string

record raft_config = listen_config +
  tls :: "tls_config option"

record configuration =
  node_identifier :: string
  raft_cfg :: raft_config
  registry_cfg :: listen_config
  prometheus_cfg :: listen_config
  token_server :: "token_config option"
  storage :: string
  webhooks :: "webhook list"
  scrubber_enabled :: bool
  sentry_endpoint :: "string option"

definition default_raft :: raft_config where
  "default_raft = \<lparr>address = ''0.0.0.0'', port = 8080, tls = None\<rparr>"

definition default_registry :: listen_config where
  "default_registry = \<lparr>address = ''0.0.0.0'', port = 8000\<rparr>"

definition default_prometheus :: listen_config where
  "default_prometheus = \<lparr>address = ''0.0.0.0'', port = 7080\<rparr>"

definition default_configuration :: configuration where
  "default_configuration = \<lparr>node_identifier = ''localhost-0'', raft_cfg = default_raft,
     registry_cfg = default_registry, prometheus_cfg = default_prometheus, token_server = None,
     storage = ''var'', webhooks = [], scrubber_enabled = False, sentry_endpoint = None\<rparr>"

text \<open>
  The configuration file is the one named on the command line, or the one of the user if there is one; the
  library that merges the defaults, the file and the environment is a parameter (\<open>None\<close> is the panic). A
  node name on the command line replaces the identifier.
\<close>

definition config_file :: "path \<Rightarrow> path option \<Rightarrow> filesystem \<Rightarrow> path option" where
  "config_file config_dir opt f =
     (case opt of
        Some p \<Rightarrow> Some p
      | None \<Rightarrow>
          let p = path_push config_dir ''config.yaml''
          in if path_exists p f then Some p else None)"

definition load_config ::
  "(configuration \<Rightarrow> path option \<Rightarrow> configuration option) \<Rightarrow> path \<Rightarrow> path option \<Rightarrow> string option \<Rightarrow> filesystem \<Rightarrow>
     configuration option" where
  "load_config merge config_dir opt node_name f =
     map_option (\<lambda>conf. case node_name of None \<Rightarrow> conf | Some v \<Rightarrow> conf\<lparr>node_identifier := v\<rparr>)
       (merge default_configuration (config_file config_dir opt f))"

section \<open>Starting a node\<close>

datatype start_error = Bad_Identifier config_error | Directory_Error | Certificate_Error certificate_error | Bind_Error

record host =
  open_db :: "path \<Rightarrow> db option"
  raft_new :: "registry_store \<Rightarrow> bool"
  tls_lib :: tls_library
  bind_port :: "string \<Rightarrow> 16 word \<Rightarrow> bool"

definition create_dir :: "io \<Rightarrow> string \<Rightarrow> string \<Rightarrow> filesystem \<Rightarrow> filesystem option" where
  "create_dir io parent_dir child_dir f =
     (let p = path_push (components parent_dir) child_dir
      in if \<not> path_exists p f then create_dir_all io p f else Some f)"

fun create_dirs :: "io \<Rightarrow> string \<Rightarrow> string list \<Rightarrow> filesystem \<Rightarrow> filesystem \<times> bool" where
  "create_dirs io parent_dir [] f = (f, True)"
| "create_dirs io parent_dir (c # cs) f =
     (case create_dir io parent_dir c f of None \<Rightarrow> (f, False) | Some f \<Rightarrow> create_dirs io parent_dir cs f)"

text \<open>The raft port, with its certificate if one is configured, then the registry and the metrics.\<close>

definition start_servers :: "configuration \<Rightarrow> io \<Rightarrow> host \<Rightarrow> filesystem \<Rightarrow> start_error option" where
  "start_servers conf io H f =
     (let certificate =
        (case tls (raft_cfg conf) of
           None \<Rightarrow> None
         | Some t \<Rightarrow>
             (case new_server_certificate (tls_lib H) io (tls_key t) (tls_chain t) f of
                Inl e \<Rightarrow> Some (Certificate_Error e)
              | Inr sc \<Rightarrow> None))
      in if certificate \<noteq> None then certificate
         else if bind_port H (address (raft_cfg conf)) (port (raft_cfg conf)) \<and>
                 bind_port H (address (registry_cfg conf)) (port (registry_cfg conf)) \<and>
                 bind_port H (address (prometheus_cfg conf)) (port (prometheus_cfg conf))
              then None
         else Some Bind_Error)"

definition start_node ::
  "configuration \<Rightarrow> io \<Rightarrow> host \<Rightarrow> filesystem \<Rightarrow> filesystem \<times> (start_error + node) option" where
  "start_node conf io H f =
     (case config_id (node_identifier conf) of
        Inl e \<Rightarrow> (f, Some (Inl (Bad_Identifier e)))
      | Inr i \<Rightarrow>
          (case create_dirs io (storage conf) [''uploads'', ''manifests'', ''blobs''] f of
             (f, False) \<Rightarrow> (f, Some (Inl Directory_Error))
           | (f, True) \<Rightarrow>
               (case open_db H (path_push (components (storage conf)) ''db'') of
                  None \<Rightarrow> (f, None)
                | Some s \<Rightarrow>
                    if \<not> raft_new H (new_store i s) then (f, None)
                    else (case start_servers conf io H f of
                            Some e \<Rightarrow> (f, Some (Inl e))
                          | None \<Rightarrow>
                              (f, Some (Inr \<lparr>node_store = new_store i s, node_fs = f, submitted = [], events = []\<rparr>))))))"

section \<open>Stopping a node\<close>

text \<open>
  The task that waits for the signal: it shuts raft down, and then stops the three servers, the registry
  first. It panics, and stops no server, if raft does not shut down in order.
\<close>

datatype stop_event = Raft_Shutdown | Registry_Stopped | Raft_Port_Stopped | Metrics_Stopped

definition shutdown :: "bool \<Rightarrow> stop_event list \<times> bool" where
  "shutdown raft_ok =
     (if \<not> raft_ok then ([], False)
      else ([Raft_Shutdown, Registry_Stopped, Raft_Port_Stopped, Metrics_Stopped], True))"

section \<open>A started node\<close>

lemma create_dir_facts:
  assumes "create_dir io parent_dir c f = Some f'"
  shows "files f' = files f" and "dirs f \<subseteq> dirs f'" and "path_exists (path_push (components parent_dir) c) f'"
  using assms create_dir_all_files create_dir_all_dir
  by (auto simp: create_dir_def Let_def path_exists_def split: if_splits)

lemma create_dirs_facts:
  "create_dirs io parent_dir cs f = (f', ok) \<Longrightarrow>
   files f' = files f \<and> dirs f \<subseteq> dirs f' \<and>
   (ok \<longrightarrow> (\<forall>c \<in> set cs. path_exists (path_push (components parent_dir) c) f'))"
proof (induction cs arbitrary: f)
  case (Cons c cs)
  show ?case
  proof (cases "create_dir io parent_dir c f")
    case (Some g)
    note G = create_dir_facts [OF Some]
    have "create_dirs io parent_dir cs g = (f', ok)" using Cons.prems Some by simp
    from Cons.IH [OF this] show ?thesis using G by (auto simp: path_exists_def)
  qed (use Cons.prems in simp)
qed simp

text \<open>What is in place when a node starts.\<close>

lemma start_node_ready:
  assumes "start_node conf io H f = (f', Some (Inr n))"
  shows "\<exists>s. open_db H (components (storage conf) @ [''db'']) = Some s \<and>
    config_id (node_identifier conf) = Inr (node_id n) \<and> node_store n = new_store (node_id n) s \<and>
    submitted n = [] \<and> node_fs n = f' \<and> files f' = files f \<and>
    (\<forall>c \<in> {''uploads'', ''manifests'', ''blobs''}. path_exists (components (storage conf) @ [c]) f')"
proof -
  have push: "path_push p c = p @ [c]" if "c \<in> {''uploads'', ''manifests'', ''blobs'', ''db''}" for p c
    using that by (auto simp: path_push_plain plain_def)
  obtain i where i: "config_id (node_identifier conf) = Inr i" using assms by (auto simp: start_node_def split: sum.splits)
  obtain g ok where g: "create_dirs io (storage conf) [''uploads'', ''manifests'', ''blobs''] f = (g, ok)"
    by (metis surj_pair)
  have ok: "ok" using assms i g by (cases ok) (auto simp: start_node_def)
  note C = create_dirs_facts [OF g]
  show ?thesis using assms i g ok C
    by (auto simp: start_node_def push node_id_def new_store_def split: option.splits if_splits)
qed

lemma start_node_store_inv:
  assumes "start_node conf io H f = (f', Some (Inr n))" and "\<And>p s. open_db H p = Some s \<Longrightarrow> db_wf s"
  shows "store_inv (node_store n)"
  using start_node_ready [OF assms(1)] assms(2) new_store_inv by metis

lemma default_id: "config_id (node_identifier default_configuration) = Inr 1"
  by (simp add: default_configuration_def config_id_def rsplit_once_def parse_u64_def digit_value_def)

text \<open>With the default configuration and working I/O a node starts, as node 1.\<close>

lemma default_starts:
  assumes "\<And>op. io op" and "files f = Map.empty" and "\<And>p. open_db H p \<noteq> None"
    and "\<And>st. raft_new H st" and "\<And>a p. bind_port H a p"
  shows "\<exists>f' n. start_node default_configuration io H f = (f', Some (Inr n)) \<and> node_id n = 1"
proof -
  note i = default_id
  have one: "\<exists>g. create_dir io s c f = Some g \<and> files g = Map.empty" if "files f = Map.empty" for s c f
    using that assms(1) by (auto simp: create_dir_def Let_def create_dir_all_def list_all_iff)
  have "\<exists>g. create_dirs io s cs f = (g, True)" if "files f = Map.empty" for s cs f
    using that
  proof (induction cs arbitrary: f)
    case (Cons c cs)
    obtain g where "create_dir io s c f = Some g" "files g = Map.empty" using one [OF Cons.prems] by blast
    then show ?case using Cons.IH [of g] by simp
  qed simp
  then obtain g where "create_dirs io (storage default_configuration) [''uploads'', ''manifests'', ''blobs''] f = (g, True)"
    using assms(2) by blast
  moreover have "start_servers default_configuration io H g = None" for g
    by (simp add: start_servers_def default_configuration_def default_raft_def assms(5))
  ultimately show ?thesis using i assms(3,4) by (auto simp: start_node_def node_id_def new_store_def split: option.splits)
qed

end
