(* ===== verification/Node.thy ===== *)
theory Node
  imports Startup
begin

text \<open>
  The operations of a node as a whole, and the contract all of them meet: \<open>safe_step\<close>, whose locale
  \<open>node_operation\<close> states it for one of them. An operation keeps the content addressing of the node's
  files, loses no object, leaves the store to raft, and reports only copies that exist. The theory \<open>System\<close> puts the
  operations of any number of nodes together.

  Not of this kind are the second phase of the garbage collector, which deletes files, and importing a
  registry, which claims whatever copies the document names. \<open>claim_of\<close> and \<open>listed_copies\<close> are what
  actions claim and a registry lists: applying entries lists no copy that nobody has claimed.
\<close>

section \<open>The contract of an operation\<close>

definition object_kinds :: "string set" where
  "object_kinds = {''blobs'', ''manifests''}"

definition keeps_objects :: "env \<Rightarrow> filesystem \<Rightarrow> filesystem \<Rightarrow> bool" where
  "keeps_objects E f f' \<longleftrightarrow> (\<forall>k \<in> object_kinds. \<forall>d.
     files f (object_path k (root E) d) \<noteq> None \<longrightarrow> files f' (object_path k (root E) d) \<noteq> None)"

text \<open>An action that claims a copy claims it on this node, and has the file behind it.\<close>

definition has_copy :: "env \<Rightarrow> string \<Rightarrow> digest \<Rightarrow> filesystem \<Rightarrow> bool" where
  "has_copy E k d f \<longleftrightarrow> hex_digest d \<and> files f (object_path k (root E) d) \<noteq> None"

fun backed :: "env \<Rightarrow> u64 \<Rightarrow> filesystem \<Rightarrow> registry_action \<Rightarrow> bool" where
  "backed E i f (BlobStored ts d l u) = (l = i \<and> has_copy E ''blobs'' d f)"
| "backed E i f (ManifestStored ts d l u) = (l = i \<and> has_copy E ''manifests'' d f)"
| "backed E i f _ = True"

text \<open>
  A step of the node's own code: it keeps the content addressing, loses no object, leaves the store
  alone, and logs only copies that exist.
\<close>

definition safe_step :: "env \<Rightarrow> node \<Rightarrow> node \<Rightarrow> bool" where
  "safe_step E n n' \<longleftrightarrow>
     (files_ok E (node_fs n) \<longrightarrow> files_ok E (node_fs n')) \<and> keeps_objects E (node_fs n) (node_fs n') \<and>
     node_store n' = node_store n \<and>
     (\<exists>new. submitted n' = submitted n @ new \<and>
        (\<forall>as \<in> set new. \<forall>a \<in> set as. backed E (node_id n) (node_fs n') a))"

lemma backed_mono: "backed E i f a \<Longrightarrow> keeps_objects E f f' \<Longrightarrow> backed E i f' a"
  by (cases a) (auto simp: has_copy_def keeps_objects_def object_kinds_def)

lemma keeps_objects_trans: "keeps_objects E f g \<Longrightarrow> keeps_objects E g h \<Longrightarrow> keeps_objects E f h"
  by (simp add: keeps_objects_def)

lemma safe_refl [simp]: "safe_step E n n"
  by (simp add: safe_step_def keeps_objects_def)

lemma safe_trans:
  assumes "safe_step E n m" and "safe_step E m k"
  shows "safe_step E n k"
proof -
  obtain as bs where as: "submitted m = submitted n @ as"
      "\<forall>x \<in> set as. \<forall>a \<in> set x. backed E (node_id n) (node_fs m) a"
    and bs: "submitted k = submitted m @ bs"
      "\<forall>x \<in> set bs. \<forall>a \<in> set x. backed E (node_id m) (node_fs k) a"
    using assms unfolding safe_step_def by blast
  have id: "node_id m = node_id n" using assms(1) by (simp add: safe_step_def node_id_def)
  have keep: "keeps_objects E (node_fs m) (node_fs k)" using assms(2) by (simp add: safe_step_def)
  have "submitted k = submitted n @ (as @ bs)" "\<forall>x \<in> set (as @ bs). \<forall>a \<in> set x. backed E (node_id n) (node_fs k) a"
    using as bs id backed_mono [OF _ keep] by auto
  moreover have "keeps_objects E (node_fs n) (node_fs k)"
    using assms keeps_objects_trans unfolding safe_step_def by blast
  ultimately show ?thesis using assms unfolding safe_step_def by auto
qed

section \<open>The steps operations are made of\<close>

definition outside :: "env \<Rightarrow> path \<Rightarrow> bool" where
  "outside E p \<longleftrightarrow> (\<forall>k \<in> object_kinds. \<forall>d. p \<noteq> object_path k (root E) d)"

lemma outside_uploads:
  "outside E (get_upload_path (root E) i)" "outside E (get_temp_path i (root E))"
  "outside E (get_temp_mirror_path i (root E))"
  using upload_path_not_object by (auto simp: outside_def object_kinds_def)

lemma safe_fs:
  assumes "\<And>k d. k \<in> object_kinds \<Longrightarrow> files f (object_path k (root E) d) = files (node_fs n) (object_path k (root E) d)"
  shows "safe_step E n (n\<lparr>node_fs := f\<rparr>)"
  using assms files_ok_outside [of E "node_fs n" f]
  by (simp add: safe_step_def keeps_objects_def object_kinds_def)

lemma safe_same_files: "files f = files (node_fs n) \<Longrightarrow> safe_step E n (n\<lparr>node_fs := f\<rparr>)"
  by (rule safe_fs) simp

lemma safe_one_file:
  "outside E p \<Longrightarrow> (\<And>q. q \<noteq> p \<Longrightarrow> files f q = files (node_fs n) q) \<Longrightarrow> safe_step E n (n\<lparr>node_fs := f\<rparr>)"
  by (rule safe_fs) (metis outside_def)

lemma safe_submit:
  "(\<And>a. a \<in> set as \<Longrightarrow> backed E (node_id n) (node_fs n) a) \<Longrightarrow> safe_step E n (n\<lparr>submitted := submitted n @ [as]\<rparr>)"
  by (simp add: safe_step_def keeps_objects_def)

lemma safe_write_node:
  "(\<And>a. a \<in> set as \<Longrightarrow> backed E (node_id n) (node_fs n) a) \<Longrightarrow> safe_step E n (fst (write_node E as n))"
  by (simp add: write_node_def safe_submit)

lemma safe_with_upload:
  assumes "outside E p" and "\<And>m. safe_step E m (fst (k m))"
  shows "safe_step E n (fst (with_upload E p cs err k n))"
proof -
  obtain n' rep where run: "with_upload E p cs err k n = (n', rep)" by (metis surj_pair)
  have part: "safe_step E n (n\<lparr>node_fs := f\<rparr>)" if "upload_part (env_io E) p cs (node_fs n) = (f, ok)" for f ok
    using safe_one_file [OF assms(1)] upload_part_facts(2) [OF that] by simp
  from run show ?thesis
  proof (cases rule: with_upload_cases)
    case (stop f rep')
    then show ?thesis using part run by simp
  next
    case (go_on f)
    then have "safe_step E (n\<lparr>node_fs := f\<rparr>) n'" using assms(2) [of "n\<lparr>node_fs := f\<rparr>"] by simp
    then show ?thesis using safe_trans [OF part [OF go_on(1)]] run by simp
  qed
qed

text \<open>Storing an object: a file outside the layout becomes the object's file.\<close>

lemma safe_store:
  assumes "outside E p" and "k \<in> object_kinds" and "hex_digest d" and "content_digest E b = d"
    and "files f = (files (node_fs n))(p := None, object_path k (root E) d \<mapsto> b)"
  shows "safe_step E n (n\<lparr>node_fs := f\<rparr>)"
proof -
  have out: "k = ''blobs'' \<or> k = ''manifests'' \<Longrightarrow> p \<noteq> object_path k (root E) e" for k e
    using assms(1) by (auto simp: outside_def object_kinds_def)
  have "files_ok E f" if "files_ok E (node_fs n)"
    using assms(2-5) files_ok_move_blob [OF that _ _ out] files_ok_move_manifest [OF that _ _ out]
    by (auto simp: object_kinds_def)
  moreover have "keeps_objects E (node_fs n) f"
    using assms(1,5) by (auto simp: keeps_objects_def outside_def)
  ultimately show ?thesis by (simp add: safe_step_def)
qed

section \<open>The copies the registry lists\<close>

text \<open>A copy: the node it is on, the kind of the object, and its digest.\<close>

type_synonym copy = "u64 \<times> string \<times> digest"

definition spec_copies :: "registry_spec \<Rightarrow> copy set" where
  "spec_copies A = {(i, k, d). \<exists>b. i \<in> locations b \<and>
     (k = ''blobs'' \<and> sp_blobs A d = Some b \<or> k = ''manifests'' \<and> sp_manifests A d = Some b)}"

definition listed_copies :: "db \<Rightarrow> copy set" where
  "listed_copies s = spec_copies (abs_db s)"

text \<open>What an action, and what a list of them, claims.\<close>

fun claim_of :: "registry_action \<Rightarrow> copy set" where
  "claim_of (BlobStored ts d l u) = {(l, ''blobs'', d)}"
| "claim_of (ManifestStored ts d l u) = {(l, ''manifests'', d)}"
| "claim_of _ = {}"

definition claimed :: "registry_action list \<Rightarrow> copy set" where
  "claimed as = (\<Union>a \<in> set as. claim_of a)"

lemma claimed_append [simp]: "claimed [] = {}" "claimed (as @ bs) = claimed as \<union> claimed bs"
  by (auto simp: claimed_def)

lemma row_step_located:
  "row_step ts op row = Some b \<Longrightarrow> i \<in> locations b \<Longrightarrow>
   (\<exists>c. row = Some c \<and> i \<in> locations c) \<or> op = Store i"
  by (cases op) (auto simp: row_step_def fresh_row_def split: option.splits if_splits)

lemma spec_apply_copies:
  assumes "spec_apply u A = Some B" and "(i, k, e) \<in> spec_copies B"
  shows "(i, k, e) \<in> spec_copies A \<or> (\<exists>ts. k = ''blobs'' \<and> u = OnBlob e ts (Store i)) \<or>
    (\<exists>ts. k = ''manifests'' \<and> u = OnManifest e ts (Store i))"
proof (cases u)
  case (OnBlob d ts op)
  then obtain r where B: "B = A\<lparr>sp_blobs := (sp_blobs A)(d := r)\<rparr>" "r = row_step ts op (sp_blobs A d)"
    using assms(1) by (auto simp: row_try_def split: if_splits)
  have "(\<exists>c. sp_blobs A d = Some c \<and> i \<in> locations c) \<or> op = Store i" if "r = Some b" "i \<in> locations b" for b
    using row_step_located [of ts op "sp_blobs A d" b i] that B(2) by auto
  then show ?thesis using assms(2) B(1) OnBlob by (auto simp: spec_copies_def split: if_splits)
next
  case (OnManifest d ts op)
  then obtain r where B: "B = A\<lparr>sp_manifests := (sp_manifests A)(d := r)\<rparr>" "r = row_step ts op (sp_manifests A d)"
    using assms(1) by (auto simp: row_try_def split: if_splits)
  have "(\<exists>c. sp_manifests A d = Some c \<and> i \<in> locations c) \<or> op = Store i" if "r = Some b" "i \<in> locations b" for b
    using row_step_located [of ts op "sp_manifests A d" b i] that B(2) by auto
  then show ?thesis using assms(2) B(1) OnManifest by (auto simp: spec_copies_def split: if_splits)
qed (use assms in \<open>auto simp: spec_copies_def\<close>)

lemma apply_action_copies:
  assumes "apply_action a s = Some s'"
  shows "listed_copies s' \<subseteq> listed_copies s \<union> claim_of a"
proof -
  have run: "spec_apply (action_update a) (abs_db s) = Some (abs_db s')"
    using apply_action_spec [of a s] assms by (simp add: spec_action_def)
  have own: "action_update a = OnBlob d ts (Store i) \<Longrightarrow> (i, ''blobs'', d) \<in> claim_of a"
      "action_update a = OnManifest d ts (Store i) \<Longrightarrow> (i, ''manifests'', d) \<in> claim_of a" for i d ts
    by (cases a; simp)+
  show ?thesis
  proof
    fix x assume "x \<in> listed_copies s'"
    then show "x \<in> listed_copies s \<union> claim_of a"
      using spec_apply_copies [OF run, of "fst x" "fst (snd x)" "snd (snd x)"] own
      by (cases x) (auto simp: listed_copies_def simp del: claim_of.simps)
  qed
qed

lemma apply_actions_copies:
  "apply_actions as s = Some s' \<Longrightarrow> listed_copies s' \<subseteq> listed_copies s \<union> claimed as"
proof (induction as arbitrary: s)
  case (Cons a as)
  then obtain t where "apply_action a s = Some t" "apply_actions as t = Some s'"
    by (auto simp: apply_actions_def split: option.splits)
  with Cons.IH [of t] apply_action_copies [of a s t] show ?case by (auto simp: claimed_def)
qed (simp add: apply_actions_def)

lemma listed_raft [simp]:
  "listed_copies (set_last_applied_log_tx l s) = listed_copies s"
  "listed_copies (set_last_membership_tx m s) = listed_copies s"
  by (simp_all add: listed_copies_def abs_db_def spec_copies_def tx_simps)

definition log_claims :: "entry list \<Rightarrow> copy set" where
  "log_claims es = claimed (concat (map entry_actions es))"

lemma log_claims_simps [simp]:
  "log_claims [] = {}" "log_claims (es @ fs) = log_claims es \<union> log_claims fs"
  "log_claims [e] = claimed (entry_actions e)"
  by (simp_all add: log_claims_def)

lemma log_claims_mono: "set es \<subseteq> set fs \<Longrightarrow> log_claims es \<subseteq> log_claims fs"
  by (auto simp: log_claims_def claimed_def)

lemma apply_entry_copies:
  "apply_entry e (s, rs) = Some (s', rs') \<Longrightarrow> listed_copies s' \<subseteq> listed_copies s \<union> claimed (entry_actions e)"
  by (auto simp: apply_entry_eq split: entry_payload.splits dest!: apply_actions_copies)

lemma apply_transaction_copies:
  "apply_transaction es s = Some (s', rs) \<Longrightarrow> listed_copies s' \<subseteq> listed_copies s \<union> log_claims es"
proof (induction es arbitrary: s' rs rule: rev_induct)
  case (snoc e es)
  then obtain t qs where "apply_transaction es s = Some (t, qs)" and "apply_entry e (t, qs) = Some (s', rs)"
    by (auto simp: apply_transaction_def fold_opt_append split: option.splits)
  with snoc.IH apply_entry_copies [of e t qs s' rs] show ?case by fastforce
qed simp

text \<open>What a node reports in a safe step is on its disk.\<close>

definition disk_copies :: "env \<Rightarrow> u64 \<Rightarrow> filesystem \<Rightarrow> copy set" where
  "disk_copies E i f = {(j, k, d). j = i \<and> k \<in> object_kinds \<and> has_copy E k d f}"

lemma backed_disk: "backed E i f a \<Longrightarrow> claim_of a \<subseteq> disk_copies E i f"
  by (cases a) (auto simp: disk_copies_def object_kinds_def)

lemma keeps_disk: "keeps_objects E f f' \<Longrightarrow> disk_copies E i f \<subseteq> disk_copies E i f'"
  by (auto simp: disk_copies_def keeps_objects_def has_copy_def)

lemma safe_step_claims:
  assumes "safe_step E n n'"
  shows "claimed (concat (submitted n')) \<subseteq> claimed (concat (submitted n)) \<union> disk_copies E (node_id n) (node_fs n')"
proof -
  obtain new where "submitted n' = submitted n @ new" "\<forall>as \<in> set new. \<forall>a \<in> set as. backed E (node_id n) (node_fs n') a"
    using assms unfolding safe_step_def by blast
  moreover from this have "claimed (concat new) \<subseteq> disk_copies E (node_id n) (node_fs n')"
    using backed_disk unfolding claimed_def by fastforce
  ultimately show ?thesis by auto
qed

section \<open>The operations\<close>

text \<open>What an operation of a node promises, whatever its request and whatever fails.\<close>

locale node_operation =
  fixes oper :: "env \<Rightarrow> 'q \<Rightarrow> node \<Rightarrow> node"
    and allowed :: "'q \<Rightarrow> bool"
  assumes safe: "hash_ok E \<Longrightarrow> allowed q \<Longrightarrow> safe_step E n (oper E q n)"
begin

lemma keeps_content: "hash_ok E \<Longrightarrow> allowed q \<Longrightarrow> files_ok E (node_fs n) \<Longrightarrow> files_ok E (node_fs (oper E q n))"
  using safe unfolding safe_step_def by blast

lemma keeps_store: "hash_ok E \<Longrightarrow> allowed q \<Longrightarrow> node_store (oper E q n) = node_store n"
  using safe unfolding safe_step_def by blast

end

lemma safe_stored_submit:
  assumes "safe_step E n m" and "\<And>a. a \<in> set as \<Longrightarrow> backed E (node_id n) (node_fs m) a"
  shows "safe_step E n (m\<lparr>submitted := submitted m @ [as]\<rparr>)"
proof -
  have "node_id m = node_id n" using assms(1) by (simp add: safe_step_def node_id_def)
  then show ?thesis using safe_trans [OF assms(1) safe_submit] assms(2) by simp
qed

lemma safe_same:
  assumes "files (node_fs n') = files (node_fs n)" and "node_store n' = node_store n" and "submitted n' = submitted n"
  shows "safe_step E n n'"
  using assms by (simp add: safe_step_def keeps_objects_def files_ok_def)

text \<open>An operation that stores an object and logs it.\<close>

lemma safe_stored:
  assumes "outside E p" and "k \<in> object_kinds" and "hex_digest d" and "content_digest E b = d"
    and "files (node_fs n') = (files (node_fs n))(p := None, object_path k (root E) d \<mapsto> b)"
    and "node_store n' = node_store n" and "submitted n' = submitted n @ [as]"
    and "\<And>a. a \<in> set as \<Longrightarrow> has_copy E k d (node_fs n') \<Longrightarrow> backed E (node_id n) (node_fs n') a"
  shows "safe_step E n n'"
proof -
  note S = safe_store [OF assms(1-5)]
  have "has_copy E k d (node_fs n')" using assms(3,5) by (simp add: has_copy_def)
  then have "\<forall>a \<in> set as. backed E (node_id n) (node_fs n') a" using assms(8) by blast
  then show ?thesis using S assms(6,7) by (simp add: safe_step_def)
qed

lemma commit_upload_safe:
  assumes "hash_ok E" and "outside E p"
  shows "safe_step E n (fst (commit_upload E tok r p d n))"
proof -
  obtain n' rep where run: "commit_upload E tok r p d n = (n', rep)" by (metis surj_pair)
  note F = commit_upload_facts [OF assms(1) run]
  have "safe_step E n n'"
  proof (cases "files (node_fs n') = files (node_fs n) \<and> submitted n' = submitted n")
    case True
    then show ?thesis using F by (intro safe_same) auto
  next
    case False
    then obtain b where b: "content_digest E b = d"
        "files (node_fs n') = (files (node_fs n))(p := None, blob_file (root E) d \<mapsto> b)"
        "submitted n' = submitted n @ [upload_actions E tok r d (of_nat (length b)) (node_id n)]"
      using F by blast
    show ?thesis
      by (rule safe_stored [OF assms(2) _ _ b(1,2) _ b(3)])
        (use F b(1) content_digest_hex [OF assms(1), of b] in \<open>auto simp: object_kinds_def upload_actions_def\<close>)
  qed
  then show ?thesis using run by simp
qed

lemma upload_put_safe: "hash_ok E \<Longrightarrow> safe_step E n (fst (upload_put E tok r i d cs n))"
  using safe_with_upload [OF outside_uploads(1) commit_upload_safe [OF _ outside_uploads(1)]]
  by (simp add: upload_put_def Let_def)

lemma start_upload_safe:
  assumes "hash_ok E"
  shows "safe_step E n (fst (start_upload E tok r d cs n))"
proof (cases d)
  case None
  have "safe_step E n (n\<lparr>node_fs := f\<rparr>)" if "open_append (env_io E) (get_upload_path (root E) (uuid E)) (node_fs n) = Some f" for f
    using that by (intro safe_one_file [OF outside_uploads(1), of _ "uuid E"]) (auto simp: open_append_def split: if_splits)
  then show ?thesis using None by (simp add: start_upload_def Let_def split: option.splits)
qed (use safe_with_upload [OF outside_uploads(1) commit_upload_safe [OF assms outside_uploads(1)]]
    in \<open>simp add: start_upload_def Let_def\<close>)

lemma upload_post_safe:
  assumes "hash_ok E"
  shows "safe_step E n (fst (upload_post E tok r m s d cs n))"
proof -
  have "safe_step E n (fst (mount_blob E tok r e n))" for e
    using safe_write_node [of "[BlobMounted (clock E 0) e r (sub tok)]" E n]
    by (auto simp: mount_blob_def write_node_def split: option.splits bool.splits)
  then show ?thesis using start_upload_safe [OF assms] by (auto simp: upload_post_def split: option.splits)
qed

lemma patch_body_safe: "safe_step E n (fst (patch_body E r i cs n))"
  unfolding patch_body_def Let_def
  by (rule safe_with_upload [OF outside_uploads(1)]) (auto split: option.splits)

lemma upload_patch_safe: "safe_step E n (fst (upload_patch E tok r i cr cs n))"
  using patch_body_safe by (auto simp: upload_patch_def Let_def split: option.splits)

lemma upload_get_safe: "safe_step E n (fst (upload_get E tok r i n))"
  by (auto simp: upload_get_def Let_def split: option.splits)

lemma upload_delete_safe: "safe_step E n (fst (upload_delete E tok r i n))"
proof -
  have "safe_step E n (n\<lparr>node_fs := f\<rparr>)" if "remove_file (env_io E) (get_upload_path (root E) i) (node_fs n) = Some f" for f
    using that by (intro safe_one_file [OF outside_uploads(1), of _ i]) (auto simp: remove_file_def split: if_splits)
  then show ?thesis by (auto simp: upload_delete_def Let_def split: option.splits)
qed

lemma analyse_manifest_safe:
  assumes "hash_ok E" and "codec_ok C" and "outside E p"
  shows "safe_step E n (fst (analyse_manifest C E tok r tag cth p n))"
proof -
  obtain n' rep where run: "analyse_manifest C E tok r tag cth p n = (n', rep)" by (metis surj_pair)
  from run have "safe_step E n n'"
  proof (cases rule: analyse_manifest_cases)
    case stop
    then show ?thesis by (intro safe_same)
  next
    case (commit b ct infos f)
    let ?d = "content_digest E b"
    have hex: "hex_digest ?d" using content_digest_hex [OF assms(1)] .
    have f: "files f = files (node_fs n)" using extract_actions_more_dirs [OF commit(3)] by (simp add: more_dirs_def)
    have infos: "backed E i g a" if "a \<in> set infos" for a i g
      using that extract_actions_result [OF assms(2) commit(3)] by fastforce
    note F = commit_manifest_facts [OF hex commit(4)]
    show ?thesis
    proof (cases "files (node_fs n') = files f \<and> submitted n' = submitted n")
      case True
      then show ?thesis using F f by (intro safe_same) auto
    next
      case False
      then have st: "files (node_fs n') = (files (node_fs n))(p := None, object_path ''manifests'' (root E) ?d \<mapsto> b)"
          "submitted n' = submitted n @ [manifest_actions E tok r ?d tag (of_nat (length b)) (node_id n) infos]"
        using F f commit(1) by (auto simp: node_id_def)
      show ?thesis
        by (rule safe_stored [OF assms(3) _ hex refl st(1) _ st(2)])
          (use F infos in \<open>auto simp: object_kinds_def manifest_actions_def Let_def\<close>)
    qed
  qed
  then show ?thesis using run by simp
qed

lemma manifest_put_safe:
  "hash_ok E \<Longrightarrow> codec_ok C \<Longrightarrow> safe_step E n (fst (manifest_put C E tok r tag cth cs n))"
  using safe_with_upload [OF outside_uploads(2) analyse_manifest_safe [OF _ _ outside_uploads(2)]]
  by (simp add: manifest_put_def Let_def)

lemma blob_delete_safe: "safe_step E n (fst (blob_delete E tok r d n))"
  using safe_write_node [of "[BlobUnmounted (clock E 0) d r (sub tok)]" E n]
  by (auto simp: blob_delete_def write_node_def split: option.splits bool.splits)

lemma unmount_manifest_safe: "safe_step E n (fst (unmount_manifest E tok r d n))"
  using safe_write_node [of "[ManifestUnmounted (clock E 0) d r (sub tok)]" E n]
  by (auto simp: unmount_manifest_def write_node_def split: option.splits bool.splits)

lemma manifest_deletes_safe:
  "safe_step E n (fst (manifest_delete E tok r d n))" "safe_step E n (fst (manifest_delete_by_tag E tok r t n))"
  using unmount_manifest_safe by (auto simp: manifest_delete_def manifest_delete_by_tag_def split: option.splits)

lemma get_manifest_path_more_dirs: "get_manifest_path io rt d f = Some (p, f') \<Longrightarrow> more_dirs f f'"
  by (auto simp: get_manifest_path_def Let_def more_dirs_def dest: create_dir_all_files split: option.splits)

lemma send_safe:
  "safe_step E n (fst (send_blob E d row n))" "safe_step E n (fst (send_manifest E d row n))"
proof -
  have "safe_step E n (n\<lparr>node_fs := f\<rparr>)" if "more_dirs (node_fs n) f" for f
    using that by (intro safe_same_files) (simp add: more_dirs_def)
  note D = this [OF get_blob_path_more_dirs] this [OF get_manifest_path_more_dirs]
  show "safe_step E n (fst (send_blob E d row n))"
    using D(1) by (auto simp: send_blob_def Let_def split: option.splits)
  show "safe_step E n (fst (send_manifest E d row n))"
    using D(2) by (auto simp: send_manifest_def Let_def split: option.splits)
qed

text \<open>A transfer and, when it succeeds, the report of the new copy.\<close>

definition transfer :: "env \<Rightarrow> net \<Rightarrow> mirror_request \<Rightarrow> node \<Rightarrow> node" where
  "transfer E N q n =
     (case do_transfer E N q n of
        (n, Some (Success _ a)) \<Rightarrow> n\<lparr>submitted := submitted n @ [[a]]\<rparr>
      | (n, _) \<Rightarrow> n)"

lemma mirrored_safe:
  assumes "hash_ok E" and "mirrored E q b (node_fs n) f"
  shows "safe_step E n (n\<lparr>node_fs := f\<rparr>)" and "has_copy E (object_type q) (request_digest q) f"
proof -
  let ?p = "get_temp_mirror_path (uuid E) (root E)" and ?o = "object_path (object_type q) (root E) (request_digest q)"
  have hex: "hex_digest (request_digest q)" using content_digest_hex [OF assms(1)] assms(2) by (metis mirrored_def)
  have files: "files f = (files (node_fs n))(?p := None, ?o \<mapsto> b)"
    using assms(2) mirror_path_outside [of "uuid E" E q "request_digest q"] by (auto simp: mirrored_def fun_eq_iff)
  show "safe_step E n (n\<lparr>node_fs := f\<rparr>)"
    by (rule safe_store [OF outside_uploads(3) _ hex _ files])
      (use assms(2) object_type_cases [of q] in \<open>auto simp: mirrored_def object_kinds_def\<close>)
  show "has_copy E (object_type q) (request_digest q) f" using hex files by (simp add: has_copy_def)
qed

lemma transfer_safe:
  assumes "hash_ok E"
  shows "safe_step E n (transfer E N q n)"
proof -
  obtain n' rep where run: "do_transfer E N q n = (n', rep)" by (metis surj_pair)
  from run show ?thesis
  proof (cases rule: do_transfer_cases)
    case idle
    then show ?thesis using run by (auto simp: transfer_def split: option.splits mirror_result.splits)
  next
    case (fetched row chunks)
    from assms fetched(5) show ?thesis
    proof (cases rule: store_download_cases)
      case (stop f)
      have "safe_step E n (n\<lparr>node_fs := f\<rparr>)"
        by (rule safe_one_file [OF outside_uploads(3) [of E "uuid E"]]) (use stop(2) in \<open>simp add: kept_outside_def\<close>)
      then show ?thesis using run stop(1,3) by (auto simp: transfer_def split: option.splits mirror_result.splits)
    next
      case (stored f)
      note M = mirrored_safe [OF assms stored(3)]
      obtain a where a: "mirror_success (clock E 0) (node_id n) q = Success q a" using mirror_success_action by blast
      then have "backed E (node_id n) f a" using M(2) by (cases q) auto
      then have "safe_step E n (n'\<lparr>submitted := submitted n' @ [[a]]\<rparr>)"
        using safe_stored_submit [OF M(1), of "[a]"] stored(1) by simp
      then show ?thesis using run stored(4) a by (simp add: transfer_def)
    qed
  qed
qed

interpretation put_op: node_operation "\<lambda>E (tok, r, i, d, cs) n. fst (upload_put E tok r i d cs n)" "\<lambda>_. True"
  by unfold_locales (auto intro: upload_put_safe)

interpretation post_op: node_operation "\<lambda>E (tok, r, m, s, d, cs) n. fst (upload_post E tok r m s d cs n)" "\<lambda>_. True"
  by unfold_locales (auto intro: upload_post_safe)

interpretation patch_op: node_operation "\<lambda>E (tok, r, i, cr, cs) n. fst (upload_patch E tok r i cr cs n)" "\<lambda>_. True"
  by unfold_locales (auto intro: upload_patch_safe)

interpretation manifest_put_op: node_operation
  "\<lambda>E (C, tok, r, t, ct, cs) n. fst (manifest_put C E tok r t ct cs n)" "\<lambda>(C, _). codec_ok C"
  by unfold_locales (auto intro: manifest_put_safe)

interpretation transfer_op: node_operation "\<lambda>E (N, q) n. transfer E N q n" "\<lambda>_. True"
  by unfold_locales (auto intro: transfer_safe)

section \<open>Requests\<close>

text \<open>The node while a read waits for the mirror: its channel is registered.\<close>

fun paused :: "nat \<Rightarrow> request \<Rightarrow> node \<Rightarrow> node" where
  "paused w (Head_Blob r d) n = n\<lparr>node_store := wait_for_blob d w (node_store n)\<rparr>"
| "paused w (Get_Blob r d) n = n\<lparr>node_store := wait_for_blob d w (node_store n)\<rparr>"
| "paused w (Head_Manifest r d) n = n\<lparr>node_store := wait_for_manifest d w (node_store n)\<rparr>"
| "paused w (Get_Manifest r d) n = n\<lparr>node_store := wait_for_manifest d w (node_store n)\<rparr>"
| "paused w (Head_Manifest_Tag r t) n =
     (case get_tag (sm_db (node_store n)) r t of
        None \<Rightarrow> n | Some d \<Rightarrow> n\<lparr>node_store := wait_for_manifest d w (node_store n)\<rparr>)"
| "paused w (Get_Manifest_Tag r t) n =
     (case get_tag (sm_db (node_store n)) r t of
        None \<Rightarrow> n | Some d \<Rightarrow> n\<lparr>node_store := wait_for_manifest d w (node_store n)\<rparr>)"
| "paused w _ n = n"

text \<open>A read either never waits, or goes on from the node its wait has left.\<close>

lemma blob_get_cases:
  "safe_step E n (fst (blob_get E tok r d w resume n)) \<or>
   safe_step E (resume (n\<lparr>node_store := wait_for_blob d w (node_store n)\<rparr>)) (fst (blob_get E tok r d w resume n))"
  using send_safe(1) by (auto simp: blob_get_def split: option.splits)

lemma read_manifest_cases:
  "safe_step E n (fst (read_manifest E r d w resume n)) \<or>
   safe_step E (resume (n\<lparr>node_store := wait_for_manifest d w (node_store n)\<rparr>)) (fst (read_manifest E r d w resume n))"
  using send_safe(2) by (auto simp: read_manifest_def split: option.splits)

lemma handle_cases:
  assumes "hash_ok E" and "codec_ok C"
  shows "safe_step E n (fst (handle C ser E tok cs w resume req n)) \<or>
    safe_step E (resume (paused w req n)) (fst (handle C ser E tok cs w resume req n))"
proof (cases req)
  case (Put_Manifest r t ct)
  then show ?thesis using manifest_put_safe [OF assms] by simp
next
  case (Head_Blob r d)
  then show ?thesis using blob_get_cases by (simp add: blob_head_def)
next
  case (Get_Blob r d)
  then show ?thesis using blob_get_cases by simp
next
  case (Head_Manifest r d)
  then show ?thesis using read_manifest_cases by (simp add: manifest_head_def manifest_get_def)
next
  case (Get_Manifest r d)
  then show ?thesis using read_manifest_cases by (simp add: manifest_get_def)
next
  case (Head_Manifest_Tag r t)
  then show ?thesis using read_manifest_cases
    by (simp add: manifest_head_by_tag_def manifest_get_by_tag_def split: option.splits)
next
  case (Get_Manifest_Tag r t)
  then show ?thesis using read_manifest_cases by (simp add: manifest_get_by_tag_def split: option.splits)
qed (use upload_put_safe [OF assms(1)] upload_post_safe [OF assms(1)] upload_patch_safe upload_get_safe
    upload_delete_safe blob_delete_safe manifest_deletes_safe in simp_all)

text \<open>The same for a request from the socket.\<close>

definition paused_request :: "nat \<Rightarrow> http_request \<Rightarrow> node \<Rightarrow> node" where
  "paused_request w q n =
     (case route (verb q) (uri q) of
        None \<Rightarrow> n
      | Some (e, vs) \<Rightarrow> (case decode_request q e vs of Inl _ \<Rightarrow> n | Inr req \<Rightarrow> paused w req n))"

lemma serve_cases:
  assumes "hash_ok E" and "codec_ok C"
  shows "safe_step E n (fst (serve A C ser E w resume q n)) \<or>
    safe_step E (resume (paused_request w q n)) (fst (serve A C ser E w resume q n))"
  using handle_cases [OF assms]
  by (auto simp: serve_def paused_request_def split: option.splits sum.splits prod.splits) (metis fst_conv)+

section \<open>Peers and the collector\<close>

text \<open>Environments of the same installation: the storage root and the hash functions do not change.\<close>

definition same_disk :: "env \<Rightarrow> env \<Rightarrow> bool" where
  "same_disk E E' \<longleftrightarrow> root E' = root E \<and> sha256 E' = sha256 E \<and> hexlower E' = hexlower E"

lemma peer_served_safe: "safe_step E n (fst (peer_get_blob E d n))" "safe_step E n (fst (peer_get_manifest E d n))"
  using send_safe by (simp_all add: peer_get_blob_def peer_get_manifest_def split: option.splits)

lemma unmounted_safe:
  assumes "do_garbage_collect_phase1 pick it now at n = Some n'"
  shows "safe_step E n n'"
proof -
  have "backed E i f a" if "a \<in> set (phase1_actions it now at ms bs)" for i f a ms bs
    using that by (auto simp: phase1_actions_def unmount_old_def split: if_splits)
  then show ?thesis using assms safe_submit [of _ E n]
    by (auto simp: do_garbage_collect_phase1_def submit_node_def Let_def split: option.splits if_splits)
qed

text \<open>A sweep of the second phase only deletes files, and claims nothing.\<close>

lemma sweep_removes:
  assumes "\<And>io rt d f p g. locate io rt d f = Some (p, g) \<Longrightarrow> files g = files f"
    and "sweep locate unstored E i kvs f = Some (f', as)"
  shows "(files f' q = files f q \<or> files f' q = None) \<and> set as \<subseteq> range unstored"
  using assms(2)
proof (induction kvs arbitrary: f as)
  case (Cons kv kvs)
  show ?case
  proof (cases "i \<in> locations (snd kv) \<and> repositories (snd kv) = {}")
    case True
    with Cons.prems obtain p g h ok bs where
      loc: "locate (env_io E) (root E) (fst kv) f = Some (p, g)"
      and clean: "cleanup_object (env_io E) p g = Some (h, ok)"
      and rest: "sweep locate unstored E i kvs h = Some (f', bs)" "as = (if ok then unstored (fst kv) # bs else bs)"
      by (auto split: option.splits prod.splits)
    have "files h = files f \<or> files h = (files f)(p := None)"
      using cleanup_object_files [OF clean] assms(1) [OF loc] by simp
    then have "files h q = files f q \<or> files h q = None" by (cases "q = p") auto
    with Cons.IH [OF rest(1)] rest(2) show ?thesis by auto
  qed (use Cons in \<open>auto split: if_splits\<close>)
qed simp

lemma phase2_removes:
  assumes "do_garbage_collect_phase2 pick now E n = Some n'"
  shows "node_store n' = node_store n" and "files (node_fs n') q = files (node_fs n) q \<or> files (node_fs n') q = None"
    and "claimed (concat (submitted n')) = claimed (concat (submitted n))"
proof -
  have same: "get_manifest_path io rt d f = Some (p, g) \<Longrightarrow> files g = files f"
      "get_blob_path io rt d f = Some (p, g) \<Longrightarrow> files g = files f" for io rt d f p g
    using get_manifest_path_more_dirs get_blob_path_more_dirs by (auto simp: more_dirs_def)
  obtain f as bs g cs where
    ms: "sweep get_manifest_path (\<lambda>d. ManifestUnstored (now Manifest_Kind d) d (node_id n) ''$system'') E
      (node_id n) (get_orphaned_manifests (node_store n)) (node_fs n) = Some (f, as)"
    and sb: "sweep get_blob_path (\<lambda>d. BlobUnstored (now Blob_Kind d) d (node_id n) ''$system'') E
      (node_id n) bs f = Some (g, cs)"
    and n': "n' = submit_node (as @ cs) (n\<lparr>node_fs := g\<rparr>)"
    using assms by (auto simp: do_garbage_collect_phase2_def split: option.splits)
  have M: "(files f q = files (node_fs n) q \<or> files f q = None) \<and>
      set as \<subseteq> range (\<lambda>d. ManifestUnstored (now Manifest_Kind d) d (node_id n) ''$system'')" for q
    by (rule sweep_removes [OF same(1) ms])
  have B: "(files g q = files f q \<or> files g q = None) \<and>
      set cs \<subseteq> range (\<lambda>d. BlobUnstored (now Blob_Kind d) d (node_id n) ''$system'')" for q
    by (rule sweep_removes [OF same(2) sb])
  show "node_store n' = node_store n" by (simp add: n' submit_node_def)
  show "files (node_fs n') q = files (node_fs n) q \<or> files (node_fs n') q = None"
    using M [of q] B [of q] by (auto simp: n' submit_node_def)
  have "claim_of a = {}" if "a \<in> set (as @ cs)" for a
    using that conjunct2 [OF M] conjunct2 [OF B] by auto
  then have "claimed (as @ cs) = {}" by (simp add: claimed_def)
  then show "claimed (concat (submitted n')) = claimed (concat (submitted n))" by (simp add: n' submit_node_def)
qed

section \<open>A push in one request\<close>

definition open_auth :: auth where
  "open_auth = \<lparr>verify_token = (\<lambda>_ _. None), token_settings = None\<rparr>"

definition push_request :: http_request where
  "push_request = \<lparr>verb = Post, uri = ''/v2/r/blobs/uploads'',
     query = (\<lambda>k. if k = ''digest'' then Some (digest_to_string a64) else None),
     request_header = (\<lambda>_. None), chunks = [Some ''abc'']\<rparr>"

lemma push_route: "route Post ''/v2/r/blobs/uploads'' = Some (Upload_Post, [''r''])"
  by code_simp

text \<open>The node the default configuration starts on an empty disk.\<close>

definition started_fs :: filesystem where
  "started_fs = empty_fs\<lparr>dirs := dirs empty_fs \<union> {take k [''var'', ''manifests''] | k. k \<le> 2} \<union>
     {take k [''var'', ''blobs''] | k. k \<le> 2}\<rparr>"

definition started_node :: node where
  "started_node = \<lparr>node_store = new_store 1 empty_db, node_fs = started_fs, submitted = [], events = []\<rparr>"

definition sample_host :: host where
  "sample_host = \<lparr>open_db = (\<lambda>_. Some empty_db), raft_new = (\<lambda>_. True),
     tls_lib = \<lparr>pkcs8_private_keys = (\<lambda>_. []), rsa_signing_key = (\<lambda>_. False), pem_certs = (\<lambda>_. []),
       watcher_new = False, watch_path = (\<lambda>_. False)\<rparr>, bind_port = (\<lambda>_ _. True)\<rparr>"

lemma default_started:
  "start_node default_configuration (\<lambda>_. True) sample_host empty_fs = (started_fs, Some (Inr started_node))"
proof -
  have push: "path_push (components ''var'') c = [''var'', c]" if "c \<in> {''uploads'', ''manifests'', ''blobs''}" for c
    using that by (auto simp: path_push_plain plain_def components_def starts_with_def)
  have i: "config_id ''localhost-0'' = Inr 1"
    by (simp add: config_id_def rsplit_once_def parse_u64_def digit_value_def)
  let ?g = "empty_fs\<lparr>dirs := dirs empty_fs \<union> {take k [''var'', ''manifests''] | k. k \<le> 2}\<rparr>"
  have c1: "create_dir (\<lambda>_. True) ''var'' ''uploads'' empty_fs = Some empty_fs"
    by (simp add: create_dir_def push path_exists_def empty_fs_def)
  have c2: "create_dir (\<lambda>_. True) ''var'' ''manifests'' empty_fs = Some ?g"
    by (simp add: create_dir_def push path_exists_def create_dir_all_def empty_fs_def numeral_2_eq_2)
  have "take k [''var'', ''manifests''] \<noteq> [''var'', ''blobs'']" for k by (cases k; cases "k - 1") auto
  then have "[''var'', ''blobs''] \<notin> dirs ?g" by (auto simp: empty_fs_def dest: sym)
  then have c3: "create_dir (\<lambda>_. True) ''var'' ''blobs'' ?g = Some started_fs"
    by (simp add: create_dir_def push path_exists_def create_dir_all_def empty_fs_def started_fs_def numeral_2_eq_2)
  have dirs: "create_dirs (\<lambda>_. True) ''var'' [''uploads'', ''manifests'', ''blobs''] empty_fs = (started_fs, True)"
    by (simp add: c1 c2 c3)
  show ?thesis using i dirs
    by (simp add: start_node_def default_configuration_def started_node_def sample_host_def start_servers_def default_raft_def)
qed

lemma started_dirs:
  "[''var'', ''uploads''] \<in> dirs started_fs" "files started_fs = Map.empty"
  "length p > 2 \<Longrightarrow> p \<notin> dirs started_fs"
  by (auto simp: started_fs_def empty_fs_def)

text \<open>The same node with another id.\<close>

definition sample_nodes :: "u64 \<Rightarrow> node" where
  "sample_nodes i = started_node\<lparr>node_store := new_store i empty_db\<rparr>"

lemma sample_nodes_started: "sample_nodes 1 = started_node"
  by (simp add: sample_nodes_def started_node_def)

lemma push_served:
  "\<exists>n' h. serve open_auth C ser sample_env w resume push_request (started_node\<lparr>node_store := st\<rparr>) = (n', Some (Inr (Inr h))) \<and>
     upload_post sample_env admin_token (RepositoryName ''r'') None None (Some a64) [Some ''abc''] (started_node\<lparr>node_store := st\<rparr>) =
       (n', Some (Inr h)) \<and>
     node_store n' = st \<and>
     submitted n' = [upload_actions sample_env admin_token (RepositoryName ''r'') a64 3 (store_id st)] \<and>
     files (node_fs n') = [blob_file [''var''] a64 \<mapsto> ''abc'']"
proof -
  let ?p = "[''var'', ''uploads'', ''blob-u'']" and ?r = "RepositoryName ''r''"
  let ?f = "started_fs\<lparr>files := [?p \<mapsto> ''abc'']\<rparr>"
  let ?n = "(started_node\<lparr>node_store := st\<rparr>)\<lparr>node_fs := ?f\<rparr>"
  obtain n' h where run: "commit_upload sample_env admin_token ?r ?p a64 ?n = (n', Some (Inr h))"
    using sample_commit [of ?n "''abc''" ?r] started_dirs(3) [of "blob_file [''var''] a64"]
    by (auto simp: object_path_def Let_def)
  have n': "node_store n' = st"
      "submitted n' = [upload_actions sample_env admin_token ?r a64 3 (store_id st)]"
      "files (node_fs n') = [blob_file [''var''] a64 \<mapsto> ''abc'']"
    using commit_upload_facts [OF sample_env_hash run] by (simp_all add: started_node_def node_id_def)
  have "upload_part (\<lambda>_. True) ?p [Some ''abc''] (node_fs (started_node\<lparr>node_store := st\<rparr>)) = (?f, Some True)"
    using started_dirs by (simp add: upload_part_def open_append_def parent_exists_def path_parent_def started_node_def
        append_file_def)
  then have post: "upload_post sample_env admin_token ?r None None (Some a64) [Some ''abc''] (started_node\<lparr>node_store := st\<rparr>) =
      (n', Some (Inr h))"
    using run by (simp add: upload_post_def start_upload_def with_upload_def sample_upload_path admin_token_def
        has_permission_def)
  have "from_request (\<lambda>_ _. None) None None = Some (Inr admin_token)"
    by (simp add: from_request_def admin_token_def)
  moreover have "digest_try_from (digest_to_string a64) = Some (Inr a64)"
    by (rule digest_try_from_print) (simp add: digest_wf_def a64_def)
  ultimately have "serve open_auth C ser sample_env w resume push_request (started_node\<lparr>node_store := st\<rparr>) = (n', Some (Inr (Inr h)))"
    using post by (simp add: serve_def push_request_def push_route open_auth_def decode_request_def and_then_def
        query_digest_def)
  with post n' show ?thesis by blast
qed

end
