(* ===== verification/Metrics.thy ===== *)
theory Metrics
  imports Startup
begin

text \<open>
  The metrics: the gauges of \<^verbatim>\<open>src/store/metrics.rs\<close> and the task that copies raft's metrics into them,
  the request counters of \<^verbatim>\<open>src/middleware/prometheus.rs\<close>, and the two endpoints of
  \<^verbatim>\<open>src/prometheus.rs\<close>. A gauge is a signed 64-bit integer; a value that does not fit leaves it as it was.
  Durations are natural numbers here, and the text encoding is a parameter.
\<close>

section \<open>Raft gauges\<close>

record raft_metrics =
  rm_id :: u64
  rm_current_term :: u64
  rm_last_log_index :: "u64 option"
  rm_last_applied :: "log_id option"
  rm_snapshot :: "log_id option"
  rm_replication :: "(u64 \<times> log_id option) list option"

record storage_metrics =
  hs_index :: int
  hs_term :: int
  applied_index :: int
  applied_term :: int
  matched_term :: "u64 \<Rightarrow> int option"
  matched_index :: "u64 \<Rightarrow> int option"
  snapshot_index :: int
  snapshot_term :: int
  flushed_bytes :: u64

definition fresh_metrics :: storage_metrics where
  "fresh_metrics = \<lparr>hs_index = 0, hs_term = 0, applied_index = 0, applied_term = 0,
     matched_term = Map.empty, matched_index = Map.empty, snapshot_index = 0, snapshot_term = 0, flushed_bytes = 0\<rparr>"

text \<open>\<open>u64::try_into::<i64>\<close>\<close>

definition fits_i64 :: "u64 \<Rightarrow> bool" where
  "fits_i64 x \<longleftrightarrow> uint x < 2 ^ 63"

definition to_i64 :: "u64 \<Rightarrow> int option" where
  "to_i64 x = (if fits_i64 x then Some (uint x) else None)"

definition set_gauge :: "u64 \<Rightarrow> (int \<Rightarrow> 'm \<Rightarrow> 'm) \<Rightarrow> 'm \<Rightarrow> 'm" where
  "set_gauge x upd m = (case to_i64 x of None \<Rightarrow> m | Some v \<Rightarrow> upd v m)"

definition set_matched_index :: "u64 \<Rightarrow> u64 \<Rightarrow> storage_metrics \<Rightarrow> storage_metrics" where
  "set_matched_index peer x = set_gauge x (\<lambda>v m. m\<lparr>matched_index := (matched_index m)(peer \<mapsto> v)\<rparr>)"

fun set_peers :: "(u64 \<times> log_id option) list \<Rightarrow> storage_metrics \<Rightarrow> storage_metrics" where
  "set_peers [] m = m"
| "set_peers ((peer, None) # ps) m = set_peers ps m"
| "set_peers ((peer, Some l) # ps) m = set_peers ps (set_matched_index peer (li_index l) m)"

definition when_some :: "'a option \<Rightarrow> ('a \<Rightarrow> 'm \<Rightarrow> 'm) \<Rightarrow> 'm \<Rightarrow> 'm" where
  "when_some x k m = (case x of None \<Rightarrow> m | Some a \<Rightarrow> k a m)"

text \<open>One turn of the task: the node's own progress, then that of the peers if this node leads.\<close>

definition watch_own :: "raft_metrics \<Rightarrow> storage_metrics \<Rightarrow> storage_metrics" where
  "watch_own r m =
     (let m = set_gauge (rm_current_term r) (\<lambda>v m. m\<lparr>hs_term := v\<rparr>) m;
          m = when_some (rm_last_log_index r) (\<lambda>x. set_gauge x (\<lambda>v m. m\<lparr>hs_index := v\<rparr>)) m;
          m = when_some (rm_last_applied r) (\<lambda>l m.
            set_gauge (li_term l) (\<lambda>v m. m\<lparr>applied_term := v\<rparr>)
              (set_gauge (li_index l) (\<lambda>v m. m\<lparr>applied_index := v\<rparr>) m)) m
      in when_some (rm_snapshot r) (\<lambda>l m.
           set_gauge (li_term l) (\<lambda>v m. m\<lparr>snapshot_term := v\<rparr>)
             (set_gauge (li_index l) (\<lambda>v m. m\<lparr>snapshot_index := v\<rparr>) m)) m)"

definition watch_peers :: "raft_metrics \<Rightarrow> storage_metrics \<Rightarrow> storage_metrics" where
  "watch_peers r m =
     (case rm_replication r of
        None \<Rightarrow> m\<lparr>matched_index := Map.empty, matched_term := Map.empty\<rparr>
      | Some ps \<Rightarrow>
          set_peers ps (when_some (rm_last_log_index r) (set_matched_index (rm_id r))
            (set_gauge (rm_current_term r)
              (\<lambda>v m. m\<lparr>matched_term := (matched_term m)(rm_id r \<mapsto> v)\<rparr>) m)))"

definition watch_metrics :: "raft_metrics \<Rightarrow> storage_metrics \<Rightarrow> storage_metrics" where
  "watch_metrics r m = watch_peers r (watch_own r m)"

definition watch_all :: "raft_metrics list \<Rightarrow> storage_metrics \<Rightarrow> storage_metrics" where
  "watch_all rs m = fold watch_metrics rs m"

section \<open>What the gauges show\<close>

lemma set_gauge_eq: "set_gauge x upd m = (if fits_i64 x then upd (uint x) m else m)"
  by (simp add: set_gauge_def to_i64_def)

lemma when_some_simps [simp]: "when_some None k m = m" "when_some (Some a) k m = k a m"
  by (simp_all add: when_some_def)

lemma set_matched_index_eq:
  "set_matched_index p x m = (if fits_i64 x then m\<lparr>matched_index := (matched_index m)(p \<mapsto> uint x)\<rparr> else m)"
  by (simp add: set_matched_index_def set_gauge_eq)

text \<open>The peers change only the matched indexes.\<close>

lemma set_peers_sel:
  "(\<And>mi m. f (m\<lparr>matched_index := mi\<rparr>) = f m) \<Longrightarrow> f (set_peers ps m) = f m"
  by (induction ps m rule: set_peers.induct) (simp_all add: set_matched_index_eq)

lemma set_peers_other: "q \<notin> fst ` set ps \<Longrightarrow> matched_index (set_peers ps m) q = matched_index m q"
  by (induction ps m rule: set_peers.induct) (auto simp: set_matched_index_eq)

lemma set_peers_reported:
  assumes "(q, Some l) \<in> set ps" and "distinct (map fst ps)" and "fits_i64 (li_index l)"
  shows "matched_index (set_peers ps m) q = Some (uint (li_index l))"
  using assms
proof (induction ps m rule: set_peers.induct)
  case (3 peer k ps m)
  then show ?case by (cases "q = peer") (force simp: set_peers_other set_matched_index_eq)+
qed auto

text \<open>
  A turn on metrics whose values fit the gauges shows them all: the node's own progress, and on a leader
  the progress of the peers that report any; a node that does not lead shows no peer. A peer that has left
  the cluster keeps its last gauge for as long as this node leads.
\<close>

lemma watch_peers_sel:
  assumes "\<And>mi m. f (m\<lparr>matched_index := mi\<rparr>) = f m" and "\<And>mt m. f (m\<lparr>matched_term := mt\<rparr>) = f m"
  shows "f (watch_peers r m) = f m"
proof (cases "rm_replication r")
  case None
  then show ?thesis by (simp add: watch_peers_def assms)
next
  case (Some ps)
  then show ?thesis
    by (cases "rm_last_log_index r")
      (simp_all add: watch_peers_def set_peers_sel [of f, OF assms(1)] set_matched_index_eq set_gauge_eq assms)
qed

lemma watch_own_matched: "matched_index (watch_own r m) = matched_index m"
  by (cases "rm_last_log_index r"; cases "rm_last_applied r"; cases "rm_snapshot r")
    (simp_all add: watch_own_def Let_def set_gauge_eq)

lemma watch_metrics_own:
  "fits_i64 (rm_current_term r) \<Longrightarrow> hs_term (watch_metrics r m) = uint (rm_current_term r)"
  "rm_last_log_index r = Some i \<Longrightarrow> fits_i64 i \<Longrightarrow> hs_index (watch_metrics r m) = uint i"
  "rm_last_applied r = Some l \<Longrightarrow> fits_i64 (li_index l) \<Longrightarrow> applied_index (watch_metrics r m) = uint (li_index l)"
  "rm_snapshot r = Some l \<Longrightarrow> fits_i64 (li_index l) \<Longrightarrow> snapshot_index (watch_metrics r m) = uint (li_index l)"
  by (cases "rm_last_log_index r"; cases "rm_last_applied r"; cases "rm_snapshot r";
      simp add: watch_metrics_def watch_peers_sel [of hs_term] watch_peers_sel [of hs_index]
        watch_peers_sel [of applied_index] watch_peers_sel [of snapshot_index] watch_own_def Let_def set_gauge_eq)+

lemma watch_metrics_follower:
  "rm_replication r = None \<Longrightarrow>
     matched_index (watch_metrics r m) = Map.empty \<and> matched_term (watch_metrics r m) = Map.empty"
  by (simp add: watch_metrics_def watch_peers_def)

lemma watch_metrics_peer:
  assumes "rm_replication r = Some ps" and "distinct (map fst ps)" and "(q, Some l) \<in> set ps"
    and "fits_i64 (li_index l)"
  shows "matched_index (watch_metrics r m) q = Some (uint (li_index l))"
  using assms by (simp add: watch_metrics_def watch_peers_def set_peers_reported)

lemma watch_metrics_stale_peer:
  assumes "rm_replication r = Some ps" and "q \<noteq> rm_id r" and "q \<notin> fst ` set ps"
  shows "matched_index (watch_metrics r m) q = matched_index m q"
  using assms
  by (cases "rm_last_log_index r")
    (simp_all add: watch_metrics_def watch_peers_def set_peers_other set_gauge_eq set_matched_index_eq watch_own_matched)

section \<open>Counting requests\<close>

datatype verb_label = M_Get | M_Head | M_Post | M_Put | M_Patch | M_Delete | M_Options | M_Trace | M_Connect

datatype port_label = Raft_Port | Prometheus_Port | Registry_Port

record request_labels =
  rl_port :: port_label
  rl_verb :: verb_label
  rl_path :: string
  rl_status :: string

text \<open>The two families, a histogram kept as the durations it has observed.\<close>

record http_metrics =
  http_requests_total :: "request_labels \<Rightarrow> u64 option"
  http_requests_duration_seconds :: "request_labels \<Rightarrow> nat list option"
  hm_port :: port_label

datatype series = Requests_Total port_label nat | Requests_Duration port_label nat

text \<open>
  The middleware is built once for each worker of each server, and every time registers two names. Both
  names are registered with the counter.
\<close>

definition new_http_metrics :: "port_label \<Rightarrow> nat \<Rightarrow> (string \<times> series) list \<Rightarrow> http_metrics \<times> (string \<times> series) list"
  where
  "new_http_metrics p worker reg =
     (\<lparr>http_requests_total = Map.empty, http_requests_duration_seconds = Map.empty, hm_port = p\<rparr>,
      reg @ [(''distribd_http_requests'', Requests_Total p worker),
             (''distribd_http_requests_duration_seconds'', Requests_Total p worker)])"

definition to_verb_label :: "string \<Rightarrow> verb_label" where
  "to_verb_label v =
     (if v = ''CONNECT'' then M_Connect else if v = ''DELETE'' then M_Delete
      else if v = ''GET'' then M_Get else if v = ''HEAD'' then M_Head
      else if v = ''OPTIONS'' then M_Options else if v = ''PATCH'' then M_Patch
      else if v = ''POST'' then M_Post else if v = ''PUT'' then M_Put else M_Trace)"

definition count_request :: "request_labels \<Rightarrow> nat \<Rightarrow> http_metrics \<Rightarrow> http_metrics" where
  "count_request l secs m = m\<lparr>
     http_requests_total := (http_requests_total m)
       (l \<mapsto> (case http_requests_total m l of None \<Rightarrow> 0 | Some c \<Rightarrow> c) + 1),
     http_requests_duration_seconds := (http_requests_duration_seconds m)
       (l \<mapsto> (case http_requests_duration_seconds m l of None \<Rightarrow> [] | Some ds \<Rightarrow> ds) @ [secs])\<rparr>"

text \<open>
  \<open>call\<close> around the next service, which answers, fails or panics; \<open>secs\<close> is the time it took. Only an answer is counted.
\<close>

definition middleware_call ::
  "('s \<Rightarrow> 's \<times> ('e + http_response) option) \<Rightarrow> string \<Rightarrow> string \<Rightarrow> nat \<Rightarrow> 's \<times> http_metrics \<Rightarrow>
     ('s \<times> http_metrics) \<times> ('e + http_response) option" where
  "middleware_call svc v path secs sm =
     (case svc (fst sm) of
        (s, Some (Inr res)) \<Rightarrow>
          ((s, count_request \<lparr>rl_port = hm_port (snd sm), rl_verb = to_verb_label v, rl_path = path,
                              rl_status = nat_digits (status res)\<rparr> secs (snd sm)), Some (Inr res))
      | (s, res) \<Rightarrow> ((s, snd sm), res))"

text \<open>The answer of the wrapped service is passed on as it is.\<close>

lemma middleware_call_answer:
  "snd (middleware_call svc v path secs sm) = snd (svc (fst sm))"
  "fst (fst (middleware_call svc v path secs sm)) = fst (svc (fst sm))"
  by (auto simp: middleware_call_def split: prod.split option.split sum.split)

text \<open>A counter is the number of requests counted under its labels, modulo its width.\<close>

lemma requests_counted:
  "(case http_requests_total (fold (\<lambda>(l, secs). count_request l secs) rs m) l of None \<Rightarrow> 0 | Some c \<Rightarrow> c) =
     (case http_requests_total m l of None \<Rightarrow> 0 | Some c \<Rightarrow> c) + of_nat (count_list (map fst rs) l)"
  by (induction rs arbitrary: m) (auto simp: count_request_def)

text \<open>No server ever registers the durations it observes; two workers register the same names.\<close>

lemma durations_not_registered:
  assumes "\<And>n p w. (n, Requests_Duration p w) \<notin> set reg"
  shows "(n, Requests_Duration p w) \<notin> set (snd (fold (\<lambda>(q, k) (_, reg). new_http_metrics q k reg) ws (m, reg)))"
  using assms
proof (induction ws arbitrary: m reg)
  case (Cons qk ws)
  obtain q k where qk: "qk = (q, k)" by force
  obtain m' reg' where new: "new_http_metrics q k reg = (m', reg')" by force
  have "\<And>n p w. (n, Requests_Duration p w) \<notin> set reg'"
    using new Cons.prems by (auto simp: new_http_metrics_def)
  from Cons.IH [OF this] show ?case by (simp add: qk new)
qed simp

lemma workers_register_twice:
  "\<not> distinct (map fst (snd (new_http_metrics p w' (snd (new_http_metrics p w reg)))))"
  by (simp add: new_http_metrics_def)

section \<open>Endpoints\<close>

definition metrics_endpoint :: "('reg \<Rightarrow> string) \<Rightarrow> 'reg \<Rightarrow> http_response" where
  "metrics_endpoint encode registry =
     respond 200 [(''content-type'', ''application/openmetrics-text; version=1.0.0; charset=utf-8'')]
       (Text_Body (encode registry))"

definition healthz :: http_response where
  "healthz = respond 200 [] Empty_Body"

end
