(* ===== verification/Cluster.thy ===== *)
theory Cluster
  imports Snapshot Pending
begin

text \<open>
  A cluster of the stores of \<^verbatim>\<open>src/store/mod.rs\<close>: raft commits a log that only grows, and each replica, at
  its own pace, applies the next entries in batches of any size, restarts on its database, builds
  snapshots, and installs a snapshot some replica built earlier. Raft itself is what openraft promises: a
  replica is given the entries after the ones it has applied, and only snapshots that are not older.

  \<open>install_snapshot\<close> inserts what the snapshot has and removes nothing, so a replica that had more keeps it.
  The ghost field \<open>drifted\<close>, which no step reads, records the replicas this has happened to.
\<close>

section \<open>Steps of a cluster\<close>

record 'v cluster =
  committed :: "entry list"
  replica :: "u64 \<Rightarrow> registry_store"
  raft_disk :: "u64 \<Rightarrow> 'v raft_store"
  position :: "u64 \<Rightarrow> nat"
  snapshots :: "(nat \<times> registry_snapshot \<times> bool) set"
  drifted :: "u64 set"

text \<open>What a store reports to raft when it starts.\<close>

definition last_applied_state :: "registry_store \<Rightarrow> log_id option \<times> stored_membership" where
  "last_applied_state st = (get_last_applied_log (sm_db st), get_last_membership (sm_db st))"

text \<open>Every row and tag of the node is also in the snapshot: the install leaves nothing behind.\<close>

definition no_stale :: "serializable_sm \<Rightarrow> db \<Rightarrow> bool" where
  "no_stale sm s \<longleftrightarrow> fst ` set (blobs s) \<subseteq> fst ` set (sr_blobs sm) \<and>
     fst ` set (manifests s) \<subseteq> fst ` set (sr_manifests sm) \<and>
     fst ` set (tags s) \<subseteq> fst ` set (flat_tags (sr_tags sm))"

text \<open>
  A snapshot is kept with the entry it was built at and whether the replica that built it had drifted. An
  install makes a replica drift if the snapshot comes from one that had, or lacks a row or a tag the replica has; any
  other install makes the replica good again.
\<close>

inductive cluster_step ::
  "(serializable_sm \<Rightarrow> bytes) \<Rightarrow> (bytes \<Rightarrow> serializable_sm option) \<Rightarrow> (log_id \<Rightarrow> string) \<Rightarrow>
     'v cluster \<Rightarrow> 'v cluster \<Rightarrow> bool"
  for to_json from_json show_leader where
  commit: "cluster_step to_json from_json show_leader c (c\<lparr>committed := committed c @ [e]\<rparr>)"
| applies: "apply_to_state_machine (take m (drop (position c i) (committed c))) (replica c i) = Some (st, rs) \<Longrightarrow>
    position c i + m \<le> length (committed c) \<Longrightarrow>
    cluster_step to_json from_json show_leader c
      (c\<lparr>replica := (replica c)(i := st), position := (position c)(i := position c i + m)\<rparr>)"
| requests: "sm_db st = sm_db (replica c i) \<Longrightarrow> store_id st = store_id (replica c i) \<Longrightarrow>
    cluster_step to_json from_json show_leader c (c\<lparr>replica := (replica c)(i := st)\<rparr>)"
| restart: "cluster_step to_json from_json show_leader c
    (c\<lparr>replica := (replica c)(i := new_store (store_id (replica c i)) (sm_db (replica c i)))\<rparr>)"
| build: "build_snapshot to_json show_leader (replica c i) (raft_disk c i) = (snap, rd) \<Longrightarrow>
    from_json (snap_data snap) = Some (to_serializable (sm_db (replica c i))) \<Longrightarrow>
    cluster_step to_json from_json show_leader c
      (c\<lparr>raft_disk := (raft_disk c)(i := rd),
         snapshots := insert (position c i, snap, i \<in> drifted c) (snapshots c)\<rparr>)"
| install: "(k, snap, bad) \<in> snapshots c \<Longrightarrow> position c i \<le> k \<Longrightarrow> from_json (snap_data snap) = Some sm \<Longrightarrow>
    install_snapshot from_json (snap_meta snap) (snap_data snap) (replica c i) (raft_disk c i) = Inr (st, rd) \<Longrightarrow>
    cluster_step to_json from_json show_leader c
      (c\<lparr>replica := (replica c)(i := st), raft_disk := (raft_disk c)(i := rd), position := (position c)(i := k),
         drifted := (if bad \<or> \<not> no_stale sm (sm_db (replica c i)) then insert i (drifted c) else drifted c - {i})\<rparr>)"

section \<open>The same replicated state\<close>

text \<open>What a replica answers from; a database that has never seen a membership answers the empty one.\<close>

definition same_state :: "db \<Rightarrow> db \<Rightarrow> bool" where
  "same_state s t \<longleftrightarrow> abs_db s = abs_db t \<and> get_last_applied_log s = get_last_applied_log t \<and>
     get_last_membership s = get_last_membership t"

lemma same_state_refl [simp]: "same_state s s"
  by (simp add: same_state_def)

lemma same_state_sym: "same_state s t \<Longrightarrow> same_state t s"
  by (simp add: same_state_def)

lemma same_state_trans: "same_state s t \<Longrightarrow> same_state t u \<Longrightarrow> same_state s u"
  by (simp add: same_state_def)

lemma abs_db_raft [simp]:
  "abs_db (set_last_applied_log_tx l s) = abs_db s" "abs_db (set_last_membership_tx m s) = abs_db s"
  by (simp_all add: abs_db_def tx_get_blob_def [abs_def] tx_get_manifest_def [abs_def]
      set_last_applied_log_tx_def set_last_membership_tx_def)

lemma same_actions:
  assumes "abs_db s = abs_db t" and "apply_actions as s = Some s'"
  shows "\<exists>t'. apply_actions as t = Some t' \<and> abs_db s' = abs_db t'"
proof -
  have "map_option abs_db (apply_actions as t) = Some (abs_db s')"
    using apply_actions_spec [of as s] apply_actions_spec [of as t] assms by simp
  then show ?thesis by auto
qed

lemma same_entry:
  assumes "same_state s t" and "apply_entry e (s, rs) = Some (s', rs')"
  shows "\<exists>t'. apply_entry e (t, rs) = Some (t', rs') \<and> same_state s' t'"
proof (cases "payload e")
  case (MembershipChange m)
  then show ?thesis using assms
    by (auto simp: apply_entry_eq same_state_def get_last_applied_log_def get_last_membership_def
        set_last_membership_tx_def set_last_applied_log_tx_def abs_db_def tx_get_blob_def [abs_def]
        tx_get_manifest_def [abs_def])
next
  case Blank
  then show ?thesis using assms
    by (auto simp: apply_entry_eq same_state_def entry_actions_def apply_actions_def get_last_applied_log_def
        get_last_membership_def set_last_applied_log_tx_def abs_db_def tx_get_blob_def [abs_def]
        tx_get_manifest_def [abs_def])
next
  case (Normal r)
  let ?s = "set_last_applied_log_tx (entry_log_id e) s" and ?t = "set_last_applied_log_tx (entry_log_id e) t"
  have s: "apply_actions (entry_actions e) ?s = Some s'" "rs' = rs @ [\<lparr>response_value = li_index (entry_log_id e)\<rparr>]"
    using assms(2) Normal by (auto simp: apply_entry_eq)
  have "abs_db ?s = abs_db ?t" using assms(1) by (simp add: same_state_def)
  then obtain t' where t: "apply_actions (entry_actions e) ?t = Some t'" "abs_db s' = abs_db t'"
    using same_actions [OF _ s(1)] by blast
  have "same_state s' t'"
    using apply_actions_raft_frame [OF s(1)] apply_actions_raft_frame [OF t(1)] t(2) assms(1)
    by (simp add: same_state_def get_last_applied_log_def get_last_membership_def set_last_applied_log_tx_def)
  then show ?thesis using t(1) s(2) Normal by (simp add: apply_entry_eq)
qed

lemma same_transaction:
  assumes "same_state s t" and "apply_transaction es s = Some (s', rs)"
  shows "\<exists>t'. apply_transaction es t = Some (t', rs) \<and> same_state s' t'"
  using assms(2)
proof (induction es arbitrary: s' rs rule: rev_induct)
  case Nil
  then show ?case using assms(1) by simp
next
  case (snoc e es)
  then obtain u qs where u: "apply_transaction es s = Some (u, qs)" and e: "apply_entry e (u, qs) = Some (s', rs)"
    by (auto simp: apply_transaction_def fold_opt_append split: option.splits)
  from snoc.IH [OF u] obtain v where v: "apply_transaction es t = Some (v, qs)" "same_state u v" by blast
  from same_entry [OF v(2) e] v(1) show ?case
    by (auto simp: apply_transaction_def fold_opt_append)
qed

section \<open>What every replica holds\<close>

text \<open>The state after the first \<open>k\<close> entries of the log.\<close>

definition follows :: "entry list \<Rightarrow> nat \<Rightarrow> db \<Rightarrow> bool" where
  "follows es k s \<longleftrightarrow> k \<le> length es \<and> db_wf s \<and>
     (\<exists>t rs. apply_transaction (take k es) empty_db = Some (t, rs) \<and> same_state s t)"

lemma follows_start: "follows [] 0 empty_db"
  by (simp add: follows_def)

lemma follows_commit: "follows es k s \<Longrightarrow> follows (es @ [e]) k s"
  by (simp add: follows_def)

lemma follows_apply:
  assumes "follows es k s" and "apply_transaction (take m (drop k es)) s = Some (s', rs)" and "k + m \<le> length es"
  shows "follows es (k + m) s'"
proof -
  obtain t qs where t: "apply_transaction (take k es) empty_db = Some (t, qs)" "same_state s t"
    using assms(1) by (auto simp: follows_def)
  obtain t' where "apply_transaction (take m (drop k es)) t = Some (t', rs)" "same_state s' t'"
    using same_transaction [OF t(2) assms(2)] by blast
  moreover have "db_wf s'" using apply_transaction_result [OF assms(2)] assms(1) by (simp add: follows_def)
  ultimately show ?thesis using t(1) assms(3)
    by (auto simp: follows_def take_add apply_transaction_append_aux)
qed

lemma follows_between:
  assumes "follows es j s" and "follows es k t" and "j \<le> k"
  shows "\<exists>u rs. apply_transaction (drop j (take k es)) s = Some (u, rs) \<and> same_state u t"
proof -
  obtain a qs where a: "apply_transaction (take j es) empty_db = Some (a, qs)" "same_state s a"
    using assms(1) by (auto simp: follows_def)
  obtain b ps where b: "apply_transaction (take k es) empty_db = Some (b, ps)" "same_state t b"
    using assms(2) by (auto simp: follows_def)
  have "take k es = take j es @ drop j (take k es)"
    using assms(3) append_take_drop_id [of j "take k es"] by (simp add: min_def)
  then obtain rs where "apply_transaction (drop j (take k es)) a = Some (b, rs)"
    using a(1) b(1) apply_transaction_append_aux [of "take j es" "drop j (take k es)" empty_db]
    by (cases "apply_transaction (drop j (take k es)) a") auto
  from same_transaction [OF same_state_sym [OF a(2)] this] show ?thesis
    using b(2) by (blast intro: same_state_sym same_state_trans)
qed

text \<open>What even a replica that has drifted holds: its last applied entry is the right one.\<close>

definition stands_at :: "entry list \<Rightarrow> nat \<Rightarrow> db \<Rightarrow> bool" where
  "stands_at es k s \<longleftrightarrow> k \<le> length es \<and> db_wf s \<and>
     get_last_applied_log s = (if k = 0 then None else Some (entry_log_id (es ! (k - 1))))"

lemma stands_start: "stands_at [] 0 empty_db"
proof -
  have "db_last_applied empty_db = None" by (simp add: empty_db_def)
  then show ?thesis by (simp add: stands_at_def get_last_applied_log_def)
qed

lemma stands_commit: "stands_at es k s \<Longrightarrow> stands_at (es @ [e]) k s"
  by (auto simp: stands_at_def nth_append)

lemma last_taken: "m \<noteq> 0 \<Longrightarrow> k + m \<le> length es \<Longrightarrow> last (take m (drop k es)) = es ! (k + m - 1)"
  by (auto simp: last_conv_nth min_def intro: arg_cong [where f = "nth es"])

lemma stands_apply:
  assumes "stands_at es k s" and "apply_transaction (take m (drop k es)) s = Some (s', rs)" and "k + m \<le> length es"
  shows "stands_at es (k + m) s'"
proof (cases "m = 0")
  case True
  then show ?thesis using assms by simp
next
  case False
  then have "take m (drop k es) \<noteq> []" using assms(3) by simp
  then show ?thesis
    using apply_transaction_result [OF assms(2)] assms(1,3) False last_taken [OF False assms(3)]
    by (simp add: stands_at_def get_last_applied_log_def)
qed

lemma stands_install:
  assumes "stands_at es k u" and "stands_at es j s" and "j \<le> k"
  shows "stands_at es k (fst (from_serializable i (to_serializable u) s))"
  using assms installed_wf [of u s i] by (auto simp: stands_at_def installed_raft)

section \<open>An installed snapshot\<close>

lemma no_stale_dom:
  assumes "db_wf u" and "no_stale (to_serializable u) s"
  shows "dom (bt_get (blobs s)) \<subseteq> dom (bt_get (blobs u))"
    and "dom (bt_get (manifests s)) \<subseteq> dom (bt_get (manifests u))"
    and "dom (bt_get (tags s)) \<subseteq> dom (bt_get (tags u))"
proof -
  have "dom (map_of (rev (flat_tags (sr_tags (to_serializable u))))) = dom (bt_get (tags u))"
    using to_serializable_tags [OF assms(1)] by simp
  then have "fst ` set (flat_tags (sr_tags (to_serializable u))) = dom (bt_get (tags u))"
    by (simp add: dom_map_of_conv_image_fst)
  then show "dom (bt_get (tags s)) \<subseteq> dom (bt_get (tags u))"
    using assms(2) by (simp add: no_stale_def dom_bt_get)
qed (use assms in \<open>simp_all add: no_stale_def dom_bt_get to_serializable_rows\<close>)

lemma installed_same:
  assumes "db_wf u" and "no_stale (to_serializable u) s"
    and "get_last_applied_log u = None \<Longrightarrow> get_last_applied_log s = None"
  shows "same_state (fst (from_serializable i (to_serializable u) s)) u"
proof -
  have "abs_db (fst (from_serializable i (to_serializable u) s)) = abs_db u"
    unfolding installed_abs [OF assms(1)] using no_stale_dom [OF assms(1,2)]
    by (simp add: spec_merge_def abs_db_def merged_eq_iff tx_get_blob_def [abs_def] tx_get_manifest_def [abs_def])
  then show ?thesis using assms(3) by (auto simp: same_state_def installed_raft split: option.splits)
qed

section \<open>The invariant of a cluster\<close>

definition snapshot_ok ::
  "(bytes \<Rightarrow> serializable_sm option) \<Rightarrow> entry list \<Rightarrow> nat \<times> registry_snapshot \<times> bool \<Rightarrow> bool" where
  "snapshot_ok from_json es ks \<longleftrightarrow>
     (\<exists>u. from_json (snap_data (fst (snd ks))) = Some (to_serializable u) \<and> stands_at es (fst ks) u \<and>
       (\<not> snd (snd ks) \<longrightarrow> follows es (fst ks) u))"

definition cluster_ok :: "(bytes \<Rightarrow> serializable_sm option) \<Rightarrow> 'v cluster \<Rightarrow> bool" where
  "cluster_ok from_json c \<longleftrightarrow>
     (\<forall>i. stands_at (committed c) (position c i) (sm_db (replica c i)) \<and>
       (i \<notin> drifted c \<longrightarrow> follows (committed c) (position c i) (sm_db (replica c i)))) \<and>
     (\<forall>ks \<in> snapshots c. snapshot_ok from_json (committed c) ks)"

lemma follows_install:
  assumes "follows es k u" and "stands_at es k u" and "stands_at es j s" and "j \<le> k"
    and "no_stale (to_serializable u) s"
  shows "follows es k (fst (from_serializable i (to_serializable u) s))"
proof -
  have "get_last_applied_log s = None" if "get_last_applied_log u = None"
    using that assms(2-4) by (auto simp: stands_at_def split: if_splits)
  then have "same_state (fst (from_serializable i (to_serializable u) s)) u"
    using installed_same [OF _ assms(5)] assms(1) by (simp add: follows_def)
  then show ?thesis using assms(1,3) by (auto simp: follows_def stands_at_def installed_wf intro: same_state_trans)
qed

lemma install_snapshot_db:
  "install_snapshot from_json meta data st rd = Inr (st', rd') \<Longrightarrow>
   \<exists>sm. from_json data = Some sm \<and> sm_db st' = fst (from_serializable (store_id st) sm (sm_db st))"
  by (auto simp: install_snapshot_def Let_def split: option.splits prod.splits)

lemma cluster_step_ok:
  assumes "cluster_step to_json from_json show_leader c c'" and "cluster_ok from_json c"
  shows "cluster_ok from_json c'"
  using assms
proof (cases rule: cluster_step.cases)
  case (commit e)
  then show ?thesis using assms(2)
    by (fastforce simp: cluster_ok_def snapshot_ok_def intro: follows_commit stands_commit)
next
  case (applies m i st rs)
  obtain s where "apply_transaction (take m (drop (position c i) (committed c))) (sm_db (replica c i)) = Some (s, rs)"
      and "notify_entries (take m (drop (position c i) (committed c))) ((replica c i)\<lparr>sm_db := s\<rparr>) = Some st"
    using apply_to_state_machine_Some [OF applies(2)] .
  moreover from this have "sm_db st = s" by (auto simp: notify_entries_eq Let_def split: if_splits)
  ultimately have run: "apply_transaction (take m (drop (position c i) (committed c))) (sm_db (replica c i)) =
      Some (sm_db st, rs)" by simp
  have i: "stands_at (committed c) (position c i) (sm_db (replica c i))"
      "i \<notin> drifted c \<Longrightarrow> follows (committed c) (position c i) (sm_db (replica c i))"
    using assms(2) by (simp_all add: cluster_ok_def)
  have "stands_at (committed c) (position c i + m) (sm_db st)" using stands_apply [OF i(1) run applies(3)] .
  moreover have "follows (committed c) (position c i + m) (sm_db st)" if "i \<notin> drifted c"
    using follows_apply [OF i(2) [OF that] run applies(3)] .
  ultimately show ?thesis using assms(2) by (simp add: cluster_ok_def applies(1))
next
  case (build i snap rd)
  have "snapshot_ok from_json (committed c) (position c i, snap, i \<in> drifted c)"
    using build(3) assms(2) by (auto simp: snapshot_ok_def cluster_ok_def)
  then show ?thesis using assms(2) by (simp add: cluster_ok_def build(1))
next
  case (install k snap bad i sm st rd)
  have "snapshot_ok from_json (committed c) (k, snap, bad)" using install(2) assms(2) by (simp add: cluster_ok_def)
  then obtain u where u: "sm = to_serializable u" "stands_at (committed c) k u" "\<not> bad \<Longrightarrow> follows (committed c) k u"
    using install(4) by (auto simp: snapshot_ok_def)
  have st: "sm_db st = fst (from_serializable (store_id (replica c i)) (to_serializable u) (sm_db (replica c i)))"
    using install_snapshot_db [OF install(5)] install(4) u(1) by auto
  have i: "stands_at (committed c) (position c i) (sm_db (replica c i))" using assms(2) by (simp add: cluster_ok_def)
  have "stands_at (committed c) k (sm_db st)" unfolding st using stands_install [OF u(2) i install(3)] .
  moreover have "follows (committed c) k (sm_db st)" if "\<not> bad" "no_stale sm (sm_db (replica c i))"
    unfolding st using follows_install [OF u(3) u(2) i install(3)] that u(1) by simp
  ultimately show ?thesis using assms(2) by (simp add: cluster_ok_def install(1))
qed (auto simp: cluster_ok_def new_store_def)

lemma cluster_steps_ok:
  "(cluster_step to_json from_json show_leader)\<^sup>*\<^sup>* c c' \<Longrightarrow> cluster_ok from_json c \<Longrightarrow> cluster_ok from_json c'"
  by (induction rule: rtranclp_induct) (auto intro: cluster_step_ok)

text \<open>Empty replicas, and nothing committed.\<close>

definition new_cluster :: "(u64 \<Rightarrow> 'v raft_store) \<Rightarrow> 'v cluster" where
  "new_cluster disks = \<lparr>committed = [], replica = (\<lambda>i. new_store i empty_db), raft_disk = disks,
     position = (\<lambda>_. 0), snapshots = {}, drifted = {}\<rparr>"

lemma new_cluster_ok: "cluster_ok from_json (new_cluster disks)"
  by (simp add: cluster_ok_def new_cluster_def new_store_def follows_start stands_start)

section \<open>Replicas agree\<close>

lemma same_reads:
  assumes "same_state (sm_db st) (sm_db st')"
  shows "get_blob st = get_blob st' \<and> get_manifest st = get_manifest st' \<and>
    get_tag (sm_db st) = get_tag (sm_db st') \<and> last_applied_state st = last_applied_state st'"
proof -
  have "bt_get (tags (sm_db st)) = bt_get (tags (sm_db st'))" "tx_get_blob (sm_db st) = tx_get_blob (sm_db st')"
      "tx_get_manifest (sm_db st) = tx_get_manifest (sm_db st')"
    using assms by (simp_all add: same_state_def abs_db_def)
  then show ?thesis using assms
    by (simp add: get_tag_def [abs_def] get_blob_tx get_manifest_tx same_state_def last_applied_state_def)
qed

text \<open>
  C2. Replicas agree unless an install of a snapshot has left something behind. Whatever the replicas of a new cluster do
  (apply the committed log in batches of any size, restart, build snapshots, install any of them), take two of
  them that have not drifted, where a replica drifts when it installs a snapshot that lacks a row or a tag it has, or
  that a drifted replica has built, and is good again after any other install. The one that is behind becomes the one
  that is ahead by applying the entries between: the same blobs, manifests and tags, the same last applied entry,
  the same membership. At the same entry they hold the same registry. And whether it has drifted or not, a replica has recorded
  the entry it stands at as its last applied one.
\<close>

theorem replicas_agree:
  assumes "(cluster_step to_json from_json show_leader)\<^sup>*\<^sup>* (new_cluster disks) c"
    and "position c i \<le> position c j" and "i \<notin> drifted c" and "j \<notin> drifted c"
  shows "(\<exists>s rs. apply_transaction (drop (position c i) (take (position c j) (committed c))) (sm_db (replica c i)) =
      Some (s, rs) \<and>
    same_state s (sm_db (replica c j)) \<and>
    (position c i = position c j \<longrightarrow>
       get_blob (replica c i) = get_blob (replica c j) \<and> get_manifest (replica c i) = get_manifest (replica c j) \<and>
       get_tag (sm_db (replica c i)) = get_tag (sm_db (replica c j)) \<and>
       last_applied_state (replica c i) = last_applied_state (replica c j))) \<and>
    (\<forall>k. fst (last_applied_state (replica c k)) =
       (if position c k = 0 then None else Some (entry_log_id (committed c ! (position c k - 1)))))"
proof -
  have ok: "cluster_ok from_json c" using cluster_steps_ok [OF assms(1) new_cluster_ok] .
  then have fol: "follows (committed c) (position c i) (sm_db (replica c i))"
      "follows (committed c) (position c j) (sm_db (replica c j))" using assms(3,4) by (simp_all add: cluster_ok_def)
  obtain s rs where s: "apply_transaction (drop (position c i) (take (position c j) (committed c)))
      (sm_db (replica c i)) = Some (s, rs)" "same_state s (sm_db (replica c j))"
    using follows_between [OF fol assms(2)] by meson
  have at: "fst (last_applied_state (replica c k)) =
      (if position c k = 0 then None else Some (entry_log_id (committed c ! (position c k - 1))))" for k
    using ok by (simp add: cluster_ok_def stands_at_def last_applied_state_def)
  have "same_state (sm_db (replica c i)) (sm_db (replica c j))" if "position c i = position c j"
    using s that by simp
  with s same_reads [of "replica c i" "replica c j"] at show ?thesis by blast
qed

definition first_entry :: entry where
  "first_entry = \<lparr>entry_log_id = \<lparr>li_term = 1, li_node = 1, li_index = 1\<rparr>,
     payload = Normal (Transaction [BlobMounted 1 (Digest ''sha256'' ''aa'') (RepositoryName ''r'') ''u''])\<rparr>"

lemma first_entry_applies:
  "\<exists>st rs. apply_to_state_machine [first_entry] (new_store 1 empty_db) = Some (st, rs) \<and>
     get_blob st (Digest ''sha256'' ''aa'') \<noteq> None"
  by (simp add: apply_to_state_machine_def apply_transaction_def apply_entry_def first_entry_def Let_def
      apply_actions_def notify_entries_def entry_actions_def apply_blob_mounted_def tx_get_blob_def
      tx_put_blob_def get_blob_def empty_db_def new_store_def set_last_applied_log_tx_def)

lemma four_steps: "r a b \<Longrightarrow> r b c \<Longrightarrow> r c d \<Longrightarrow> r d e \<Longrightarrow> r\<^sup>*\<^sup>* a e"
  by (rule rtranclp_trans [of r a b], blast, rule rtranclp_trans [of r b c], blast, rule rtranclp_trans [of r c d], blast, blast)

text \<open>The first replica applies an entry, and the second installs the snapshot the first has built.\<close>

theorem replicas_agree_witness:
  "\<exists>to_json from_json c. (cluster_step to_json from_json (\<lambda>_. ''1''))\<^sup>*\<^sup>*
       (new_cluster (\<lambda>_. empty_raft_store :: unit raft_store)) c \<and>
     position c 1 = 1 \<and> position c 2 = 1 \<and> drifted c = {} \<and> get_blob (replica c 1) (Digest ''sha256'' ''aa'') \<noteq> None \<and>
     get_blob (replica c 2) = get_blob (replica c 1)"
proof -
  let ?c0 = "new_cluster (\<lambda>_. empty_raft_store :: unit raft_store)"
  obtain st rs where st: "apply_to_state_machine [first_entry] (new_store 1 empty_db) = Some (st, rs)"
      "get_blob st (Digest ''sha256'' ''aa'') \<noteq> None"
    using first_entry_applies by blast
  define from_json where "from_json = (\<lambda>_ :: bytes. Some (to_serializable (sm_db st)))"
  let ?step = "cluster_step (\<lambda>_. []) from_json (\<lambda>_. ''1'')"
  define c1 where "c1 = ?c0\<lparr>committed := committed ?c0 @ [first_entry]\<rparr>"
  define c2 where "c2 = c1\<lparr>replica := (replica c1)(1 := st), position := (position c1)(1 := position c1 1 + 1)\<rparr>"
  obtain snap rd where snap: "build_snapshot (\<lambda>_. []) (\<lambda>_. ''1'') (replica c2 1) (raft_disk c2 1) = (snap, rd)"
    by (metis surj_pair)
  define c3 where "c3 = c2\<lparr>raft_disk := (raft_disk c2)(1 := rd),
    snapshots := insert (position c2 1, snap, 1 \<in> drifted c2) (snapshots c2)\<rparr>"
  define st2 where "st2 = installed_store (to_serializable (sm_db st)) (replica c3 2)"
  define c4 where "c4 = c3\<lparr>replica := (replica c3)(2 := st2),
    raft_disk := (raft_disk c3)(2 := set_current_snapshot snap (raft_disk c3 2)), position := (position c3)(2 := 1),
    drifted := (if False \<or> \<not> no_stale (to_serializable (sm_db st)) (sm_db (replica c3 2)) then insert 2 (drifted c3)
      else drifted c3 - {2})\<rparr>"
  have at1: "committed c1 = [first_entry]" "replica c1 = (\<lambda>i. new_store i empty_db)" "position c1 = (\<lambda>_. 0)" "drifted c1 = {}"
    by (simp_all add: c1_def new_cluster_def)
  have at2: "replica c2 = (replica c1)(1 := st)" "position c2 = (position c1)(1 := 1)" "drifted c2 = {}"
    by (simp_all add: c2_def at1)
  have at3: "replica c3 = replica c2" "position c3 = position c2" "snapshots c3 = insert (1, snap, False) (snapshots c2)"
      "drifted c3 = {}"
    by (simp_all add: c3_def at1 at2)
  have s1: "?step ?c0 c1" unfolding c1_def by (rule cluster_step.commit)
  have s2: "?step c1 c2" unfolding c2_def
    by (rule cluster_step.applies [where rs = rs]) (simp_all add: at1 st(1))
  have s3: "?step c2 c3" unfolding c3_def
    by (rule cluster_step.build [OF snap]) (simp add: from_json_def at2)
  have s4: "?step c3 c4" unfolding c4_def
    by (rule cluster_step.install [where snap = snap])
      (simp_all add: at3 from_json_def, simp_all add: at1 at2 at3 from_json_def st2_def install_snapshot_Some)
  have steps: "?step\<^sup>*\<^sup>* ?c0 c4" using s1 s2 s3 s4 by (rule four_steps)
  have pos: "position c4 1 = 1" "position c4 2 = 1" "replica c4 1 = st" "drifted c4 = {}"
    by (simp_all add: c4_def at1 at2 at3 no_stale_def new_store_def empty_db_def)
  have "get_blob (replica c4 1) = get_blob (replica c4 2)"
    using replicas_agree [OF steps, of 1 2] pos(1,2,4) by auto
  with pos st(2) have "position c4 1 = 1 \<and> position c4 2 = 1 \<and> drifted c4 = {} \<and>
      get_blob (replica c4 1) (Digest ''sha256'' ''aa'') \<noteq> None \<and> get_blob (replica c4 2) = get_blob (replica c4 1)"
    by simp
  with steps show ?thesis by blast
qed

end
