(* ===== verification/Flows.thy ===== *)
theory Flows
  imports Node Metrics Cluster
begin

text \<open>
  What the flows through several components share: an entry that commits a transaction, a read of an
  object whose file is in place, and the bytes of a response. The flows themselves (push and pull,
  replication, deletion) are stated in the root theory.
\<close>

section \<open>Committing a transaction\<close>

definition commits :: "entry \<Rightarrow> registry_action list \<Rightarrow> bool" where
  "commits e as \<longleftrightarrow> payload e = Normal (Transaction as)"

lemma committed:
  assumes "commits e as" and "apply_to_state_machine [e] st = Some (st', rs)"
  shows "apply_actions as (set_last_applied_log_tx (entry_log_id e) (sm_db st)) = Some (sm_db st')"
    and "store_id st' = store_id st"
proof -
  obtain s where s: "apply_transaction [e] (sm_db st) = Some (s, rs)"
    and n: "notify_entries [e] (st\<lparr>sm_db := s\<rparr>) = Some st'"
    using apply_to_state_machine_Some [OF assms(2)] .
  have st': "store_id st' = store_id st" "sm_db st' = s"
    using n by (auto simp: notify_entries_eq Let_def split: if_splits)
  have "apply_actions as (set_last_applied_log_tx (entry_log_id e) (sm_db st)) = Some s"
    using s assms(1) by (auto simp: apply_transaction_def apply_entry_def Let_def commits_def split: option.splits)
  then show "apply_actions as (set_last_applied_log_tx (entry_log_id e) (sm_db st)) = Some (sm_db st')"
    using st'(2) by simp
  show "store_id st' = store_id st" by (rule st'(1))
qed

lemma commit_applies:
  assumes "commits e as" and "apply_actions as (set_last_applied_log_tx (entry_log_id e) (sm_db st)) = Some s"
    and "gone st = {}"
  shows "\<exists>st' rs. apply_to_state_machine [e] st = Some (st', rs)"
proof -
  obtain rs where "apply_transaction [e] (sm_db st) = Some (s, rs)"
    using assms(1,2) by (simp add: apply_transaction_def apply_entry_def Let_def commits_def)
  moreover obtain st' where "notify_entries [e] (st\<lparr>sm_db := s\<rparr>) = Some st'"
    using assms(3) by (simp add: notify_entries_eq Let_def)
  ultimately show ?thesis by (simp add: apply_to_state_machine_def)
qed

section \<open>Reads of objects in place\<close>

text \<open>The bytes a response sends.\<close>

definition body_bytes :: "filesystem \<Rightarrow> http_response \<Rightarrow> bytes option" where
  "body_bytes f h = (case body h of File_Body p \<Rightarrow> files f p | _ \<Rightarrow> None)"

text \<open>Nothing but directories above an object's file.\<close>

definition dirs_free :: "env \<Rightarrow> string \<Rightarrow> digest \<Rightarrow> filesystem \<Rightarrow> bool" where
  "dirs_free E k d f \<longleftrightarrow> (\<forall>j. files f (take j (butlast (object_path k (root E) d))) = None)"

context object_layout begin

lemma locate_in_place:
  assumes "hex_digest d" and "\<And>op. env_io E op" and "dirs_free E kind d f"
  shows "\<exists>f'. locate (env_io E) (root E) d f = Some (object_path kind (root E) d, f') \<and> files f' = files f"
proof -
  have free: "files f (take j (butlast (object_path kind (root E) d))) = None" for j
    using assms(3) by (simp add: dirs_free_def)
  have "\<exists>f'. create_dir_all (env_io E) (butlast (object_path kind (root E) d)) f = Some f'"
    using assms(2) free free [of "length (butlast (object_path kind (root E) d))"]
    by (simp add: create_dir_all_def list_all_iff)
  then show ?thesis using locate_hex [OF assms(1)] create_dir_all_files by fastforce
qed

lemma locate_dirs_free:
  assumes "hex_digest d" and "locate io (root E) d f = Some (p, f')"
  shows "dirs_free E kind d f"
proof -
  have "list_all (\<lambda>n. files f (take n (butlast (object_path kind (root E) d))) = None)
      [0..<Suc (length (butlast (object_path kind (root E) d)))]"
    using assms by (auto simp: locate_hex create_dir_all_def split: if_splits)
  then have upto: "files f (take n (butlast (object_path kind (root E) d))) = None"
    if "n \<le> length (butlast (object_path kind (root E) d))" for n
    using that by (simp only: list_all_iff) (metis atLeastLessThan_iff le_imp_less_Suc le0 set_upt)
  show ?thesis unfolding dirs_free_def
    by (metis upto nat_le_linear order_refl take_all)
qed

end

lemma dirs_free_move:
  "dirs_free E k d f \<Longrightarrow> files f' = (files f)(p := None, object_path k (root E) d \<mapsto> b) \<Longrightarrow> dirs_free E k d f'"
  using take_object_path [of _ k "root E" d k d] by (auto simp: dirs_free_def)

lemma send_blob_in_place:
  assumes "hex_digest d" and "\<And>op. env_io E op" and "dirs_free E ''blobs'' d (node_fs n)"
    and "files (node_fs n) (blob_file (root E) d) = Some b" and "obj_size row \<noteq> None"
  shows "\<exists>n' h. send_blob E d row n = (n', Some (Inr h)) \<and> status h = 200 \<and> body_bytes (node_fs n') h = Some b"
proof -
  obtain f where "get_blob_path (env_io E) (root E) d (node_fs n) = Some (blob_file (root E) d, f)"
      "files f = files (node_fs n)"
    using blob_layout.locate_in_place [OF assms(1-3)] by blast
  then show ?thesis using assms(2,4,5) by (auto simp: send_blob_def Let_def is_file_def respond_def body_bytes_def)
qed

lemma send_manifest_in_place:
  assumes "hex_digest d" and "\<And>op. env_io E op" and "dirs_free E ''manifests'' d (node_fs n)"
    and "files (node_fs n) (manifest_file (root E) d) = Some b" and "obj_size row \<noteq> None"
    and "content_type row = Some ct"
  shows "\<exists>n' h. send_manifest E d row n = (n', Some (Inr h)) \<and> status h = 200 \<and>
    body_bytes (node_fs n') h = Some b \<and> header ''content-type'' h = Some ct \<and>
    header ''Docker-Content-Digest'' h = Some (digest_to_string d)"
proof -
  obtain f where "get_manifest_path (env_io E) (root E) d (node_fs n) = Some (manifest_file (root E) d, f)"
      "files f = files (node_fs n)"
    using manifest_layout.locate_in_place [OF assms(1-3)] by blast
  then show ?thesis using assms(2,4-6)
    by (auto simp: send_manifest_def is_file_def respond_def body_bytes_def header_def)
qed

section \<open>After a push\<close>

lemma manifest_put_dirs_free:
  assumes "hash_ok E" and "manifest_put C E tok r tag (Some ct) cs n = (n', Some (Inr h))"
    and "files (node_fs n) (get_temp_path (uuid E) (root E)) = None"
  shows "dirs_free E ''manifests'' (content_digest E (concat (map the cs))) (node_fs n')"
proof (rule manifest_put_run [OF assms(2,1)])
  let ?p = "get_temp_path (uuid E) (root E)"
  fix b ct' infos f g
  assume b: "b = (case files (node_fs n) ?p of None \<Rightarrow> [] | Some b \<Rightarrow> b) @ concat (map the cs)"
    and run: "commit_manifest E tok r tag ct' ?p (content_digest E b) (of_nat (length b)) infos (n\<lparr>node_fs := g\<rparr>) =
      (n', Some (Inr h))"
  let ?d = "content_digest E b"
  have hex: "hex_digest ?d" using content_digest_hex [OF assms(1)] .
  obtain dest f' where "get_manifest_path (env_io E) (root E) ?d g = Some (dest, f')"
    using run by (auto simp: commit_manifest_def split: option.splits)
  note free = manifest_layout.locate_dirs_free [OF hex this]
  obtain c where "files (node_fs n') = (files g)(?p := None, manifest_file (root E) ?d \<mapsto> c)"
    using commit_manifest_facts [OF hex run] by auto
  with dirs_free_move [OF free] have "dirs_free E ''manifests'' ?d (node_fs n')" by blast
  then show ?thesis using b assms(3) by simp
qed

lemma manifest_put_store:
  assumes "hash_ok E" and "manifest_put C E tok r tag cth cs n = (n', Some (Inr h))"
  shows "node_store n' = node_store n"
proof (rule manifest_put_run [OF assms(2,1)])
  fix b ct infos f g
  assume "commit_manifest E tok r tag ct (get_temp_path (uuid E) (root E)) (content_digest E b) (of_nat (length b))
      infos (n\<lparr>node_fs := g\<rparr>) = (n', Some (Inr h))"
  from commit_manifest_facts [OF content_digest_hex [OF assms(1)] this] show ?thesis by simp
qed

lemma read_manifest_by_tag:
  assumes "has_permission tok r ''pull''" and "get_tag (sm_db (node_store n)) r tag = Some d"
    and "get_manifest (node_store n) d = Some row" and "r \<in> repositories row" and "node_id n \<in> locations row"
  shows "manifest_get_by_tag E tok r tag w resume n = send_manifest E d row n"
proof -
  have "validated_token tok" using assms(1) by (simp add: has_permission_def split: if_splits)
  then show ?thesis using assms by (simp add: manifest_get_by_tag_def read_manifest_def)
qed

end
