(* ===== verification/System.thy ===== *)
theory System
  imports Node Cluster
begin

text \<open>
  The whole system: any number of nodes (the theory \<open>Node\<close>) around the log raft commits (the theory
  \<open>Cluster\<close>). A node serves a request, waits in a read, transfers an object, reports to raft what it has
  stored, imports a registry, collects garbage; raft commits what a node submitted, and each node applies the log at
  its own pace or installs a snapshot. A read that has to wait is three steps, as the code takes its locks: it looks at
  the row, then it registers its channel, then it is resumed and answers. Everything else may happen between them.

  Each other handler is one step. For uploads that is a restriction: the file operations of two requests
  on one upload may interleave, and the theory \<open>Sessions\<close>, which has them one by one, shows when that is harmless
  (\<open>turns_keep_blobs\<close>) and what else can come of it (\<open>torn_upload\<close>). A collection that panics half way is not a step either.

  Two ghost fields, which no step reads but to choose a new channel: \<open>opened\<close>, the channels that reads have created
  so far, and \<open>excused\<close>, the copies an import has claimed or a collector has deleted.
\<close>

section \<open>Requests that wait\<close>

text \<open>A request waits when its outcome depends on what happens until it is resumed.\<close>

definition waits :: "auth \<Rightarrow> codec \<Rightarrow> (string \<Rightarrow> bytes) \<Rightarrow> env \<Rightarrow> nat \<Rightarrow> http_request \<Rightarrow> node \<Rightarrow> bool" where
  "waits A C ser E w q n \<longleftrightarrow> (\<exists>r1 r2. serve A C ser E w r1 q n \<noteq> serve A C ser E w r2 q n)"

lemma blob_get_either:
  "(\<forall>r1 r2. blob_get E tok r d w r1 n = blob_get E tok r d w r2 n) \<or>
   (\<forall>res. safe_step E (res (n\<lparr>node_store := wait_for_blob d w (node_store n)\<rparr>)) (fst (blob_get E tok r d w res n)))"
  using send_safe(1) by (auto simp: blob_get_def split: option.splits)

lemma read_manifest_either:
  "(\<forall>r1 r2. read_manifest E r d w r1 n = read_manifest E r d w r2 n) \<or>
   (\<forall>res. safe_step E (res (n\<lparr>node_store := wait_for_manifest d w (node_store n)\<rparr>)) (fst (read_manifest E r d w res n)))"
  using send_safe(2) by (auto simp: read_manifest_def split: option.splits)

lemma manifest_get_either:
  "(\<forall>r1 r2. manifest_get E tok r d w r1 n = manifest_get E tok r d w r2 n) \<or>
   (\<forall>res. safe_step E (res (n\<lparr>node_store := wait_for_manifest d w (node_store n)\<rparr>)) (fst (manifest_get E tok r d w res n)))"
  using read_manifest_either [of E r d w n] by (auto simp: manifest_get_def)

lemma manifest_get_by_tag_either:
  "(\<forall>r1 r2. manifest_get_by_tag E tok r t w r1 n = manifest_get_by_tag E tok r t w r2 n) \<or>
   (\<forall>res. safe_step E (res (paused w (Get_Manifest_Tag r t) n)) (fst (manifest_get_by_tag E tok r t w res n)))"
  using read_manifest_either [of E r _ w n] by (auto simp: manifest_get_by_tag_def split: option.splits)

lemma handle_either:
  "(\<forall>r1 r2. handle C ser E tok cs w r1 req n = handle C ser E tok cs w r2 req n) \<or>
   (\<forall>res. safe_step E (res (paused w req n)) (fst (handle C ser E tok cs w res req n)))"
proof (cases req)
  case (Head_Blob r d)
  then show ?thesis using blob_get_either [of E tok r d w n] by (simp add: blob_head_def)
next
  case (Get_Blob r d)
  then show ?thesis using blob_get_either [of E tok r d w n] by simp
next
  case (Head_Manifest r d)
  then show ?thesis using manifest_get_either [of E tok r d w n] by (simp add: manifest_head_def)
next
  case (Get_Manifest r d)
  then show ?thesis using manifest_get_either [of E tok r d w n] by simp
next
  case (Head_Manifest_Tag r t)
  then show ?thesis using manifest_get_by_tag_either [of E tok r t w n] by (simp add: manifest_head_by_tag_def)
next
  case (Get_Manifest_Tag r t)
  then show ?thesis using manifest_get_by_tag_either [of E tok r t w n] by simp
qed simp_all

lemma serve_at_once:
  assumes "hash_ok E" and "codec_ok C" and "\<not> waits A C ser E w q n"
  shows "safe_step E n (fst (serve A C ser E w res q n))"
proof -
  have "serve A C ser E w res q n = serve A C ser E w (\<lambda>_. n) q n" using assms(3) by (auto simp: waits_def)
  then show ?thesis using serve_cases [OF assms(1,2), of n A ser w "\<lambda>_. n" q] by auto
qed

lemma serve_waited:
  assumes "waits A C ser E w q n"
  shows "safe_step E (res (paused_request w q n)) (fst (serve A C ser E w res q n))"
proof -
  obtain e vs where e: "route (verb q) (uri q) = Some (e, vs)"
    using assms by (auto simp: waits_def serve_def split: option.splits)
  obtain req where req: "decode_request q e vs = Inr req"
    using assms e by (cases "decode_request q e vs") (auto simp: waits_def serve_def)
  obtain tok where tok: "from_request (verify_token A) (token_settings A) (request_header q ''authorization'') = Some (Inr tok)"
    using assms e req by (auto simp: waits_def serve_def split: option.splits sum.splits)
  have run: "serve A C ser E w r q n = (case handle C ser E tok (chunks q) w r req n of (m, rep) \<Rightarrow> (m, map_option Inr rep))" for r
    using e req tok by (simp add: serve_def)
  then have "\<not> (\<forall>r1 r2. handle C ser E tok (chunks q) w r1 req n = handle C ser E tok (chunks q) w r2 req n)"
    using assms unfolding waits_def run by metis
  then have "safe_step E (res (paused w req n)) (fst (handle C ser E tok (chunks q) w res req n))"
    using handle_either [of C ser E tok "chunks q" w req n] by blast
  then show ?thesis using e req by (auto simp: run paused_request_def split: prod.split)
qed

text \<open>The object a read waits for, as it found it when it looked; registering its channel.\<close>

fun wait_object :: "request \<Rightarrow> node \<Rightarrow> mirror_request option" where
  "wait_object (Head_Blob r d) n = Some (Mirror_Blob d)"
| "wait_object (Get_Blob r d) n = Some (Mirror_Blob d)"
| "wait_object (Head_Manifest r d) n = Some (Mirror_Manifest d)"
| "wait_object (Get_Manifest r d) n = Some (Mirror_Manifest d)"
| "wait_object (Head_Manifest_Tag r t) n = map_option Mirror_Manifest (get_tag (sm_db (node_store n)) r t)"
| "wait_object (Get_Manifest_Tag r t) n = map_option Mirror_Manifest (get_tag (sm_db (node_store n)) r t)"
| "wait_object _ n = None"

definition request_object :: "http_request \<Rightarrow> node \<Rightarrow> mirror_request option" where
  "request_object q n =
     (case route (verb q) (uri q) of
        None \<Rightarrow> None
      | Some (e, vs) \<Rightarrow> (case decode_request q e vs of Inl _ \<Rightarrow> None | Inr req \<Rightarrow> wait_object req n))"

fun register_wait :: "mirror_request option \<Rightarrow> nat \<Rightarrow> node \<Rightarrow> node" where
  "register_wait None w n = n"
| "register_wait (Some (Mirror_Blob d)) w n = n\<lparr>node_store := wait_for_blob d w (node_store n)\<rparr>"
| "register_wait (Some (Mirror_Manifest d)) w n = n\<lparr>node_store := wait_for_manifest d w (node_store n)\<rparr>"

lemma paused_registers: "paused w req n = register_wait (wait_object req n) w n"
  by (cases req) (auto split: option.splits)

lemma paused_request_registers: "paused_request w q n = register_wait (request_object q n) w n"
  by (simp add: paused_request_def request_object_def paused_registers split: option.split sum.split)

lemma register_wait_keeps:
  "node_fs (register_wait x w n) = node_fs n" "submitted (register_wait x w n) = submitted n"
  "node_id (register_wait x w n) = node_id n" "sm_db (node_store (register_wait x w n)) = sm_db (node_store n)"
  by (cases x; cases "the x"; simp add: wait_for_blob_def wait_for_manifest_def node_id_def)+

section \<open>Steps of the system\<close>

record waiting_read =
  rd_node :: u64
  rd_env :: env
  rd_channel :: nat
  rd_request :: http_request
  rd_state :: node
  rd_registered :: bool

record system =
  raft_log :: "entry list"
  node_at :: "u64 \<Rightarrow> node"
  applied_to :: "u64 \<Rightarrow> nat"
  waiting_reads :: "waiting_read set"
  built :: "(nat \<times> registry_snapshot) set"
  opened :: "nat set"
  excused :: "copy set"

definition set_node :: "u64 \<Rightarrow> node \<Rightarrow> system \<Rightarrow> system" where
  "set_node i n S = S\<lparr>node_at := (node_at S)(i := n)\<rparr>"

text \<open>
  What raft may commit: an entry of its own, a transaction some node submitted, or one from outside (a
  repair of \<open>fsck\<close>) that claims no copy.
\<close>

definition may_commit :: "system \<Rightarrow> entry \<Rightarrow> bool" where
  "may_commit S e \<longleftrightarrow>
     (\<exists>j. entry_actions e \<in> set (submitted (node_at S j))) \<or> claimed (entry_actions e) = {}"

text \<open>The copies a node loses from one state to the next.\<close>

definition lost_copies :: "(u64 \<Rightarrow> env) \<Rightarrow> u64 \<Rightarrow> node \<Rightarrow> node \<Rightarrow> copy set" where
  "lost_copies E i n n' = disk_copies (E i) i (node_fs n) - disk_copies (E i) i (node_fs n')"

inductive system_step ::
  "auth \<Rightarrow> codec \<Rightarrow> (string \<Rightarrow> bytes) \<Rightarrow> (bytes \<Rightarrow> serializable_sm option) \<Rightarrow> (u64 \<Rightarrow> env) \<Rightarrow> system \<Rightarrow> system \<Rightarrow> bool"
  for A C ser from_json E where
  served: "same_disk (E i) E' \<Longrightarrow> \<not> waits A C ser E' w q (node_at S i) \<Longrightarrow>
    system_step A C ser from_json E S (set_node i (fst (serve A C ser E' w id q (node_at S i))) S)"
| read_looks: "same_disk (E i) E' \<Longrightarrow> waits A C ser E' w q (node_at S i) \<Longrightarrow> w \<notin> opened S \<Longrightarrow>
    system_step A C ser from_json E S
      (S\<lparr>waiting_reads := insert \<lparr>rd_node = i, rd_env = E', rd_channel = w, rd_request = q, rd_state = node_at S i,
         rd_registered = False\<rparr> (waiting_reads S), opened := insert w (opened S)\<rparr>)"
| read_registers: "rd \<in> waiting_reads S \<Longrightarrow> rd_node rd = i \<Longrightarrow> \<not> rd_registered rd \<Longrightarrow>
    system_step A C ser from_json E S
      (set_node i (register_wait (request_object (rd_request rd) (rd_state rd)) (rd_channel rd) (node_at S i)) S
         \<lparr>waiting_reads := insert (rd\<lparr>rd_registered := True\<rparr>) (waiting_reads S - {rd})\<rparr>)"
| read_resumes: "rd \<in> waiting_reads S \<Longrightarrow> rd_node rd = i \<Longrightarrow> rd_registered rd \<Longrightarrow>
    rd_channel rd \<in> woken (node_store (node_at S i)) \<union> failed (node_store (node_at S i)) \<Longrightarrow>
    system_step A C ser from_json E S
      (set_node i (fst (serve A C ser (rd_env rd) (rd_channel rd) (\<lambda>_. node_at S i) (rd_request rd) (rd_state rd))) S
         \<lparr>waiting_reads := waiting_reads S - {rd}\<rparr>)"
| client_left: "rd \<in> waiting_reads S \<Longrightarrow> rd_node rd = i \<Longrightarrow>
    system_step A C ser from_json E S
      (set_node i ((node_at S i)\<lparr>node_store := (node_store (node_at S i))
           \<lparr>gone := insert (rd_channel rd) (gone (node_store (node_at S i)))\<rparr>\<rparr>) S
         \<lparr>waiting_reads := waiting_reads S - {rd}\<rparr>)"
| peer_blob: "same_disk (E i) E' \<Longrightarrow>
    system_step A C ser from_json E S (set_node i (fst (peer_get_blob E' d (node_at S i))) S)"
| peer_manifest: "same_disk (E i) E' \<Longrightarrow>
    system_step A C ser from_json E S (set_node i (fst (peer_get_manifest E' d (node_at S i))) S)"
| transferred: "same_disk (E i) E' \<Longrightarrow>
    system_step A C ser from_json E S (set_node i (transfer E' N q (node_at S i)) S)"
| unmounted: "do_garbage_collect_phase1 pick it now at (node_at S i) = Some n \<Longrightarrow>
    system_step A C ser from_json E S (set_node i n S)"
| collected: "same_disk (E i) E' \<Longrightarrow> do_garbage_collect_phase2 pick now' E' (node_at S i) = Some n \<Longrightarrow>
    system_step A C ser from_json E S
      (set_node i n S\<lparr>excused := excused S \<union> lost_copies E i (node_at S i) n\<rparr>)"
| imported: "system_step A C ser from_json E S
    (set_node i (fst (import_registry P ib (node_at S i))) S\<lparr>excused := excused S \<union> claimed (import_actions P ib)\<rparr>)"
| restarted: "system_step A C ser from_json E S
    (set_node i ((node_at S i)\<lparr>node_store := new_store (node_id (node_at S i)) (sm_db (node_store (node_at S i)))\<rparr>) S
       \<lparr>waiting_reads := {rd \<in> waiting_reads S. rd_node rd \<noteq> i}\<rparr>)"
| raft_commits: "may_commit S e \<Longrightarrow> system_step A C ser from_json E S (S\<lparr>raft_log := raft_log S @ [e]\<rparr>)"
| entries_applied: "applied_to S i + m \<le> length (raft_log S) \<Longrightarrow>
    apply_to_state_machine (take m (drop (applied_to S i) (raft_log S))) (node_store (node_at S i)) = Some (st, rs) \<Longrightarrow>
    system_step A C ser from_json E S
      (set_node i ((node_at S i)\<lparr>node_store := st\<rparr>) S\<lparr>applied_to := (applied_to S)(i := applied_to S i + m)\<rparr>)"
| snapshot_built: "build_snapshot to_json show_leader (node_store (node_at S i)) (rs :: unit raft_store) = (snap, rs') \<Longrightarrow>
    from_json (snap_data snap) = Some (to_serializable (sm_db (node_store (node_at S i)))) \<Longrightarrow>
    system_step A C ser from_json E S (S\<lparr>built := insert (applied_to S i, snap) (built S)\<rparr>)"
| snapshot_installed: "(k, snap) \<in> built S \<Longrightarrow> applied_to S i \<le> k \<Longrightarrow>
    install_snapshot from_json (snap_meta snap) (snap_data snap) (node_store (node_at S i)) (rs :: unit raft_store) =
      Inr (st, rs') \<Longrightarrow>
    system_step A C ser from_json E S
      (set_node i ((node_at S i)\<lparr>node_store := st\<rparr>) S\<lparr>applied_to := (applied_to S)(i := k)\<rparr>)"

section \<open>The invariant of the system\<close>

lemma same_disk_safe_step:
  assumes "same_disk E E'"
  shows "safe_step E' n m \<longleftrightarrow> safe_step E n m" and "hash_ok E' \<longleftrightarrow> hash_ok E"
proof -
  have c: "content_digest E' = content_digest E"
    using assms by (intro ext) (simp add: same_disk_def content_digest_def)
  have b: "backed E' i f a \<longleftrightarrow> backed E i f a" for i f a
    using assms by (cases a) (simp_all add: same_disk_def has_copy_def)
  show "safe_step E' n m \<longleftrightarrow> safe_step E n m"
    using assms c b by (simp add: safe_step_def same_disk_def files_ok_def keeps_objects_def)
  show "hash_ok E' \<longleftrightarrow> hash_ok E" using assms by (simp add: same_disk_def hash_ok_def)
qed

text \<open>The copies that are there, or excused.\<close>

definition accounted :: "(u64 \<Rightarrow> env) \<Rightarrow> system \<Rightarrow> copy set" where
  "accounted E S = (\<Union>i. disk_copies (E i) i (node_fs (node_at S i))) \<union> excused S"

definition reads_ok ::
  "auth \<Rightarrow> codec \<Rightarrow> (string \<Rightarrow> bytes) \<Rightarrow> (u64 \<Rightarrow> env) \<Rightarrow> system \<Rightarrow> bool" where
  "reads_ok A C ser E S \<longleftrightarrow> (\<forall>rd \<in> waiting_reads S. same_disk (E (rd_node rd)) (rd_env rd) \<and>
     waits A C ser (rd_env rd) (rd_channel rd) (rd_request rd) (rd_state rd))"

definition built_ok :: "(bytes \<Rightarrow> serializable_sm option) \<Rightarrow> (u64 \<Rightarrow> env) \<Rightarrow> system \<Rightarrow> bool" where
  "built_ok from_json E S \<longleftrightarrow> (\<forall>ks \<in> built S. \<exists>s. from_json (snap_data (snd ks)) = Some (to_serializable s) \<and>
     db_wf s \<and> listed_copies s \<subseteq> accounted E S)"

text \<open>
  The files are content addressed, and whatever copies a database lists, a node has submitted or raft has committed,
  or a snapshot holds, are accounted for.
\<close>

definition node_sound :: "(u64 \<Rightarrow> env) \<Rightarrow> copy set \<Rightarrow> u64 \<Rightarrow> node \<Rightarrow> bool" where
  "node_sound E X i n \<longleftrightarrow> files_ok (E i) (node_fs n) \<and> node_id n = i \<and> db_wf (sm_db (node_store n)) \<and>
     listed_copies (sm_db (node_store n)) \<subseteq> X \<and> claimed (concat (submitted n)) \<subseteq> X"

definition system_ok ::
  "auth \<Rightarrow> codec \<Rightarrow> (string \<Rightarrow> bytes) \<Rightarrow> (bytes \<Rightarrow> serializable_sm option) \<Rightarrow> (u64 \<Rightarrow> env) \<Rightarrow> system \<Rightarrow> bool" where
  "system_ok A C ser from_json E S \<longleftrightarrow>
     (\<forall>i. node_sound E (accounted E S) i (node_at S i)) \<and> log_claims (raft_log S) \<subseteq> accounted E S \<and>
     reads_ok A C ser E S \<and> built_ok from_json E S"

lemma set_node_sel [simp]:
  "node_at (set_node i n S) = (node_at S)(i := n)" "raft_log (set_node i n S) = raft_log S"
  "applied_to (set_node i n S) = applied_to S" "waiting_reads (set_node i n S) = waiting_reads S"
  "built (set_node i n S) = built S" "opened (set_node i n S) = opened S" "excused (set_node i n S) = excused S"
  by (simp_all add: set_node_def)

lemma system_okD:
  assumes "system_ok A C ser from_json E S"
  shows "files_ok (E i) (node_fs (node_at S i))" and "node_id (node_at S i) = i"
    and "db_wf (sm_db (node_store (node_at S i)))"
    and "listed_copies (sm_db (node_store (node_at S i))) \<subseteq> accounted E S"
    and "claimed (concat (submitted (node_at S i))) \<subseteq> accounted E S" and "log_claims (raft_log S) \<subseteq> accounted E S"
  using assms by (simp_all add: system_ok_def node_sound_def)

text \<open>A step at one node: enough that nothing accounted for is lost, and that the node is sound.\<close>

lemma accounted_change:
  assumes "lost_copies E i (node_at S i) n \<subseteq> X" and "excused S \<subseteq> X"
  shows "accounted E S \<subseteq> accounted E (set_node i n S\<lparr>excused := X\<rparr>)"
proof
  fix x assume "x \<in> accounted E S"
  then consider "x \<in> excused S" | j where "x \<in> disk_copies (E j) j (node_fs (node_at S j))"
    by (auto simp: accounted_def)
  then show "x \<in> accounted E (set_node i n S\<lparr>excused := X\<rparr>)"
  proof cases
    case 1
    then show ?thesis using assms(2) by (auto simp: accounted_def)
  next
    case (2 j)
    then show ?thesis using assms(1) by (cases "j = i") (auto simp: accounted_def lost_copies_def)
  qed
qed

lemma change_ok:
  assumes "system_ok A C ser from_json E S" and "lost_copies E i (node_at S i) n \<subseteq> X" and "excused S \<subseteq> X"
    and "node_sound E (accounted E (set_node i n S\<lparr>excused := X\<rparr>)) i n"
  shows "system_ok A C ser from_json E (set_node i n S\<lparr>excused := X\<rparr>)"
proof -
  let ?S = "set_node i n S\<lparr>excused := X\<rparr>"
  note mono = accounted_change [OF assms(2,3)]
  have "node_sound E (accounted E ?S) j (node_at ?S j)" for j
    using assms(1,4) mono by (cases "j = i") (auto simp: system_ok_def node_sound_def)
  moreover have "log_claims (raft_log ?S) \<subseteq> accounted E ?S" using system_okD(6) [OF assms(1)] mono by simp
  moreover have "built_ok from_json E ?S" using assms(1) mono by (fastforce simp: system_ok_def built_ok_def)
  moreover have "reads_ok A C ser E ?S" using assms(1) by (simp add: system_ok_def reads_ok_def)
  ultimately show ?thesis by (simp add: system_ok_def)
qed

lemma set_node_excused: "set_node i n S\<lparr>excused := excused S\<rparr> = set_node i n S"
  by (simp add: set_node_def)

lemma disk_accounted: "disk_copies (E i) i (node_fs n) \<subseteq> accounted E (set_node i n S\<lparr>excused := X\<rparr>)"
  by (auto simp: accounted_def)

text \<open>A node's own operation.\<close>

lemma local_ok:
  assumes "safe_step (E i) (node_at S i) n" and "system_ok A C ser from_json E S"
  shows "system_ok A C ser from_json E (set_node i n S)"
proof -
  let ?A = "accounted E (set_node i n S\<lparr>excused := excused S\<rparr>)"
  have n: "node_store n = node_store (node_at S i)" "keeps_objects (E i) (node_fs (node_at S i)) (node_fs n)"
      "files_ok (E i) (node_fs n)" "node_id n = i"
    using assms(1) system_okD [OF assms(2)] by (simp_all add: safe_step_def node_id_def)
  have lost: "lost_copies E i (node_at S i) n \<subseteq> excused S" using keeps_disk [OF n(2)] by (auto simp: lost_copies_def)
  note mono = accounted_change [OF lost subset_refl]
  have "claimed (concat (submitted n)) \<subseteq> claimed (concat (submitted (node_at S i))) \<union> disk_copies (E i) i (node_fs n)"
    using safe_step_claims [OF assms(1)] system_okD(2) [OF assms(2), of i] by simp
  also have "\<dots> \<subseteq> ?A"
    using system_okD(5) [OF assms(2), of i] mono disk_accounted [where X = "excused S"] by blast
  finally have "claimed (concat (submitted n)) \<subseteq> ?A" .
  then have "node_sound E ?A i n" using n system_okD(3,4) [OF assms(2), of i] mono by (auto simp: node_sound_def)
  from change_ok [OF assms(2) lost subset_refl this] show ?thesis unfolding set_node_excused .
qed

text \<open>A change of a node's store: to a database all of whose copies are accounted for.\<close>

lemma store_ok:
  assumes "system_ok A C ser from_json E S" and "store_id st = i" and "db_wf (sm_db st)"
    and "listed_copies (sm_db st) \<subseteq> accounted E S"
  shows "system_ok A C ser from_json E (set_node i ((node_at S i)\<lparr>node_store := st\<rparr>) S)"
proof -
  let ?n = "(node_at S i)\<lparr>node_store := st\<rparr>"
  have lost: "lost_copies E i (node_at S i) ?n \<subseteq> excused S" by (simp add: lost_copies_def)
  have "node_sound E (accounted E (set_node i ?n S\<lparr>excused := excused S\<rparr>)) i ?n"
    using assms system_okD(1-5) [OF assms(1), of i] accounted_change [OF lost subset_refl]
    by (auto simp: node_sound_def node_id_def)
  from change_ok [OF assms(1) lost subset_refl this] show ?thesis unfolding set_node_excused .
qed

lemma same_db_ok:
  assumes "system_ok A C ser from_json E S" and "store_id st = node_id (node_at S i)"
    and "sm_db st = sm_db (node_store (node_at S i))"
  shows "system_ok A C ser from_json E (set_node i ((node_at S i)\<lparr>node_store := st\<rparr>) S)"
proof (rule store_ok [OF assms(1)])
qed (use system_okD(2-4) [OF assms(1), of i] assms(2,3) in simp_all)

lemma collected_ok:
  assumes "system_ok A C ser from_json E S" and "do_garbage_collect_phase2 pick now E' (node_at S i) = Some n"
  shows "system_ok A C ser from_json E (set_node i n S\<lparr>excused := excused S \<union> lost_copies E i (node_at S i) n\<rparr>)"
proof (rule change_ok [OF assms(1)])
  note R = phase2_removes [OF assms(2)]
  let ?X = "excused S \<union> lost_copies E i (node_at S i) n"
  have mono: "accounted E S \<subseteq> accounted E (set_node i n S\<lparr>excused := ?X\<rparr>)" by (rule accounted_change) auto
  have "files (node_fs (node_at S i)) q = Some b" if "files (node_fs n) q = Some b" for q b
    using that R(2) [of q] by auto
  then have "files_ok (E i) (node_fs n)" using system_okD(1) [OF assms(1), of i] by (simp add: files_ok_def)
  then show "node_sound E (accounted E (set_node i n S\<lparr>excused := ?X\<rparr>)) i n"
    using system_okD(2-5) [OF assms(1), of i] R(1,3) mono by (auto simp: node_sound_def node_id_def)
qed auto

lemma imported_ok:
  assumes "system_ok A C ser from_json E S"
  shows "system_ok A C ser from_json E
    (set_node i (fst (import_registry P ib (node_at S i))) S\<lparr>excused := excused S \<union> claimed (import_actions P ib)\<rparr>)"
proof (rule change_ok [OF assms])
  let ?n = "fst (import_registry P ib (node_at S i))" and ?X = "excused S \<union> claimed (import_actions P ib)"
  show lost: "lost_copies E i (node_at S i) ?n \<subseteq> ?X" by (simp add: lost_copies_def import_registry_def)
  have mono: "accounted E S \<subseteq> accounted E (set_node i ?n S\<lparr>excused := ?X\<rparr>)" by (rule accounted_change [OF lost]) simp
  have "claimed (import_actions P ib) \<subseteq> accounted E (set_node i ?n S\<lparr>excused := ?X\<rparr>)" by (auto simp: accounted_def)
  then show "node_sound E (accounted E (set_node i ?n S\<lparr>excused := ?X\<rparr>)) i ?n"
    using system_okD(1-5) [OF assms, of i] mono by (auto simp: node_sound_def node_id_def import_registry_def)
qed simp

text \<open>A read that registers its channel changes nothing but the waiting lists.\<close>

lemma registered_ok:
  assumes "system_ok A C ser from_json E S"
  shows "system_ok A C ser from_json E (set_node i (register_wait x w (node_at S i)) S)"
proof -
  let ?n = "register_wait x w (node_at S i)"
  have lost: "lost_copies E i (node_at S i) ?n \<subseteq> excused S" by (simp add: lost_copies_def register_wait_keeps)
  have "node_sound E (accounted E (set_node i ?n S\<lparr>excused := excused S\<rparr>)) i ?n"
    using system_okD(1-5) [OF assms, of i] accounted_change [OF lost subset_refl]
    by (auto simp: node_sound_def register_wait_keeps)
  from change_ok [OF assms lost subset_refl this] show ?thesis unfolding set_node_excused .
qed

text \<open>Applying entries and installing snapshots.\<close>

lemma applied_accounted:
  assumes "system_ok A C ser from_json E S" and "set es \<subseteq> set (raft_log S)"
    and "apply_to_state_machine es (node_store (node_at S i)) = Some (st, rs)"
  shows "store_id st = i \<and> db_wf (sm_db st) \<and> listed_copies (sm_db st) \<subseteq> accounted E S"
proof -
  obtain s where s: "apply_transaction es (sm_db (node_store (node_at S i))) = Some (s, rs)"
    and n: "notify_entries es ((node_store (node_at S i))\<lparr>sm_db := s\<rparr>) = Some st"
    using apply_to_state_machine_Some [OF assms(3)] .
  note ok = system_okD [OF assms(1)]
  have st: "store_id st = i" "sm_db st = s"
    using n ok(2) [of i] by (auto simp: notify_entries_eq Let_def node_id_def split: if_splits)
  have "listed_copies s \<subseteq> accounted E S"
    using apply_transaction_copies [OF s] log_claims_mono [OF assms(2)] ok(4) [of i] ok(6) by blast
  then show ?thesis using st apply_transaction_result [OF s] ok(3) [of i] by simp
qed

lemma merged_copies:
  assumes "db_wf s"
  shows "listed_copies (fst (from_serializable i (to_serializable s) t)) \<subseteq> listed_copies s \<union> listed_copies t"
  unfolding listed_copies_def installed_abs [OF assms]
  by (auto simp: spec_copies_def spec_merge_def merged_def split: option.splits)

lemma installed_accounted:
  assumes "system_ok A C ser from_json E S" and "(k, snap) \<in> built S"
    and "install_snapshot from_json (snap_meta snap) (snap_data snap) (node_store (node_at S i)) rd = Inr (st, rd')"
  shows "store_id st = i \<and> db_wf (sm_db st) \<and> listed_copies (sm_db st) \<subseteq> accounted E S"
proof -
  let ?n = "node_store (node_at S i)"
  obtain s where s: "from_json (snap_data snap) = Some (to_serializable s)" "db_wf s" "listed_copies s \<subseteq> accounted E S"
    using assms(1,2) by (force simp: system_ok_def built_ok_def)
  have st: "st = installed_store (to_serializable s) ?n"
    using install_snapshot_Some [of from_json snap, where st = ?n and rs = rd] s(1) assms(3) by simp
  note ok = system_okD(1-5) [OF assms(1), of i]
  have "listed_copies (sm_db st) \<subseteq> accounted E S"
    using merged_copies [OF s(2)] s(3) ok(4) by (fastforce simp: st installed_store_def)
  moreover have "db_wf (sm_db st)" using installed_wf [OF s(2) ok(3)] by (simp add: st installed_store_def)
  ultimately show ?thesis using ok(2) by (simp add: st installed_store_def node_id_def)
qed

lemma accounted_other [simp]:
  "accounted E (S\<lparr>raft_log := es\<rparr>) = accounted E S" "accounted E (S\<lparr>waiting_reads := R\<rparr>) = accounted E S"
  "accounted E (S\<lparr>built := B\<rparr>) = accounted E S" "accounted E (S\<lparr>applied_to := p\<rparr>) = accounted E S"
  "accounted E (S\<lparr>opened := W\<rparr>) = accounted E S"
  by (simp_all add: accounted_def)

lemma committed_ok:
  assumes "system_ok A C ser from_json E S" and "may_commit S e"
  shows "system_ok A C ser from_json E (S\<lparr>raft_log := raft_log S @ [e]\<rparr>)"
proof -
  have "claimed (entry_actions e) \<subseteq> accounted E S"
    using assms(2) system_okD(5) [OF assms(1)] unfolding may_commit_def by (fastforce simp: claimed_def)
  then show ?thesis using assms(1) by (simp add: system_ok_def reads_ok_def built_ok_def)
qed

lemma system_ok_reads:
  "system_ok A C ser from_json E S \<Longrightarrow> R \<subseteq> waiting_reads S \<Longrightarrow> system_ok A C ser from_json E (S\<lparr>waiting_reads := R\<rparr>)"
  by (auto simp: system_ok_def reads_ok_def built_ok_def)

lemma system_ok_built:
  assumes "system_ok A C ser from_json E S"
    and "from_json (snap_data (snd ks)) = Some (to_serializable s)" "db_wf s" "listed_copies s \<subseteq> accounted E S"
  shows "system_ok A C ser from_json E (S\<lparr>built := insert ks (built S)\<rparr>)"
  using assms by (auto simp: system_ok_def reads_ok_def built_ok_def)

lemma system_ok_position:
  "system_ok A C ser from_json E (S\<lparr>applied_to := p\<rparr>) \<longleftrightarrow> system_ok A C ser from_json E S"
  by (simp add: system_ok_def reads_ok_def built_ok_def)

lemma system_step_ok:
  assumes "\<And>i. hash_ok (E i)" and "codec_ok C" and "system_step A C ser from_json E S S'"
    and "system_ok A C ser from_json E S"
  shows "system_ok A C ser from_json E S'"
  using assms(3)
proof (cases rule: system_step.cases)
  case (served i E' w q)
  have "hash_ok E'" using same_disk_safe_step(2) [OF served(2)] assms(1) by simp
  from serve_at_once [OF this assms(2) served(3)] show ?thesis
    using local_ok assms(4) same_disk_safe_step(1) [OF served(2)] served(1) by simp
next
  case (read_looks i E' w q)
  then show ?thesis using assms(4)
    by (auto simp: system_ok_def reads_ok_def built_ok_def)
next
  case (read_registers rd i)
  let ?S = "set_node i (register_wait (request_object (rd_request rd) (rd_state rd)) (rd_channel rd) (node_at S i)) S"
  have "system_ok A C ser from_json E ?S" using registered_ok [OF assms(4)] .
  then show ?thesis using read_registers(1,2) unfolding system_ok_def
    by (auto simp: reads_ok_def built_ok_def)
next
  case (read_resumes rd i)
  have rd: "same_disk (E i) (rd_env rd)" "waits A C ser (rd_env rd) (rd_channel rd) (rd_request rd) (rd_state rd)"
    using read_resumes(2,3) assms(4) by (auto simp: system_ok_def reads_ok_def)
  have "safe_step (E i) (node_at S i)
      (fst (serve A C ser (rd_env rd) (rd_channel rd) (\<lambda>_. node_at S i) (rd_request rd) (rd_state rd)))"
    using serve_waited [OF rd(2)] same_disk_safe_step(1) [OF rd(1)] by simp
  from local_ok [OF this assms(4)] show ?thesis unfolding read_resumes(1) by (rule system_ok_reads) auto
next
  case (client_left rd i)
  have "system_ok A C ser from_json E (set_node i ((node_at S i)\<lparr>node_store := (node_store (node_at S i))
      \<lparr>gone := insert (rd_channel rd) (gone (node_store (node_at S i)))\<rparr>\<rparr>) S)"
    using same_db_ok [OF assms(4)] by (simp add: node_id_def)
  then show ?thesis unfolding client_left(1) by (rule system_ok_reads) auto
next
  case (peer_blob i E' d)
  have "safe_step (E i) (node_at S i) (fst (peer_get_blob E' d (node_at S i)))"
    using peer_served_safe(1) [of E'] unfolding same_disk_safe_step(1) [OF peer_blob(2)] .
  from local_ok [OF this assms(4)] show ?thesis by (simp add: peer_blob(1))
next
  case (peer_manifest i E' d)
  have "safe_step (E i) (node_at S i) (fst (peer_get_manifest E' d (node_at S i)))"
    using peer_served_safe(2) [of E'] unfolding same_disk_safe_step(1) [OF peer_manifest(2)] .
  from local_ok [OF this assms(4)] show ?thesis by (simp add: peer_manifest(1))
next
  case (transferred i E' N q)
  have "safe_step E' (node_at S i) (transfer E' N q (node_at S i))"
    using transfer_safe same_disk_safe_step(2) [OF transferred(2)] assms(1) by simp
  then show ?thesis using local_ok assms(4) same_disk_safe_step(1) [OF transferred(2)] transferred(1) by simp
next
  case (unmounted pick it now at i n)
  then show ?thesis using local_ok [OF unmounted_safe assms(4)] by simp
next
  case (collected i E' pick now' n)
  then show ?thesis using collected_ok [OF assms(4)] by simp
next
  case (imported i P ib)
  then show ?thesis using imported_ok [OF assms(4)] by simp
next
  case (restarted i)
  have "system_ok A C ser from_json E
      (set_node i ((node_at S i)\<lparr>node_store := new_store (node_id (node_at S i)) (sm_db (node_store (node_at S i)))\<rparr>) S)"
    using same_db_ok [OF assms(4)] by (simp add: new_store_def)
  then show ?thesis unfolding restarted by (rule system_ok_reads) auto
next
  case (raft_commits e)
  then show ?thesis using committed_ok [OF assms(4)] by simp
next
  case (entries_applied i m st rs)
  have "set (take m (drop (applied_to S i) (raft_log S))) \<subseteq> set (raft_log S)"
    using in_set_dropD in_set_takeD by fast
  from applied_accounted [OF assms(4) this entries_applied(3)] show ?thesis
    unfolding entries_applied(1) system_ok_position by (blast intro: store_ok [OF assms(4)])
next
  case (snapshot_built to_json show_leader i rs snap rs')
  then show ?thesis unfolding snapshot_built(1)
    using system_ok_built [OF assms(4)] system_okD(3,4) [OF assms(4), of i] by auto
next
  case (snapshot_installed k snap i rs st rs')
  from installed_accounted [OF assms(4) snapshot_installed(2,4)] show ?thesis
    unfolding snapshot_installed(1) system_ok_position by (blast intro: store_ok [OF assms(4)])
qed

section \<open>What the registry lists is there\<close>

lemma system_steps_ok:
  assumes "\<And>i. hash_ok (E i)" and "codec_ok C" and "(system_step A C ser from_json E)\<^sup>*\<^sup>* S S'"
    and "system_ok A C ser from_json E S"
  shows "system_ok A C ser from_json E S'"
  using assms(3,4) by (induction rule: rtranclp_induct) (auto intro: system_step_ok [OF assms(1,2)])

text \<open>A node as it starts on an empty disk, with a database that is empty.\<close>

definition fresh_node :: "u64 \<Rightarrow> node \<Rightarrow> bool" where
  "fresh_node i n \<longleftrightarrow> node_store n = new_store i empty_db \<and> files (node_fs n) = Map.empty \<and> submitted n = []"

lemma started_fresh:
  assumes "start_node conf io H f = (f', Some (Inr n))" and "files f = Map.empty"
    and "\<And>p s. open_db H p = Some s \<Longrightarrow> s = empty_db"
  shows "fresh_node (node_id n) n"
  using start_node_ready [OF assms(1)] assms(2,3) by (auto simp: fresh_node_def)

definition new_system :: "(u64 \<Rightarrow> node) \<Rightarrow> system" where
  "new_system ns = \<lparr>raft_log = [], node_at = ns, applied_to = (\<lambda>_. 0), waiting_reads = {}, built = {}, opened = {},
     excused = {}\<rparr>"

lemma new_system_ok:
  assumes "\<And>i. fresh_node i (ns i)"
  shows "system_ok A C ser from_json E (new_system ns)"
proof -
  have "listed_copies empty_db = {}"
    by (simp add: listed_copies_def spec_copies_def abs_db_def empty_db_def tx_simps)
  then have "node_sound E X i (ns i)" for X i
    using assms [of i] by (simp add: node_sound_def fresh_node_def new_store_def node_id_def files_ok_def)
  then show ?thesis by (simp add: system_ok_def new_system_def reads_ok_def built_ok_def)
qed

lemma listed_stored:
  assumes "system_ok A C ser from_json E S"
  shows "get_blob (node_store (node_at S i)) d = Some b \<Longrightarrow> j \<in> locations b \<Longrightarrow> (j, ''blobs'', d) \<notin> excused S \<Longrightarrow>
      \<exists>c. files (node_fs (node_at S j)) (blob_file (root (E j)) d) = Some c \<and> content_digest (E j) c = d"
    and "get_manifest (node_store (node_at S i)) d = Some m \<Longrightarrow> j \<in> locations m \<Longrightarrow> (j, ''manifests'', d) \<notin> excused S \<Longrightarrow>
      \<exists>c. files (node_fs (node_at S j)) (manifest_file (root (E j)) d) = Some c \<and> content_digest (E j) c = d"
proof -
  note ok = system_okD [OF assms]
  have there: "has_copy (E j) k d (node_fs (node_at S j))"
    if "(j, k, d) \<in> listed_copies (sm_db (node_store (node_at S i)))" "(j, k, d) \<notin> excused S" for k
    using that ok(4) [of i] by (auto simp: accounted_def disk_copies_def)
  show "\<exists>c. files (node_fs (node_at S j)) (blob_file (root (E j)) d) = Some c \<and> content_digest (E j) c = d"
    if "get_blob (node_store (node_at S i)) d = Some b" "j \<in> locations b" "(j, ''blobs'', d) \<notin> excused S"
  proof -
    have "(j, ''blobs'', d) \<in> listed_copies (sm_db (node_store (node_at S i)))"
      using that(1,2) by (auto simp: listed_copies_def spec_copies_def abs_db_def get_blob_tx)
    from there [OF this that(3)] show ?thesis using ok(1) [of j] by (auto simp: has_copy_def files_ok_def)
  qed
  show "\<exists>c. files (node_fs (node_at S j)) (manifest_file (root (E j)) d) = Some c \<and> content_digest (E j) c = d"
    if "get_manifest (node_store (node_at S i)) d = Some m" "j \<in> locations m" "(j, ''manifests'', d) \<notin> excused S"
  proof -
    have "(j, ''manifests'', d) \<in> listed_copies (sm_db (node_store (node_at S i)))"
      using that(1,2) by (auto simp: listed_copies_def spec_copies_def abs_db_def get_manifest_tx)
    from there [OF this that(3)] show ?thesis using ok(1) [of j] by (auto simp: has_copy_def files_ok_def)
  qed
qed

text \<open>
  C1. The registry lists no copy that is not there, on any node. Start any number of nodes on empty disks
  (the lemma \<open>started_fresh\<close>: \<open>start_node\<close> leaves such a node) and let anything happen, in any order and with any I/O failing: requests, reads that wait, transfers,
  peers, imports, both phases of collections, commits, applies, snapshots, restarts. If any node lists a copy of an
  object at any node, then that node's disk holds it, with exactly the content the digest names, unless the copy is excused: some
  import has claimed it (an import may name copies that do not exist), or that node's collector has once deleted it.
  The limit of the claim: every handler is one step, so the file operations of two requests on the same upload do not interleave.
  Where they do, a blob can be torn (\<open>torn_upload\<close>), unless clients take turns (\<open>turns_keep_blobs\<close>).
\<close>

theorem listed_copies_exist:
  assumes "\<And>i. hash_ok (E i)" and "codec_ok C" and "\<And>i. fresh_node i (ns i)"
    and "(system_step A C ser from_json E)\<^sup>*\<^sup>* (new_system ns) S"
  shows "(\<forall>d b. get_blob (node_store (node_at S i)) d = Some b \<and> j \<in> locations b \<longrightarrow> (j, ''blobs'', d) \<in> excused S \<or>
      (\<exists>c. files (node_fs (node_at S j)) (blob_file (root (E j)) d) = Some c \<and> content_digest (E j) c = d)) \<and>
    (\<forall>d m. get_manifest (node_store (node_at S i)) d = Some m \<and> j \<in> locations m \<longrightarrow> (j, ''manifests'', d) \<in> excused S \<or>
      (\<exists>c. files (node_fs (node_at S j)) (manifest_file (root (E j)) d) = Some c \<and> content_digest (E j) c = d))"
proof -
  have "system_ok A C ser from_json E S" using system_steps_ok [OF assms(1,2,4) new_system_ok [OF assms(3)]] .
  from listed_stored [OF this] show ?thesis by blast
qed

text \<open>A blob is pushed to node 1; node 2 applies the entry and lists the copy of node 1.\<close>

lemma sample_nodes_fresh: "fresh_node i (sample_nodes i)"
  by (simp add: fresh_node_def sample_nodes_def started_node_def started_dirs(2))

definition push_entry :: entry where
  "push_entry = \<lparr>entry_log_id = \<lparr>li_term = 1, li_node = 1, li_index = 1\<rparr>, payload =
     Normal (Transaction (upload_actions sample_env admin_token (RepositoryName ''r'') a64 3 1))\<rparr>"

lemma push_applies:
  "\<exists>st rs row. apply_to_state_machine [push_entry] (new_store i empty_db) = Some (st, rs) \<and>
     get_blob st a64 = Some row \<and> 1 \<in> locations row"
proof -
  obtain s row where s: "apply_transaction [push_entry] empty_db = Some (s, [\<lparr>response_value = 1\<rparr>])"
      "tx_get_blob s a64 = Some row" "1 \<in> locations row"
    using upload_actions_effect [of sample_env admin_token "RepositoryName ''r''" a64 3 1
        "set_last_applied_log_tx \<lparr>li_term = 1, li_node = 1, li_index = 1\<rparr> empty_db"]
    by (auto simp: push_entry_def apply_transaction_def apply_entry_def Let_def)
  obtain st where st: "notify_entries [push_entry] ((new_store i empty_db)\<lparr>sm_db := s\<rparr>) = Some st"
    by (simp add: notify_entries_eq Let_def new_store_def)
  then have "sm_db st = s" by (auto simp: notify_entries_eq Let_def new_store_def split: if_splits)
  then show ?thesis using s st by (auto simp: apply_to_state_machine_def get_blob_tx new_store_def)
qed

theorem listed_copies_exist_witness:
  "\<exists>S b c. (system_step open_auth sample_codec id (\<lambda>_. None) (\<lambda>_. sample_env))\<^sup>*\<^sup>* (new_system sample_nodes) S \<and>
     excused S = {} \<and> get_blob (node_store (node_at S 2)) a64 = Some b \<and> 1 \<in> locations b \<and>
     files (node_fs (node_at S 1)) (blob_file [''var''] a64) = Some c \<and> content_digest sample_env c = a64"
proof -
  let ?step = "system_step open_auth sample_codec id (\<lambda>_. None) (\<lambda>_. sample_env)"
  let ?serve = "\<lambda>res. serve open_auth sample_codec id sample_env 0 res push_request started_node"
  let ?S0 = "new_system sample_nodes"
  note n1 = sample_nodes_started
  obtain n where n: "\<And>res. fst (?serve res) = n" "\<And>r1 r2. ?serve r1 = ?serve r2"
      "submitted n = [entry_actions push_entry]"
    using push_served [of sample_codec id 0 _ "new_store 1 empty_db"] unfolding sample_nodes_def [symmetric] sample_nodes_started
    by (auto simp: push_entry_def entry_actions_def new_store_def) (metis fst_conv option.inject prod.inject sum.inject(2))
  define S1 where "S1 = set_node 1 n ?S0"
  define S2 where "S2 = S1\<lparr>raft_log := raft_log S1 @ [push_entry]\<rparr>"
  obtain st rs row where st: "apply_to_state_machine [push_entry] (new_store 2 empty_db) = Some (st, rs)"
      "get_blob st a64 = Some row" "1 \<in> locations row"
    using push_applies by blast
  define S3 where "S3 = set_node 2 ((node_at S2 2)\<lparr>node_store := st\<rparr>) S2\<lparr>applied_to := (applied_to S2)(2 := applied_to S2 2 + 1)\<rparr>"
  have at2: "raft_log S2 = [push_entry]" "applied_to S2 = (\<lambda>_. 0)" "node_store (node_at S2 2) = new_store 2 empty_db"
    by (simp_all add: S2_def S1_def new_system_def sample_nodes_def)
  have "?step ?S0 S1"
    using system_step.served [of "\<lambda>_. sample_env" 1 sample_env open_auth sample_codec id 0 push_request ?S0] n(1,2) n1
    by (simp add: S1_def same_disk_def waits_def new_system_def)
  moreover have "?step S1 S2" unfolding S2_def
    by (rule system_step.raft_commits) (auto simp: may_commit_def S1_def n(3) intro: exI [of _ 1])
  moreover have "?step S2 S3" unfolding S3_def
    by (rule system_step.entries_applied [where m = 1 and rs = rs]) (simp_all add: at2 st(1))
  ultimately have steps: "?step\<^sup>*\<^sup>* ?S0 S3" by (meson converse_rtranclp_into_rtranclp r_into_rtranclp)
  have "get_blob (node_store (node_at S3 2)) a64 = Some row" "excused S3 = {}"
    using st(2) by (simp_all add: S3_def S2_def S1_def new_system_def)
  with listed_copies_exist [OF sample_env_hash sample_codec_ok sample_nodes_fresh steps, of 2 1] st(3) steps show ?thesis
    by fastforce
qed

end
