(* ===== verification/Races.thy ===== *)
theory Races
  imports System
begin

text \<open>
  A race the system does not close: a read looks at the row of an object and registers the channel it waits
  on under two different locks. If the copy is recorded in between, nothing wakes the read, however long
  the node goes on, before the copy is recorded here once more.
\<close>

section \<open>Pushing the same blob twice\<close>

lemma upload_actions_row:
  "\<exists>s' row. apply_actions (upload_actions E tok r d sz i) s = Some s' \<and> tx_get_blob s' d = Some row \<and>
     r \<in> repositories row \<and> obj_size row = Some sz \<and>
     locations row = insert i (case tx_get_blob s d of None \<Rightarrow> {} | Some b \<Rightarrow> locations b)"
  by (cases "bt_get (blobs s) d")
    (auto simp: upload_actions_def apply_actions_def apply_blob_mounted_def apply_blob_stat_def
      apply_blob_stored_def new_blob_def tx_simps Let_def)

definition pushed_entry :: "u64 \<Rightarrow> u64 \<Rightarrow> entry" where
  "pushed_entry k i = \<lparr>entry_log_id = \<lparr>li_term = 1, li_node = 1, li_index = k\<rparr>, payload =
     Normal (Transaction (upload_actions sample_env admin_token (RepositoryName ''r'') a64 3 i))\<rparr>"

lemma pushed_entry_applies:
  assumes "gone st = {}"
  shows "\<exists>st' rs row. apply_to_state_machine [pushed_entry k i] st = Some (st', rs) \<and> store_id st' = store_id st \<and>
    gone st' = {} \<and> get_blob st' a64 = Some row \<and> RepositoryName ''r'' \<in> repositories row \<and> obj_size row = Some 3 \<and>
    locations row = insert i (case get_blob st a64 of None \<Rightarrow> {} | Some b \<Rightarrow> locations b) \<and>
    (blob_waiters st = Map.empty \<longrightarrow> woken st' = woken st \<and> failed st' = failed st \<and> blob_waiters st' = Map.empty \<and>
       manifest_waiters st' = manifest_waiters st)"
proof -
  let ?s = "set_last_applied_log_tx \<lparr>li_term = 1, li_node = 1, li_index = k\<rparr> (sm_db st)"
  obtain s row where s: "apply_transaction [pushed_entry k i] (sm_db st) = Some (s, [\<lparr>response_value = k\<rparr>])"
      "tx_get_blob s a64 = Some row" "RepositoryName ''r'' \<in> repositories row" "obj_size row = Some 3"
      "locations row = insert i (case tx_get_blob ?s a64 of None \<Rightarrow> {} | Some b \<Rightarrow> locations b)"
    using upload_actions_row [of sample_env admin_token "RepositoryName ''r''" a64 3 i ?s]
    by (auto simp: pushed_entry_def apply_transaction_def apply_entry_def Let_def)
  obtain st' where st': "notify_entries [pushed_entry k i] (st\<lparr>sm_db := s\<rparr>) = Some st'"
    using assms by (simp add: notify_entries_eq Let_def)
  then have "sm_db st' = s" "store_id st' = store_id st" "gone st' = {}"
    using assms by (auto simp: notify_entries_eq Let_def split: if_splits)
  moreover have "woken st' = woken st \<and> failed st' = failed st \<and> blob_waiters st' = Map.empty \<and>
      manifest_waiters st' = manifest_waiters st" if "blob_waiters st = Map.empty"
    using st' that
    by (auto simp: notify_entries_def pushed_entry_def entry_actions_def upload_actions_def Let_def wake_blob_def
        split: if_splits)
  moreover have "tx_get_blob ?s a64 = get_blob st a64" by (simp add: get_blob_tx tx_simps)
  ultimately show ?thesis using s st' by (auto simp: apply_to_state_machine_def get_blob_tx)
qed


section \<open>The lost wakeup\<close>

definition pull_request :: http_request where
  "pull_request = \<lparr>verb = Get, uri = ''/v2/r/blobs/'' @ digest_to_string a64, query = (\<lambda>_. None),
     request_header = (\<lambda>_. None), chunks = []\<rparr>"

lemma a64_print: "digest_try_from (digest_to_string a64) = Some (Inr a64)"
  by (rule digest_try_from_print) (simp add: digest_wf_def a64_def)

lemma pull_decoded:
  "\<exists>e vs. route (verb pull_request) (uri pull_request) = Some (e, vs) \<and>
     decode_request pull_request e vs = Inr (Get_Blob (RepositoryName ''r'') a64)"
proof -
  have "route Get (''/v2/r/blobs/'' @ digest_to_string a64) = Some (Blob_Get, [''r'', digest_to_string a64])"
    using route_endpoint [of "''r''" Blob_Get "digest_to_string a64"]
    by (simp add: plain_name_def a64_def digest_to_string_def)
  then show ?thesis using a64_print by (simp add: pull_request_def decode_request_def by_digest_def path_digest_def and_then_def)
qed

text \<open>A node that knows a blob only from another node makes the reader wait.\<close>

lemma pull_waits:
  assumes "get_blob (node_store n) a64 = Some row" and "RepositoryName ''r'' \<in> repositories row"
    and "obj_size row = Some sz" and "node_id n \<notin> locations row"
  shows "waits open_auth C ser sample_env w pull_request n"
    and "request_object pull_request n = Some (Mirror_Blob a64)"
proof -
  obtain e vs where r: "route (verb pull_request) (uri pull_request) = Some (e, vs)"
      "decode_request pull_request e vs = Inr (Get_Blob (RepositoryName ''r'') a64)"
    using pull_decoded by blast
  have t: "from_request (verify_token open_auth) (token_settings open_auth) x = Some (Inr admin_token)" for x
    by (simp add: open_auth_def from_request_def admin_token_def)
  have sent: "events (fst (send_blob sample_env a64 row m)) = events m" for m
    using assms(3) by (auto simp: send_blob_def split: option.splits)
  have "fst (serve open_auth C ser sample_env w (\<lambda>_. m) pull_request n) = fst (send_blob sample_env a64 row m)" for m
    using assms(1,2,4) r t
    by (simp add: serve_def blob_get_def admin_token_def has_permission_def split: prod.split)
  then have run: "events (fst (serve open_auth C ser sample_env w (\<lambda>_. m) pull_request n)) = events m" for m
    by (simp add: sent)
  have "serve open_auth C ser sample_env w (\<lambda>_. n\<lparr>events := []\<rparr>) pull_request n \<noteq>
      serve open_auth C ser sample_env w (\<lambda>_. n\<lparr>events := [undefined]\<rparr>) pull_request n"
    using run [of "n\<lparr>events := []\<rparr>"] run [of "n\<lparr>events := [undefined]\<rparr>"] by auto
  then show "waits open_auth C ser sample_env w pull_request n" unfolding waits_def by blast
  show "request_object pull_request n = Some (Mirror_Blob a64)" using r by (simp add: request_object_def)
qed


text \<open>A client pushes the blob at a node, and raft commits what the node submits.\<close>

abbreviation sample_step :: "(bytes \<Rightarrow> serializable_sm option) \<Rightarrow> system \<Rightarrow> system \<Rightarrow> bool" where
  "sample_step J \<equiv> system_step open_auth sample_codec id J (\<lambda>_. sample_env)"

lemma push_committed:
  assumes "node_at S i = started_node\<lparr>node_store := st\<rparr>" and "store_id st = i"
  shows "\<exists>n'. node_store n' = st \<and> files (node_fs n') = [blob_file [''var''] a64 \<mapsto> ''abc''] \<and>
    (sample_step J)\<^sup>*\<^sup>* S (set_node i n' S\<lparr>raft_log := raft_log S @ [pushed_entry k i]\<rparr>)"
proof -
  let ?serve = "\<lambda>res. serve open_auth sample_codec id sample_env 0 res push_request (node_at S i)"
  obtain n' where n': "\<And>res. fst (?serve res) = n'" "\<And>r1 r2. ?serve r1 = ?serve r2" "node_store n' = st"
      "submitted n' = [entry_actions (pushed_entry k i)]" "files (node_fs n') = [blob_file [''var''] a64 \<mapsto> ''abc'']"
  proof -
    obtain n' h where "?serve id = (n', Some (Inr (Inr h)))" and post: "upload_post sample_env admin_token
        (RepositoryName ''r'') None None (Some a64) [Some ''abc''] (node_at S i) = (n', Some (Inr h))"
        and n': "node_store n' = st" "submitted n' = [upload_actions sample_env admin_token (RepositoryName ''r'') a64 3 i]"
          "files (node_fs n') = [blob_file [''var''] a64 \<mapsto> ''abc'']"
      using push_served [of sample_codec id 0 id st] assms by auto
    moreover have "?serve res = (n', Some (Inr (Inr h)))" for res
      using push_served [of sample_codec id 0 res st] post assms(1) by auto
    ultimately show ?thesis using that [of n'] by (simp add: pushed_entry_def entry_actions_def)
  qed
  let ?S1 = "set_node i n' S"
  have "sample_step J S ?S1"
    using system_step.served [of "\<lambda>_. sample_env" i sample_env open_auth sample_codec id 0 push_request S] n'(1,2)
    by (simp add: same_disk_def waits_def)
  moreover have "sample_step J ?S1 (?S1\<lparr>raft_log := raft_log ?S1 @ [pushed_entry k i]\<rparr>)"
    by (rule system_step.raft_commits) (auto simp: may_commit_def n'(4) set_node_def intro: exI [of _ i])
  ultimately have "(sample_step J)\<^sup>*\<^sup>* S (set_node i n' S\<lparr>raft_log := raft_log S @ [pushed_entry k i]\<rparr>)"
    by (simp add: set_node_def converse_rtranclp_into_rtranclp)
  then show ?thesis using n'(3,5) by blast
qed

text \<open>A node applies the last entry of the log, the record of a push.\<close>

lemma push_applied:
  assumes "raft_log S = es @ [pushed_entry k i]" and "applied_to S j = length es"
    and "gone (node_store (node_at S j)) = {}" and "blob_waiters (node_store (node_at S j)) = Map.empty"
  shows "\<exists>st' row. sample_step J S (set_node j ((node_at S j)\<lparr>node_store := st'\<rparr>) S\<lparr>applied_to := (applied_to S)(j := Suc (length es))\<rparr>) \<and>
    store_id st' = store_id (node_store (node_at S j)) \<and> gone st' = {} \<and> blob_waiters st' = Map.empty \<and>
    woken st' = woken (node_store (node_at S j)) \<and> failed st' = failed (node_store (node_at S j)) \<and>
    manifest_waiters st' = manifest_waiters (node_store (node_at S j)) \<and>
    get_blob st' a64 = Some row \<and> RepositoryName ''r'' \<in> repositories row \<and> obj_size row = Some 3 \<and>
    locations row = insert i (case get_blob (node_store (node_at S j)) a64 of None \<Rightarrow> {} | Some b \<Rightarrow> locations b)"
proof -
  obtain st' rs row where st': "apply_to_state_machine [pushed_entry k i] (node_store (node_at S j)) = Some (st', rs)"
      and facts: "store_id st' = store_id (node_store (node_at S j))" "gone st' = {}" "get_blob st' a64 = Some row"
      "RepositoryName ''r'' \<in> repositories row" "obj_size row = Some 3"
      "locations row = insert i (case get_blob (node_store (node_at S j)) a64 of None \<Rightarrow> {} | Some b \<Rightarrow> locations b)"
      "woken st' = woken (node_store (node_at S j))" "failed st' = failed (node_store (node_at S j))"
      "blob_waiters st' = Map.empty" "manifest_waiters st' = manifest_waiters (node_store (node_at S j))"
    using pushed_entry_applies [OF assms(3), of k i] assms(4) by auto
  have "sample_step J S (set_node j ((node_at S j)\<lparr>node_store := st'\<rparr>) S\<lparr>applied_to := (applied_to S)(j := Suc (length es))\<rparr>)"
    using system_step.entries_applied [of S j 1 st' rs] assms(1,2) st' by simp
  with facts show ?thesis by blast
qed


section \<open>Nothing wakes the reader\<close>

text \<open>
  A registered read whose channel waits for the blob \<open>d\<close> at node \<open>i\<close> or for nothing, at a node that has applied the
  log up to \<open>k\<close>. Its channel is its own: channels are not opened twice.
\<close>

definition stuck :: "u64 \<Rightarrow> digest \<Rightarrow> waiting_read \<Rightarrow> nat \<Rightarrow> system \<Rightarrow> bool" where
  "stuck i d rd k S \<longleftrightarrow>
     rd_registered rd \<and> rd_channel rd \<in> opened S \<and> (\<forall>x \<in> waiting_reads S. rd_channel x = rd_channel rd \<longrightarrow> x = rd) \<and>
     k \<le> applied_to S i \<and> node_id (node_at S i) = i \<and>
     rd_channel rd \<notin> woken (node_store (node_at S i)) \<union> failed (node_store (node_at S i)) \<and>
     rd_channel rd \<notin> waiting_on (blob_waiters (node_store (node_at S i))) (- {d}) \<and>
     rd_channel rd \<notin> waiting_on (manifest_waiters (node_store (node_at S i))) UNIV"

lemma safe_step_store: "safe_step E n n' \<Longrightarrow> node_store n' = node_store n"
  by (simp add: safe_step_def)

lemma failed_wake_all: "failed (wake_all st as) = failed st"
  by (induction as arbitrary: st) (auto simp: after_wake_def)

lemma stuck_local:
  assumes "stuck i d rd k S" and "node_store (node_at S' i) = node_store (node_at S i)"
    and "waiting_reads S' \<subseteq> waiting_reads S" and "opened S' = opened S" and "applied_to S' = applied_to S"
  shows "stuck i d rd k S'"
  using assms by (auto simp: stuck_def node_id_def)

lemma stuck_registers:
  assumes "stuck i d rd k S" and "x \<in> waiting_reads S" and "\<not> rd_registered x" and "rd_node x = j"
  shows "stuck i d rd k (set_node j (register_wait y (rd_channel x) (node_at S j)) S
    \<lparr>waiting_reads := insert (x\<lparr>rd_registered := True\<rparr>) (waiting_reads S - {x})\<rparr>)"
proof -
  have new: "rd_channel x \<noteq> rd_channel rd" using assms(1-3) by (auto simp: stuck_def)
  have "rd_channel rd \<notin> waiting_on (blob_waiters (node_store (register_wait y (rd_channel x) n))) (- {d}) \<and>
      rd_channel rd \<notin> waiting_on (manifest_waiters (node_store (register_wait y (rd_channel x) n))) UNIV \<and>
      woken (node_store (register_wait y (rd_channel x) n)) = woken (node_store n) \<and>
      failed (node_store (register_wait y (rd_channel x) n)) = failed (node_store n)"
    if "rd_channel rd \<notin> waiting_on (blob_waiters (node_store n)) (- {d})"
      "rd_channel rd \<notin> waiting_on (manifest_waiters (node_store n)) UNIV" for n
    using that new by (cases y; cases "the y")
      (auto simp: wait_for_blob_def wait_for_manifest_def waiting_on_def split: if_splits option.splits)
  note keep = this [of "node_at S i"]
  let ?S = "set_node j (register_wait y (rd_channel x) (node_at S j)) S
    \<lparr>waiting_reads := insert (x\<lparr>rd_registered := True\<rparr>) (waiting_reads S - {x})\<rparr>"
  have "\<forall>z \<in> waiting_reads ?S. rd_channel z = rd_channel rd \<longrightarrow> z = rd"
    using assms(1) new by (simp add: stuck_def)
  moreover have "node_id (node_at ?S i) = i"
    using assms(1) by (cases "i = j") (simp_all add: stuck_def register_wait_keeps)
  ultimately show ?thesis using assms(1) keep by (cases "i = j") (simp_all add: stuck_def)
qed

lemma stuck_applies:
  assumes "stuck i d rd k S" and "applied_to S j + m \<le> length (raft_log S)"
    and "apply_to_state_machine (take m (drop (applied_to S j) (raft_log S))) (node_store (node_at S j)) = Some (st, rs)"
    and "\<And>e ts u. e \<in> set (drop k (raft_log S)) \<Longrightarrow> BlobStored ts d i u \<notin> set (entry_actions e)"
  shows "stuck i d rd k (set_node j ((node_at S j)\<lparr>node_store := st\<rparr>) S\<lparr>applied_to := (applied_to S)(j := applied_to S j + m)\<rparr>)"
proof (cases "j = i")
  case False
  then show ?thesis using assms(1) by (auto simp: stuck_def)
next
  case True
  let ?es = "take m (drop (applied_to S i) (raft_log S))" and ?n = "node_store (node_at S i)"
  let ?as = "concat (map entry_actions ?es)"
  obtain s where n: "notify_entries ?es (?n\<lparr>sm_db := s\<rparr>) = Some st"
    using apply_to_state_machine_Some assms(3) True by metis
  have id: "store_id ?n = i" "k \<le> applied_to S i" using assms(1) by (simp_all add: stuck_def node_id_def)
  have es: "set ?es \<subseteq> set (drop k (raft_log S))"
  proof (rule subset_trans [OF set_take_subset])
    show "set (drop (applied_to S i) (raft_log S)) \<subseteq> set (drop k (raft_log S))"
      using id(2) set_drop_subset [of "applied_to S i - k" "drop k (raft_log S)"] by simp
  qed
  have none: "d \<notin> fst (stored_here i a)" if a: "a \<in> set ?as" for a
  proof -
    obtain e where "e \<in> set ?es" "a \<in> set (entry_actions e)" using a by auto
    then have "BlobStored ts d i u \<noteq> a" for ts u using es assms(4) by blast
    then show ?thesis by (cases a) (auto simp: stored_here_def)
  qed
  have st: "woken st = all_wakes (?n\<lparr>sm_db := s\<rparr>) ?as \<union> woken ?n" "failed st = failed ?n" "store_id st = store_id ?n"
      "blob_waiters st = clear_waiters (blob_waiters ?n) (\<Union>a \<in> set ?as. fst (stored_here i a))"
      "manifest_waiters st = clear_waiters (manifest_waiters ?n) (\<Union>a \<in> set ?as. snd (stored_here i a))"
    using n id(1) by (auto simp: notify_entries_eq Let_def woken_wake_all blob_waiters_wake_all manifest_waiters_wake_all
        failed_wake_all split: if_splits)
  have sub: "waiting_on (clear_waiters ws D) X \<subseteq> waiting_on ws X" for ws D X
    by (auto simp: waiting_on_def clear_waiters_def split: if_splits)
  have "wakes (?n\<lparr>sm_db := s\<rparr>) a \<subseteq> waiting_on (blob_waiters ?n) (- {d}) \<union> waiting_on (manifest_waiters ?n) UNIV"
    if "a \<in> set ?as" for a
    using none [OF that] id(1) by (auto simp: wakes_def waiting_on_def)
  then have "all_wakes (?n\<lparr>sm_db := s\<rparr>) ?as \<subseteq> waiting_on (blob_waiters ?n) (- {d}) \<union> waiting_on (manifest_waiters ?n) UNIV"
    unfolding all_wakes_def by blast
  then show ?thesis using assms(1) sub unfolding stuck_def
    by (simp add: True st node_id_def) (meson UnE subsetD)
qed

lemma step_stuck:
  assumes "\<And>i. hash_ok (E i)" and "codec_ok C" and "system_step A C ser from_json E S S'"
    and "system_ok A C ser from_json E S" and "stuck i d rd k S" and "built S' = {}"
    and "\<And>e ts u. e \<in> set (drop k (raft_log S)) \<Longrightarrow> BlobStored ts d i u \<notin> set (entry_actions e)"
  shows "stuck i d rd k S'"
  using assms(3)
proof (cases rule: system_step.cases)
  case (served j E' w q)
  have "hash_ok E'" using same_disk_safe_step(2) [OF served(2)] assms(1) by simp
  from safe_step_store [OF serve_at_once [OF this assms(2) served(3)]] show ?thesis
    using stuck_local [OF assms(5)] served(1) by simp
next
  case (read_looks j E' w q)
  then show ?thesis using assms(5) by (auto simp: stuck_def)
next
  case (read_registers x j)
  then show ?thesis using stuck_registers [OF assms(5)] by simp
next
  case (read_resumes x j)
  have "waits A C ser (rd_env x) (rd_channel x) (rd_request x) (rd_state x)"
    using read_resumes(2) assms(4) by (auto simp: system_ok_def reads_ok_def)
  from safe_step_store [OF serve_waited [OF this]] show ?thesis
    using stuck_local [OF assms(5)] read_resumes(1) by simp
next
  case (client_left x j)
  then show ?thesis using assms(5) by (auto simp: stuck_def node_id_def)
next
  case (peer_blob j E' d)
  from safe_step_store [OF peer_served_safe(1)] show ?thesis using stuck_local [OF assms(5)] peer_blob(1) by simp
next
  case (peer_manifest j E' d)
  from safe_step_store [OF peer_served_safe(2)] show ?thesis using stuck_local [OF assms(5)] peer_manifest(1) by simp
next
  case (transferred j E' N q)
  have "hash_ok E'" using same_disk_safe_step(2) [OF transferred(2)] assms(1) by simp
  from safe_step_store [OF transfer_safe [OF this]] show ?thesis
    using stuck_local [OF assms(5)] transferred(1) by simp
next
  case (unmounted pick it now at j n)
  from safe_step_store [OF unmounted_safe [OF unmounted(2)]] show ?thesis
    using stuck_local [OF assms(5)] unmounted(1) by simp
next
  case (collected j E' pick now' n)
  from phase2_removes(1) [OF collected(3)] show ?thesis using stuck_local [OF assms(5)] collected(1) by simp
next
  case (imported j P ib)
  then show ?thesis using stuck_local [OF assms(5)] by (simp add: import_registry_def)
next
  case (restarted j)
  then show ?thesis using assms(5) by (auto simp: stuck_def new_store_def node_id_def waiting_on_def)
next
  case (raft_commits e)
  then show ?thesis using stuck_local [OF assms(5)] by simp
next
  case (entries_applied j m st rs)
  show ?thesis unfolding entries_applied(1) by (rule stuck_applies [OF assms(5) entries_applied(2,3) assms(7)])
next
  case (snapshot_built to_json show_leader j rs snap rs')
  then show ?thesis using assms(6) by simp
next
  case (snapshot_installed l snap j rs st rs')
  then show ?thesis using assms(6) by auto
qed

lemma step_extends:
  assumes "system_step A C ser from_json E S S'"
  shows "\<exists>es. raft_log S' = raft_log S @ es" and "built S \<subseteq> built S'"
  using assms by (induction rule: system_step.induct) auto

lemma steps_extend:
  assumes "(system_step A C ser from_json E)\<^sup>*\<^sup>* S S'"
  shows "\<exists>es. raft_log S' = raft_log S @ es" and "built S \<subseteq> built S'"
proof -
  have "(\<exists>es. raft_log S' = raft_log S @ es) \<and> built S \<subseteq> built S'"
    using assms by (induction rule: rtranclp_induct) (use step_extends in fastforce)+
  then show "\<exists>es. raft_log S' = raft_log S @ es" "built S \<subseteq> built S'" by auto
qed

lemma steps_stuck:
  assumes "\<And>i. hash_ok (E i)" and "codec_ok C" and "(system_step A C ser from_json E)\<^sup>*\<^sup>* S S'"
    and "system_ok A C ser from_json E S" and "stuck i d rd (length (raft_log S)) S" and "built S' = {}"
    and "\<forall>e \<in> set (drop (length (raft_log S)) (raft_log S')). \<forall>ts u. BlobStored ts d i u \<notin> set (entry_actions e)"
  shows "stuck i d rd (length (raft_log S)) S'"
  using assms(3,6,7)
proof (induction rule: rtranclp_induct)
  case (step T U)
  note ext = step_extends [OF step.hyps(2)]
  obtain es where T: "raft_log T = raft_log S @ es" using steps_extend(1) [OF step.hyps(1)] by blast
  have quiet: "BlobStored ts d i u \<notin> set (entry_actions e)" if "e \<in> set (drop (length (raft_log S)) (raft_log T))" for e ts u
    using that step.prems(2) ext(1) T by auto
  have "stuck i d rd (length (raft_log S)) T" using step.IH step.prems(1) ext(2) quiet by blast
  then show ?case
    using step_stuck [OF assms(1,2) step.hyps(2) system_steps_ok [OF assms(1,2) step.hyps(1) assms(4)] _ step.prems(1) quiet]
    by simp
qed (use assms(5) in simp)

section \<open>The run to the lost wakeup\<close>

text \<open>Node 1 knows the blob of node 2, and a reader has looked at its row there.\<close>

lemma reader_looks:
  "\<exists>S rd st. (sample_step J)\<^sup>*\<^sup>* (new_system sample_nodes) S \<and> raft_log S = [pushed_entry 1 2] \<and> applied_to S 1 = 1 \<and>
     node_at S 1 = started_node\<lparr>node_store := st\<rparr> \<and> waiting_reads S = {rd} \<and> opened S = {0} \<and> built S = {} \<and>
     excused S = {} \<and> store_id st = 1 \<and> gone st = {} \<and> blob_waiters st = Map.empty \<and> manifest_waiters st = Map.empty \<and>
     woken st = {} \<and> failed st = {} \<and> rd_node rd = 1 \<and> rd_channel rd = 0 \<and> \<not> rd_registered rd \<and>
     request_object (rd_request rd) (rd_state rd) = Some (Mirror_Blob a64)"
proof -
  define S0 where "S0 = new_system sample_nodes"
  have S0: "raft_log S0 = []" "applied_to S0 = (\<lambda>_. 0)" "node_at S0 = sample_nodes" "waiting_reads S0 = {}"
      "opened S0 = {}" "built S0 = {}" "excused S0 = {}"
    by (simp_all add: new_system_def S0_def)
  obtain n2 where s1: "(sample_step J)\<^sup>*\<^sup>* S0 (set_node 2 n2 S0\<lparr>raft_log := [pushed_entry 1 2]\<rparr>)"
    using push_committed [of S0 2 "new_store 2 empty_db" J 1] by (auto simp: S0 sample_nodes_def new_store_def)
  define S1 where "S1 = set_node 2 n2 S0\<lparr>raft_log := [pushed_entry 1 2]\<rparr>"
  have S1: "raft_log S1 = [pushed_entry 1 2]" "applied_to S1 = (\<lambda>_. 0)" "node_at S1 1 = started_node" "waiting_reads S1 = {}"
      "opened S1 = {}" "built S1 = {}" "excused S1 = {}"
    by (simp_all add: S1_def S0 set_node_def sample_nodes_started)
  obtain st row where s2: "sample_step J S1 (set_node 1 ((node_at S1 1)\<lparr>node_store := st\<rparr>) S1
        \<lparr>applied_to := (applied_to S1)(1 := Suc 0)\<rparr>)"
      and st: "store_id st = 1" "gone st = {}" "blob_waiters st = Map.empty" "manifest_waiters st = Map.empty"
        "woken st = {}" "failed st = {}"
      and row: "get_blob st a64 = Some row" "RepositoryName ''r'' \<in> repositories row" "obj_size row = Some 3"
      "locations row = {2}"
    using push_applied [of S1 "[]" 1 2 1 J]
    by (auto simp: S1 started_node_def new_store_def get_blob_tx empty_db_def tx_simps)
  define S2 where "S2 = set_node 1 ((node_at S1 1)\<lparr>node_store := st\<rparr>) S1\<lparr>applied_to := (applied_to S1)(1 := Suc 0)\<rparr>"
  have S2: "raft_log S2 = [pushed_entry 1 2]" "applied_to S2 1 = 1" "node_at S2 1 = started_node\<lparr>node_store := st\<rparr>"
      "waiting_reads S2 = {}" "opened S2 = {}" "built S2 = {}" "excused S2 = {}"
    by (simp_all add: S2_def S1 set_node_def)
  define rd where "rd = \<lparr>rd_node = 1, rd_env = sample_env, rd_channel = 0, rd_request = pull_request,
    rd_state = node_at S2 1, rd_registered = False\<rparr>"
  have looks: "waits open_auth C ser sample_env w pull_request (node_at S2 1)"
      "request_object pull_request (node_at S2 1) = Some (Mirror_Blob a64)" for C ser w
    using pull_waits [of "node_at S2 1" row 3] row st(1) by (simp_all add: S2 node_id_def)
  define S3 where "S3 = S2\<lparr>waiting_reads := {rd}, opened := {0}\<rparr>"
  have "sample_step J S2 S3"
    using system_step.read_looks [of "\<lambda>_. sample_env" 1 sample_env open_auth sample_codec id 0 pull_request S2 J] looks(1)
    by (simp add: same_disk_def rd_def S2 S3_def)
  then have "(sample_step J)\<^sup>*\<^sup>* S0 S3"
    using s1 s2 unfolding S1_def [symmetric] S2_def [symmetric] by (meson rtranclp.rtrancl_into_rtrancl)
  then show ?thesis using st looks(2)
    by (intro exI [of _ S3] exI [of _ rd] exI [of _ st]) (simp add: S3_def S2 S0_def rd_def)
qed

text \<open>The blob is pushed at node 1 too, its record is applied there, and then the reader registers.\<close>

lemma reader_stuck:
  "\<exists>S rd row. (sample_step J)\<^sup>*\<^sup>* (new_system sample_nodes) S \<and> length (raft_log S) = 2 \<and> applied_to S 1 = 2 \<and>
     built S = {} \<and> excused S = {} \<and> rd \<in> waiting_reads S \<and> rd_registered rd \<and> rd_node rd = 1 \<and>
     request_object (rd_request rd) (rd_state rd) = Some (Mirror_Blob a64) \<and> stuck 1 a64 rd 2 S \<and>
     get_blob (node_store (node_at S 1)) a64 = Some row \<and> 1 \<in> locations row"
proof -
  obtain S3 rd st1 where s3: "(sample_step J)\<^sup>*\<^sup>* (new_system sample_nodes) S3" and
      S3: "raft_log S3 = [pushed_entry 1 2]" "applied_to S3 1 = 1" "node_at S3 1 = started_node\<lparr>node_store := st1\<rparr>"
      "waiting_reads S3 = {rd}" "opened S3 = {0}" "built S3 = {}" "excused S3 = {}"
      and st1: "store_id st1 = 1" "gone st1 = {}" "blob_waiters st1 = Map.empty" "manifest_waiters st1 = Map.empty"
        "woken st1 = {}" "failed st1 = {}"
      and rd: "rd_node rd = 1" "rd_channel rd = 0" "\<not> rd_registered rd"
        "request_object (rd_request rd) (rd_state rd) = Some (Mirror_Blob a64)"
    using reader_looks [of J] by auto
  obtain n1 where n1: "node_store n1 = st1"
      and s4: "(sample_step J)\<^sup>*\<^sup>* S3 (set_node 1 n1 S3\<lparr>raft_log := [pushed_entry 1 2, pushed_entry 2 1]\<rparr>)"
    using push_committed [of S3 1 st1 J 2] st1(1) by (auto simp: S3)
  define S4 where "S4 = set_node 1 n1 S3\<lparr>raft_log := [pushed_entry 1 2, pushed_entry 2 1]\<rparr>"
  have S4: "raft_log S4 = [pushed_entry 1 2] @ [pushed_entry 2 1]" "applied_to S4 1 = 1" "node_at S4 1 = n1"
      "waiting_reads S4 = {rd}" "opened S4 = {0}" "built S4 = {}" "excused S4 = {}"
    by (simp_all add: S4_def S3 set_node_def)
  obtain st2 row where s5: "sample_step J S4 (set_node 1 ((node_at S4 1)\<lparr>node_store := st2\<rparr>) S4
        \<lparr>applied_to := (applied_to S4)(1 := Suc (Suc 0))\<rparr>)"
      and st2: "store_id st2 = 1" "woken st2 = {}" "failed st2 = {}" "blob_waiters st2 = Map.empty"
        "manifest_waiters st2 = Map.empty" "get_blob st2 a64 = Some row" "1 \<in> locations row"
    using push_applied [of S4 "[pushed_entry 1 2]" 2 1 1 J] st1 n1 by (auto simp: S4)
  define S5 where "S5 = set_node 1 ((node_at S4 1)\<lparr>node_store := st2\<rparr>) S4\<lparr>applied_to := (applied_to S4)(1 := Suc (Suc 0))\<rparr>"
  have S5: "raft_log S5 = [pushed_entry 1 2, pushed_entry 2 1]" "applied_to S5 1 = 2" "node_store (node_at S5 1) = st2"
      "waiting_reads S5 = {rd}" "opened S5 = {0}" "built S5 = {}" "excused S5 = {}"
    by (simp_all add: S5_def S4 set_node_def)
  define S where "S = set_node 1 (register_wait (request_object (rd_request rd) (rd_state rd)) (rd_channel rd) (node_at S5 1)) S5
    \<lparr>waiting_reads := {rd\<lparr>rd_registered := True\<rparr>}\<rparr>"
  have "sample_step J S5 S"
    using system_step.read_registers [of rd S5 1] rd(1,3) by (simp add: S_def S5)
  then have steps: "(sample_step J)\<^sup>*\<^sup>* (new_system sample_nodes) S"
    using s3 s4 s5 unfolding S4_def [symmetric] S5_def [symmetric] by (meson rtranclp.rtrancl_into_rtrancl rtranclp_trans)
  have n: "node_store (node_at S 1) = wait_for_blob a64 0 st2" by (simp add: S_def rd S5)
  have S: "raft_log S = raft_log S5" "applied_to S 1 = 2" "built S = {}" "excused S = {}" "opened S = {0}"
      "waiting_reads S = {rd\<lparr>rd_registered := True\<rparr>}" "get_blob (node_store (node_at S 1)) a64 = Some row"
    using st2(6) n by (simp_all add: S_def S5 get_blob_tx wait_for_blob_def)
  have "stuck 1 a64 (rd\<lparr>rd_registered := True\<rparr>) 2 S"
    using st2 rd(2) by (simp add: stuck_def S n node_id_def wait_for_blob_def waiting_on_def)
  then show ?thesis using steps S rd st2(7) S5(1)
    by (intro exI [of _ S] exI [of _ "rd\<lparr>rd_registered := True\<rparr>"] exI [of _ row]) simp
qed

text \<open>
  C13. A read can be left waiting for a copy that has arrived. From the start, with every disk in order, the
  system reaches a state where the reader of a blob waits on a channel that its node holds
  (the row it read did not list the node), the node has applied everything raft has
  committed, and the row lists the node's copy, which is on its disk: the copy was recorded
  after the reader looked at the row and before it registered its channel. From then on, whatever happens, as
  long as no node builds a snapshot and nobody commits another record of the same copy, the channel is neither sent to nor dropped:
  the read, if it is still there (its client may leave, its node restart), goes on waiting.
\<close>

theorem lost_wakeup:
  "\<exists>S rd row c. (sample_step J)\<^sup>*\<^sup>* (new_system sample_nodes) S \<and> built S = {} \<and>
     rd \<in> waiting_reads S \<and> rd_registered rd \<and> rd_node rd = 1 \<and>
     request_object (rd_request rd) (rd_state rd) = Some (Mirror_Blob a64) \<and>
     rd_channel rd \<notin> woken (node_store (node_at S 1)) \<union> failed (node_store (node_at S 1)) \<and>
     applied_to S 1 = length (raft_log S) \<and>
     get_blob (node_store (node_at S 1)) a64 = Some row \<and> 1 \<in> locations row \<and>
     files (node_fs (node_at S 1)) (blob_file [''var''] a64) = Some c \<and> content_digest sample_env c = a64 \<and>
     (\<forall>S'. (sample_step J)\<^sup>*\<^sup>* S S' \<and> built S' = {} \<and>
        (\<forall>e \<in> set (drop (length (raft_log S)) (raft_log S')). \<forall>ts u. BlobStored ts a64 1 u \<notin> set (entry_actions e)) \<longrightarrow>
        rd_channel rd \<notin> woken (node_store (node_at S' 1)) \<union> failed (node_store (node_at S' 1)))"
proof -
  obtain S rd row where S: "(sample_step J)\<^sup>*\<^sup>* (new_system sample_nodes) S" "length (raft_log S) = 2" "applied_to S 1 = 2"
      "built S = {}" "excused S = {}" "rd \<in> waiting_reads S" "rd_registered rd" "rd_node rd = 1"
      "request_object (rd_request rd) (rd_state rd) = Some (Mirror_Blob a64)"
      and stuck: "stuck 1 a64 rd (length (raft_log S)) S"
      and row: "get_blob (node_store (node_at S 1)) a64 = Some row" "1 \<in> locations row"
    using reader_stuck [of J] by auto
  have ok: "system_ok open_auth sample_codec id J (\<lambda>_. sample_env) S"
    using system_steps_ok [OF sample_env_hash sample_codec_ok S(1) new_system_ok [OF sample_nodes_fresh]] .
  obtain c where c: "files (node_fs (node_at S 1)) (blob_file [''var''] a64) = Some c" "content_digest sample_env c = a64"
    using listed_stored(1) [OF ok row] S(5) by auto
  note stays = steps_stuck [OF sample_env_hash sample_codec_ok _ ok stuck]
  have "rd_channel rd \<notin> woken (node_store (node_at S' 1)) \<union> failed (node_store (node_at S' 1))"
    if "(sample_step J)\<^sup>*\<^sup>* S S' \<and> built S' = {} \<and>
      (\<forall>e \<in> set (drop (length (raft_log S)) (raft_log S')). \<forall>ts u. BlobStored ts a64 1 u \<notin> set (entry_actions e))" for S'
    using stays [of S'] that unfolding stuck_def by blast
  moreover from this [of S] have "rd_channel rd \<notin> woken (node_store (node_at S 1)) \<union> failed (node_store (node_at S 1))"
    using S(4) by simp
  ultimately show ?thesis using S row c
    by (intro exI [of _ S] exI [of _ rd] exI [of _ row] exI [of _ c]) simp
qed

text \<open>After it raft may, for instance, commit an entry of its own.\<close>

theorem lost_wakeup_witness:
  "\<exists>S S' rd. (sample_step (\<lambda>_. None))\<^sup>*\<^sup>* (new_system sample_nodes) S \<and> sample_step (\<lambda>_. None) S S' \<and>
     length (raft_log S') = Suc (length (raft_log S)) \<and> rd \<in> waiting_reads S' \<and> rd_registered rd \<and>
     rd_channel rd \<notin> woken (node_store (node_at S' 1)) \<union> failed (node_store (node_at S' 1))"
proof -
  let ?e = "\<lparr>entry_log_id = \<lparr>li_term = 2, li_node = 1, li_index = 3\<rparr>, payload = Blank\<rparr>"
  obtain S rd where S: "(sample_step (\<lambda>_. None))\<^sup>*\<^sup>* (new_system sample_nodes) S" "built S = {}" "rd \<in> waiting_reads S"
      "rd_registered rd"
      and later: "\<And>S'. (sample_step (\<lambda>_. None))\<^sup>*\<^sup>* S S' \<and> built S' = {} \<and>
        (\<forall>e \<in> set (drop (length (raft_log S)) (raft_log S')). \<forall>ts u. BlobStored ts a64 1 u \<notin> set (entry_actions e)) \<Longrightarrow>
        rd_channel rd \<notin> woken (node_store (node_at S' 1)) \<union> failed (node_store (node_at S' 1))"
    using lost_wakeup [of "\<lambda>_. None"] by blast
  let ?S = "S\<lparr>raft_log := raft_log S @ [?e]\<rparr>"
  have step: "sample_step (\<lambda>_. None) S ?S" by (rule system_step.raft_commits) (simp add: may_commit_def entry_actions_def)
  then have "rd_channel rd \<notin> woken (node_store (node_at ?S 1)) \<union> failed (node_store (node_at ?S 1))"
    using S(2) by (intro later) (auto simp: entry_actions_def)
  then show ?thesis using S step by (intro exI [of _ S] exI [of _ ?S] exI [of _ rd]) simp
qed

end
