(* ===== verification/Poison.thy ===== *)
theory Poison
  imports Races
begin

text \<open>
  An entry that panics stops the cluster: every node that gets to it panics, again after each restart. The
  entry that does it comes from ordinary operation: a download that is reported after the last other copy was
  found to be lost.
\<close>

section \<open>Positions in the log\<close>

text \<open>Without snapshots, the database of a node is what the entries it has applied make of an empty one.\<close>

definition positioned :: "system \<Rightarrow> bool" where
  "positioned S \<longleftrightarrow> (\<forall>i. applied_to S i \<le> length (raft_log S) \<and>
     map_option fst (apply_transaction (take (applied_to S i) (raft_log S)) empty_db) =
       Some (sm_db (node_store (node_at S i))))"

lemma positioned_local:
  assumes "positioned S" and "raft_log S' = raft_log S" and "applied_to S' = applied_to S"
    and "\<And>j. sm_db (node_store (node_at S' j)) = sm_db (node_store (node_at S j))"
  shows "positioned S'"
  using assms by (simp add: positioned_def)

lemma positioned_commit: "positioned S \<Longrightarrow> positioned (S\<lparr>raft_log := raft_log S @ [e]\<rparr>)"
  by (simp add: positioned_def le_SucI)

lemma positioned_apply:
  assumes "positioned S" and "applied_to S i + m \<le> length (raft_log S)"
    and "apply_to_state_machine (take m (drop (applied_to S i) (raft_log S))) (node_store (node_at S i)) = Some (st, rs)"
  shows "positioned (set_node i ((node_at S i)\<lparr>node_store := st\<rparr>) S\<lparr>applied_to := (applied_to S)(i := applied_to S i + m)\<rparr>)"
proof -
  let ?es = "take (applied_to S i) (raft_log S)" and ?fs = "take m (drop (applied_to S i) (raft_log S))"
  obtain s where s: "apply_transaction ?fs (sm_db (node_store (node_at S i))) = Some (s, rs)"
    and n: "notify_entries ?fs ((node_store (node_at S i))\<lparr>sm_db := s\<rparr>) = Some st"
    using apply_to_state_machine_Some [OF assms(3)] .
  have "sm_db st = s" using n by (auto simp: notify_entries_eq Let_def split: if_splits)
  moreover obtain rs' where "apply_transaction ?es empty_db = Some (sm_db (node_store (node_at S i)), rs')"
    using assms(1) by (auto simp: positioned_def)
  then have "map_option fst (apply_transaction (?es @ ?fs) empty_db) = Some s"
    using s by (simp add: apply_transaction_append_aux)
  ultimately show ?thesis using assms(1,2) by (simp add: positioned_def take_add)
qed

lemma new_system_positioned:
  assumes "\<And>i. fresh_node i (ns i)"
  shows "positioned (new_system ns)"
  using assms by (simp add: positioned_def new_system_def fresh_node_def new_store_def apply_transaction_def)

section \<open>Every step keeps the positions\<close>

lemma safe_step_db: "safe_step E n n' \<Longrightarrow> sm_db (node_store n') = sm_db (node_store n)"
  by (simp add: safe_step_def)

lemma step_positioned:
  assumes "\<And>i. hash_ok (E i)" and "codec_ok C" and "system_step A C ser from_json E S S'"
    and "system_ok A C ser from_json E S" and "positioned S" and "built S' = {}"
  shows "positioned S'"
  using assms(3)
proof (cases rule: system_step.cases)
  case (served i E' w q)
  have "hash_ok E'" using same_disk_safe_step(2) [OF served(2)] assms(1) by simp
  from safe_step_db [OF serve_at_once [OF this assms(2) served(3)]] show ?thesis
    using positioned_local [OF assms(5)] served(1) by simp
next
  case (read_resumes rd i)
  have "waits A C ser (rd_env rd) (rd_channel rd) (rd_request rd) (rd_state rd)"
    using read_resumes(2) assms(4) by (auto simp: system_ok_def reads_ok_def)
  from safe_step_db [OF serve_waited [OF this]] show ?thesis
    using positioned_local [OF assms(5)] read_resumes(1) by simp
next
  case (peer_blob i E' d)
  from safe_step_db [OF peer_served_safe(1)] show ?thesis
    using positioned_local [OF assms(5)] peer_blob(1) by simp
next
  case (peer_manifest i E' d)
  from safe_step_db [OF peer_served_safe(2)] show ?thesis
    using positioned_local [OF assms(5)] peer_manifest(1) by simp
next
  case (transferred i E' N q)
  have "hash_ok E'" using same_disk_safe_step(2) [OF transferred(2)] assms(1) by simp
  from safe_step_db [OF transfer_safe [OF this]] show ?thesis
    using positioned_local [OF assms(5)] transferred(1) by simp
next
  case (unmounted pick it now at i n)
  from safe_step_db [OF unmounted_safe [OF unmounted(2)]] show ?thesis
    using positioned_local [OF assms(5)] unmounted(1) by simp
next
  case (collected i E' pick now' n)
  from phase2_removes(1) [OF collected(3)] show ?thesis using positioned_local [OF assms(5)] collected(1) by simp
next
  case (raft_commits e)
  then show ?thesis using positioned_commit [OF assms(5)] by simp
next
  case (entries_applied i m st rs)
  then show ?thesis using positioned_apply [OF assms(5)] by simp
next
  case (snapshot_built to_json show_leader i rs snap rs')
  then show ?thesis using assms(6) by simp
next
  case (snapshot_installed k snap i rs st rs')
  then show ?thesis using assms(6) by auto
qed (use positioned_local [OF assms(5)] register_wait_keeps(4) in \<open>simp_all add: new_store_def import_registry_def\<close>)

lemma steps_positioned:
  assumes "\<And>i. hash_ok (E i)" and "codec_ok C" and "(system_step A C ser from_json E)\<^sup>*\<^sup>* S S'"
    and "system_ok A C ser from_json E S" and "positioned S" and "built S' = {}"
  shows "positioned S' \<and> (\<exists>es. raft_log S' = raft_log S @ es)"
  using assms(3,6)
proof (induction rule: rtranclp_induct)
  case (step T U)
  note ext = step_extends [OF step.hyps(2)]
  have T: "positioned T" "\<exists>es. raft_log T = raft_log S @ es" using step.IH step.prems ext(2) by auto
  have "system_ok A C ser from_json E T" using system_steps_ok [OF assms(1,2) step.hyps(1) assms(4)] .
  from step_positioned [OF assms(1,2) step.hyps(2) this T(1) step.prems] T(2) ext(1) show ?case by auto
qed (use assms(5) in simp)

section \<open>The cluster stops\<close>

text \<open>
  C7. As long as nobody has built a snapshot, an entry that panics stops the cluster. Start any number of empty nodes and let
  anything happen. If the log has come to hold an entry whose transaction panics after the ones before it, then in every later
  state in which no snapshot has been built yet, no node has got past it, whatever happened, restarts included. (A node whose
  database a snapshot has changed may hold rows the log alone would not give it, so the claim stops there.)
\<close>

theorem poisoned_log:
  assumes "\<And>i. hash_ok (E i)" and "codec_ok C" and "\<And>i. fresh_node i (ns i)"
    and "(system_step A C ser from_json E)\<^sup>*\<^sup>* (new_system ns) S"
    and "apply_transaction (take k (raft_log S)) empty_db = None"
    and "(system_step A C ser from_json E)\<^sup>*\<^sup>* S S'" and "built S' = {}"
  shows "applied_to S' i < k"
proof (rule ccontr)
  assume "\<not> applied_to S' i < k"
  let ?j = "applied_to S' i"
  note start = new_system_ok [OF assms(3)] new_system_positioned [OF assms(3)]
  have "positioned S'" using steps_positioned [OF assms(1,2) rtranclp_trans [OF assms(4,6)] start assms(7)] by simp
  then have "map_option fst (apply_transaction (take ?j (raft_log S')) empty_db) \<noteq> None"
    unfolding positioned_def by (metis option.distinct(1))
  then have j: "apply_transaction (take ?j (raft_log S')) empty_db \<noteq> None" by simp
  obtain es where es: "raft_log S' = raft_log S @ es"
    using steps_extend(1) [OF assms(6)] by blast
  have "take (k + (?j - k)) (raft_log S') = take k (raft_log S) @ take (k - length (raft_log S)) es @
      take (?j - k) (drop k (raft_log S'))"
    unfolding take_add by (simp add: es)
  then have "\<exists>fs. take ?j (raft_log S') = take k (raft_log S) @ fs"
    using \<open>\<not> applied_to S' i < k\<close> by auto
  then obtain fs where "take ?j (raft_log S') = take k (raft_log S) @ fs" by blast
  then show False using j assms(5) by (simp add: apply_transaction_append_aux)
qed


section \<open>Ordinary operation can write such an entry\<close>

definition member_entry :: entry where
  "member_entry = \<lparr>entry_log_id = \<lparr>li_term = 1, li_node = 1, li_index = 2\<rparr>,
     payload = MembershipChange (Membership [{1, 2}] [(1, ''h:1'')])\<rparr>"

definition repair_entry :: entry where
  "repair_entry = \<lparr>entry_log_id = \<lparr>li_term = 1, li_node = 1, li_index = 3\<rparr>,
     payload = Normal (Transaction [BlobUnstored 0 a64 1 ''$fsck''])\<rparr>"

definition arrived_entry :: entry where
  "arrived_entry = \<lparr>entry_log_id = \<lparr>li_term = 1, li_node = 1, li_index = 4\<rparr>,
     payload = Normal (Transaction [BlobStored 0 a64 2 ''$internal''])\<rparr>"

lemma member_applies:
  "apply_to_state_machine [member_entry] st = Some (st\<lparr>sm_db := set_last_membership_tx
     \<lparr>sm_log_id = Some (entry_log_id member_entry), sm_membership = Membership [{1, 2}] [(1, ''h:1'')]\<rparr>
     (set_last_applied_log_tx (entry_log_id member_entry) (sm_db st))\<rparr>, [\<lparr>response_value = 2\<rparr>])"
  by (simp add: apply_to_state_machine_def apply_transaction_def apply_entry_def member_entry_def notify_entries_def
      entry_actions_def)

text \<open>The report of a copy after the last other one is gone.\<close>

lemma late_report_panics:
  assumes "tx_get_blob s a64 = Some row" and "locations row = {1}"
  shows "apply_transaction [repair_entry, arrived_entry] s = None"
  using assms
  by (simp add: apply_transaction_def apply_entry_def repair_entry_def arrived_entry_def apply_actions_def
      apply_blob_unstored_def apply_blob_stored_def tx_simps Let_def)

lemma repair_applies: "apply_transaction [repair_entry] s \<noteq> None"
  by (simp add: apply_transaction_def apply_entry_def repair_entry_def apply_actions_def Let_def)

text \<open>A node that has just started fetches the blob.\<close>

lemma started_layout: "layout_ok sample_env started_fs"
proof -
  have "object_path k [''var''] d \<notin> dirs started_fs" for k d
    by (rule started_dirs(3)) (simp add: object_path_def Let_def)
  then show ?thesis using started_dirs by (simp add: layout_ok_def)
qed

lemma started_fetches:
  assumes "get_blob st a64 = Some row" and "locations row = {1}" and "store_id st = 2"
    and "nodes (sm_membership (get_last_membership (sm_db st))) = [(1, ''h:1'')]"
  shows "submitted (transfer sample_env sample_net (Mirror_Blob a64) (started_node\<lparr>node_store := st\<rparr>)) =
    [entry_actions arrived_entry]"
proof -
  let ?n = "started_node\<lparr>node_store := st\<rparr>" and ?q = "Mirror_Blob a64"
  have io: "env_io sample_env op" for op by simp
  have row: "request_row ?q (node_store ?n) = Some row" using assms(1) by simp
  have urls: "source_urls ?q row (node_store ?n) \<noteq> []"
    using assms(2,4) by (simp add: source_urls_def)
  have temp: "get_temp_mirror_path ''u'' [''var''] = [''var'', ''uploads'', ''mirror-u'']"
    by (simp add: mirror_path_shape plain_def)
  have "snd (do_transfer sample_env sample_net ?q ?n) = Some (mirror_success (clock sample_env 0) (node_id ?n) ?q)"
    by (rule do_transfer_complete [OF sample_env_hash io _ _ _ row _ _ urls, where chunks = "[Some ''abc'']"])
      (simp_all add: started_node_def started_layout plain_def temp node_id_def assms sample_net_def started_dirs)
  then have "snd (do_transfer sample_env sample_net ?q ?n) = Some (Success ?q (BlobStored 0 a64 2 ''$internal''))"
    using assms(3) by (simp add: node_id_def sample_env_def)
  then obtain n' where run: "do_transfer sample_env sample_net ?q ?n = (n', Some (Success ?q (BlobStored 0 a64 2 ''$internal'')))"
    by (metis prod.collapse)
  have "submitted n' = []"
    using run
  proof (cases rule: do_transfer_cases)
    case (fetched row' chunks)
    from sample_env_hash fetched(5) show ?thesis
      by (cases rule: store_download_cases) (simp_all add: started_node_def)
  qed (simp add: started_node_def)
  then show ?thesis using run by (simp add: transfer_def arrived_entry_def entry_actions_def)
qed


text \<open>
  A blob is pushed at node 1 and recorded; node 2 applies the record and learns where node 1 is.
\<close>

lemma holder_known:
  "\<exists>S st row. (sample_step J)\<^sup>*\<^sup>* (new_system sample_nodes) S \<and> raft_log S = [pushed_entry 1 1, member_entry] \<and>
     applied_to S 2 = 2 \<and> built S = {} \<and> node_at S 2 = started_node\<lparr>node_store := st\<rparr> \<and> store_id st = 2 \<and>
     get_blob st a64 = Some row \<and> locations row = {1} \<and>
     nodes (sm_membership (get_last_membership (sm_db st))) = [(1, ''h:1'')]"
proof -
  define S0 where "S0 = new_system sample_nodes"
  have S0: "raft_log S0 = []" "applied_to S0 = (\<lambda>_. 0)" "node_at S0 = sample_nodes" "built S0 = {}"
    by (simp_all add: new_system_def S0_def)
  obtain n1 where s1: "(sample_step J)\<^sup>*\<^sup>* S0 (set_node 1 n1 S0\<lparr>raft_log := [pushed_entry 1 1]\<rparr>)"
    using push_committed [of S0 1 "new_store 1 empty_db" J 1] by (auto simp: S0 sample_nodes_def new_store_def)
  define S1 where "S1 = set_node 1 n1 S0\<lparr>raft_log := [pushed_entry 1 1]\<rparr>"
  have S1: "raft_log S1 = [pushed_entry 1 1]" "applied_to S1 = (\<lambda>_. 0)" "built S1 = {}"
      "node_at S1 2 = started_node\<lparr>node_store := new_store 2 empty_db\<rparr>"
    by (simp_all add: S1_def S0 sample_nodes_def)
  obtain st row where s2: "sample_step J S1 (set_node 2 ((node_at S1 2)\<lparr>node_store := st\<rparr>) S1
        \<lparr>applied_to := (applied_to S1)(2 := Suc 0)\<rparr>)"
      and st: "store_id st = 2" "get_blob st a64 = Some row" "locations row = {1}"
    using push_applied [of S1 "[]" 1 1 2 J]
    by (auto simp: S1 new_store_def get_blob_tx empty_db_def tx_simps)
  define S2 where "S2 = set_node 2 ((node_at S1 2)\<lparr>node_store := st\<rparr>) S1\<lparr>applied_to := (applied_to S1)(2 := Suc 0)\<rparr>"
  define S3 where "S3 = S2\<lparr>raft_log := raft_log S2 @ [member_entry]\<rparr>"
  have s3: "sample_step J S2 S3"
    unfolding S3_def by (rule system_step.raft_commits) (simp add: may_commit_def member_entry_def entry_actions_def)
  have S3: "raft_log S3 = [pushed_entry 1 1, member_entry]" "applied_to S3 2 = 1" "node_store (node_at S3 2) = st"
    by (simp_all add: S3_def S2_def S1)
  obtain st' rs where ap: "apply_to_state_machine [member_entry] st = Some (st', rs)"
      and st': "store_id st' = 2" "get_blob st' a64 = Some row"
        "nodes (sm_membership (get_last_membership (sm_db st'))) = [(1, ''h:1'')]"
    using st member_applies [of st] by (auto simp: get_blob_tx tx_simps)
  define S4 where "S4 = set_node 2 ((node_at S3 2)\<lparr>node_store := st'\<rparr>) S3\<lparr>applied_to := (applied_to S3)(2 := applied_to S3 2 + 1)\<rparr>"
  have "sample_step J S3 S4"
    unfolding S4_def by (rule system_step.entries_applied [where m = 1 and rs = rs]) (simp_all add: S3 ap)
  then have "(sample_step J)\<^sup>*\<^sup>* S0 S4"
    using s1 s2 s3 unfolding S1_def [symmetric] S2_def [symmetric] by (meson rtranclp.rtrancl_into_rtrancl)
  then show ?thesis using st' st(3)
    by (intro exI [of _ S4] exI [of _ st'] exI [of _ row]) (simp add: S4_def S3_def S2_def S1 S0_def)
qed

text \<open>
  Node 2 fetches the blob; before its report is committed, a repair reports that node 1 has lost its copy. The report
  then comes after the row is gone.
\<close>

lemma late_report:
  "\<exists>S. (sample_step J)\<^sup>*\<^sup>* (new_system sample_nodes) S \<and>
     raft_log S = [pushed_entry 1 1, member_entry, repair_entry, arrived_entry] \<and>
     submitted (node_at S 2) = [entry_actions arrived_entry] \<and> built S = {} \<and>
     apply_transaction (take 3 (raft_log S)) empty_db \<noteq> None \<and> apply_transaction (raft_log S) empty_db = None"
proof -
  obtain S4 st row where steps: "(sample_step J)\<^sup>*\<^sup>* (new_system sample_nodes) S4"
      and S4: "raft_log S4 = [pushed_entry 1 1, member_entry]" "applied_to S4 2 = 2" "built S4 = {}"
        "node_at S4 2 = started_node\<lparr>node_store := st\<rparr>"
      and st: "store_id st = 2" "get_blob st a64 = Some row" "locations row = {1}"
        "nodes (sm_membership (get_last_membership (sm_db st))) = [(1, ''h:1'')]"
    using holder_known [of J] by blast
  define n2 where "n2 = transfer sample_env sample_net (Mirror_Blob a64) (node_at S4 2)"
  have n2: "submitted n2 = [entry_actions arrived_entry]"
    using started_fetches [OF st(2,3,1,4)] by (simp add: n2_def S4)
  define S5 where "S5 = set_node 2 n2 S4"
  have s5: "sample_step J S4 S5"
    unfolding S5_def n2_def by (rule system_step.transferred) (simp add: same_disk_def)
  define S6 where "S6 = S5\<lparr>raft_log := raft_log S5 @ [repair_entry]\<rparr>"
  have s6: "sample_step J S5 S6"
    unfolding S6_def by (rule system_step.raft_commits) (simp add: may_commit_def repair_entry_def entry_actions_def claimed_def)
  define S7 where "S7 = S6\<lparr>raft_log := raft_log S6 @ [arrived_entry]\<rparr>"
  have s7: "sample_step J S6 S7" unfolding S7_def
    by (rule system_step.raft_commits) (auto simp: may_commit_def S6_def S5_def n2 intro: exI [of _ 2])
  have S7: "raft_log S7 = [pushed_entry 1 1, member_entry] @ [repair_entry, arrived_entry]" "built S7 = {}" "node_at S7 2 = n2"
    by (simp_all add: S7_def S6_def S5_def S4)
  note start = new_system_ok [where ns = sample_nodes, OF sample_nodes_fresh] new_system_positioned [OF sample_nodes_fresh]
  have "positioned S4" using steps_positioned [OF sample_env_hash sample_codec_ok steps start S4(3)] by simp
  then have "map_option fst (apply_transaction (take (applied_to S4 2) (raft_log S4)) empty_db) =
      Some (sm_db (node_store (node_at S4 2)))"
    unfolding positioned_def by blast
  then obtain rs where "apply_transaction [pushed_entry 1 1, member_entry] empty_db = Some (sm_db st, rs)"
    unfolding S4 by auto
  then have two: "apply_transaction ([pushed_entry 1 1, member_entry] @ es) empty_db = None \<longleftrightarrow>
      apply_transaction es (sm_db st) = None" for es
    by (simp only: apply_transaction_append_aux) simp
  have "apply_transaction (raft_log S7) empty_db = None"
    unfolding S7(1) two by (rule late_report_panics) (use st(2,3) in \<open>simp_all add: get_blob_tx\<close>)
  moreover have "take 3 (raft_log S7) = [pushed_entry 1 1, member_entry] @ [repair_entry]" by (simp add: S7)
  then have "apply_transaction (take 3 (raft_log S7)) empty_db \<noteq> None" using two repair_applies by metis
  moreover have "(sample_step J)\<^sup>*\<^sup>* (new_system sample_nodes) S7"
    using steps s5 s6 s7 by (meson rtranclp.rtrancl_into_rtrancl)
  ultimately show ?thesis using S7 n2 by (intro exI [of _ S7]) simp
qed

theorem poisoned_log_witness:
  "\<exists>S. (sample_step (\<lambda>_. None))\<^sup>*\<^sup>* (new_system sample_nodes) S \<and>
     raft_log S = [pushed_entry 1 1, member_entry, repair_entry, arrived_entry] \<and> (\<forall>i. applied_to S i < 4)"
proof -
  obtain S where S: "(sample_step (\<lambda>_. None))\<^sup>*\<^sup>* (new_system sample_nodes) S"
      "raft_log S = [pushed_entry 1 1, member_entry, repair_entry, arrived_entry]" "built S = {}"
      "apply_transaction (raft_log S) empty_db = None"
    using late_report [of "\<lambda>_. None"] by blast
  have "apply_transaction (take 4 (raft_log S)) empty_db = None" using S(2,4) by simp
  from poisoned_log [OF sample_env_hash sample_codec_ok sample_nodes_fresh S(1) this rtranclp.rtrancl_refl S(3)]
  show ?thesis using S(1,2) by blast
qed

text \<open>
  C8. Ordinary operation writes an entry that panics. From two empty nodes the system reaches a state in
  which raft has committed the record of a push at node 1, a membership, a repair that reports
  the copy of node 1 as lost, and then what node 2 has submitted for its download of that blob, which it made while node 1 still had it.
  Applied in order to an empty database, this log panics: the repair has deleted the row, and the arrival unwraps it.
\<close>

theorem late_report_poisons:
  "\<exists>S. (sample_step J)\<^sup>*\<^sup>* (new_system sample_nodes) S \<and>
     raft_log S = [pushed_entry 1 1, member_entry, repair_entry, arrived_entry] \<and>
     submitted (node_at S 2) = [entry_actions arrived_entry] \<and>
     apply_transaction (take 3 (raft_log S)) empty_db \<noteq> None \<and> apply_transaction (raft_log S) empty_db = None"
  using late_report [of J] by blast

end
