(* ===== verification/Pulls.thy ===== *)
theory Pulls
  imports Flows Poison
begin

text \<open>
  What a client pulls from a system: the read handlers (\<^verbatim>\<open>src/registry/blobs/{get,head}.rs\<close>,
  \<^verbatim>\<open>src/registry/manifests/{get,head}.rs\<close>) on a node of the theory \<open>System\<close>.
\<close>

section \<open>The end of a read\<close>




section \<open>Pulled content\<close>



end
