(* ===== verification/Sessions.thy ===== *)
theory Sessions
  imports Uploads
begin

text \<open>
  The upload handlers at the grain of their file operations, between which an \<open>await\<close> lets other requests run:
  \<open>upload_part\<close> of \<^verbatim>\<open>src/registry/utils.rs\<close> opens the file once and then writes through the open
  file, wherever the file is renamed to meanwhile; a put hashes the file by name, and then renames it by name.
  A file is a numbered object with a name. Hashing is one step here; so is each write.
\<close>

section \<open>Open files\<close>

record handle_fs =
  named :: "path \<Rightarrow> nat option"
  content :: "nat \<Rightarrow> bytes"
  next_file :: nat

definition contents_of :: "handle_fs \<Rightarrow> path \<Rightarrow> bytes option" where
  "contents_of F p = map_option (content F) (named F p)"

definition open_named :: "path \<Rightarrow> handle_fs \<Rightarrow> nat \<times> handle_fs" where
  "open_named p F =
     (case named F p of
        Some i \<Rightarrow> (i, F)
      | None \<Rightarrow> (next_file F, F\<lparr>named := (named F)(p \<mapsto> next_file F),
          content := (content F)(next_file F := []), next_file := Suc (next_file F)\<rparr>))"

definition write_open :: "nat \<Rightarrow> bytes \<Rightarrow> handle_fs \<Rightarrow> handle_fs" where
  "write_open i bs F = F\<lparr>content := (content F)(i := content F i @ bs)\<rparr>"

definition rename_named :: "path \<Rightarrow> path \<Rightarrow> handle_fs \<Rightarrow> handle_fs" where
  "rename_named p q F = F\<lparr>named := (named F)(p := None, q := named F p)\<rparr>"

definition unlink :: "path \<Rightarrow> handle_fs \<Rightarrow> handle_fs" where
  "unlink p F = F\<lparr>named := (named F)(p := None)\<rparr>"

section \<open>Requests on uploads\<close>

text \<open>A patch, a put with the digest it names, and a delete, and how far they have come.\<close>

datatype upload_goal = Append_Only | Commit_As digest | Remove

datatype upload_phase =
  Arrived "bytes list" | Opening "bytes list" | Appending nat "bytes list" | Hashing | Moving | Finished bool

record upload_task =
  session :: string
  goal :: upload_goal
  phase :: upload_phase

definition session_file :: "env \<Rightarrow> upload_task \<Rightarrow> path" where
  "session_file E t = get_upload_path (root E) (session t)"

fun finished :: "upload_phase \<Rightarrow> bool" where
  "finished (Finished ok) = True"
| "finished _ = False"

type_synonym sessions = "handle_fs \<times> (nat \<Rightarrow> upload_task option)"

text \<open>
  The steps. With \<open>alone\<close>, a client sends a request on an upload only after the one before is answered.
  Anything may fail or be cancelled at any time. A post starts an upload, which is an empty file; a post that
  brings the whole blob works under a name nobody else knows, and is left out.
\<close>

inductive session_step :: "env \<Rightarrow> bool \<Rightarrow> sessions \<Rightarrow> sessions \<Rightarrow> bool" for E alone where
  started: "named F (get_upload_path (root E) u) = None \<Longrightarrow>
    session_step E alone (F, T) (snd (open_named (get_upload_path (root E) u) F), T)"
| arrives: "T k = None \<Longrightarrow> phase t = Arrived cs \<Longrightarrow>
    (alone \<Longrightarrow> \<forall>j t'. T j = Some t' \<longrightarrow> session_file E t' = session_file E t \<longrightarrow> finished (phase t')) \<Longrightarrow>
    session_step E alone (F, T) (F, T(k \<mapsto> t))"
| found: "T k = Some t \<Longrightarrow> phase t = Arrived cs \<Longrightarrow> goal t \<noteq> Remove \<Longrightarrow> named F (session_file E t) \<noteq> None \<Longrightarrow>
    session_step E alone (F, T) (F, T(k \<mapsto> t\<lparr>phase := Opening cs\<rparr>))"
| opened: "T k = Some t \<Longrightarrow> phase t = Opening cs \<Longrightarrow> open_named (session_file E t) F = (i, F') \<Longrightarrow>
    session_step E alone (F, T) (F', T(k \<mapsto> t\<lparr>phase := Appending i cs\<rparr>))"
| written: "T k = Some t \<Longrightarrow> phase t = Appending i (c # cs) \<Longrightarrow>
    session_step E alone (F, T) (write_open i c F, T(k \<mapsto> t\<lparr>phase := Appending i cs\<rparr>))"
| synced: "T k = Some t \<Longrightarrow> phase t = Appending i [] \<Longrightarrow>
    session_step E alone (F, T)
      (F, T(k \<mapsto> t\<lparr>phase := (case goal t of Commit_As d \<Rightarrow> Hashing | _ \<Rightarrow> Finished True)\<rparr>))"
| hashed: "T k = Some t \<Longrightarrow> phase t = Hashing \<Longrightarrow> goal t = Commit_As d \<Longrightarrow>
    contents_of F (session_file E t) = Some b \<Longrightarrow> content_digest E b = d \<Longrightarrow>
    session_step E alone (F, T) (F, T(k \<mapsto> t\<lparr>phase := Moving\<rparr>))"
| moved: "T k = Some t \<Longrightarrow> phase t = Moving \<Longrightarrow> goal t = Commit_As d \<Longrightarrow> named F (session_file E t) \<noteq> None \<Longrightarrow>
    session_step E alone (F, T)
      (rename_named (session_file E t) (blob_file (root E) d) F, T(k \<mapsto> t\<lparr>phase := Finished True\<rparr>))"
| removed: "T k = Some t \<Longrightarrow> phase t = Arrived cs \<Longrightarrow> goal t = Remove \<Longrightarrow> named F (session_file E t) \<noteq> None \<Longrightarrow>
    session_step E alone (F, T) (unlink (session_file E t) F, T(k \<mapsto> t\<lparr>phase := Finished True\<rparr>))"
| stopped: "T k = Some t \<Longrightarrow> \<not> finished (phase t) \<Longrightarrow> session_step E alone (F, T) (F, T(k \<mapsto> t\<lparr>phase := Finished False\<rparr>))"

text \<open>Every blob is the content of its digest.\<close>

definition blobs_sound :: "env \<Rightarrow> handle_fs \<Rightarrow> bool" where
  "blobs_sound E F \<longleftrightarrow>
     (\<forall>d b. hex_digest d \<longrightarrow> contents_of F (blob_file (root E) d) = Some b \<longrightarrow> content_digest E b = d)"

section \<open>One request at a time\<close>

text \<open>A file has one name, and a request that has it open is the only one on its upload.\<close>

definition one_name :: "handle_fs \<Rightarrow> bool" where
  "one_name F \<longleftrightarrow> (\<forall>p q i. named F p = Some i \<longrightarrow> i < next_file F \<and> (named F q = Some i \<longrightarrow> q = p))"

fun phase_ok :: "env \<Rightarrow> handle_fs \<Rightarrow> upload_task \<Rightarrow> upload_phase \<Rightarrow> bool" where
  "phase_ok E F t (Appending i cs) = (named F (session_file E t) = Some i)"
| "phase_ok E F t Moving = (\<exists>d b. goal t = Commit_As d \<and> contents_of F (session_file E t) = Some b \<and> content_digest E b = d)"
| "phase_ok E F t _ = True"

definition sessions_ok :: "env \<Rightarrow> sessions \<Rightarrow> bool" where
  "sessions_ok E X \<longleftrightarrow> (case X of (F, T) \<Rightarrow> one_name F \<and> blobs_sound E F \<and>
     (\<forall>k t. T k = Some t \<longrightarrow> phase_ok E F t (phase t)) \<and>
     (\<forall>j k t t'. T j = Some t \<longrightarrow> T k = Some t' \<longrightarrow> j \<noteq> k \<longrightarrow> session_file E t = session_file E t' \<longrightarrow>
        finished (phase t) \<or> finished (phase t')))"


lemma session_file_update [simp]: "session_file E (t\<lparr>phase := x\<rparr>) = session_file E t"
  by (simp add: session_file_def)

lemma session_file_not_blob: "session_file E t \<noteq> blob_file (root E) d"
  using upload_path_not_object(1) [of "''blobs''"] by (simp add: session_file_def)

lemma blob_not_session: "blob_file p d \<noteq> get_upload_path p u" "blob_file (root E) d \<noteq> session_file E t"
  using upload_path_not_object(1) [of "''blobs''" p u d] session_file_not_blob [of E t d] by auto

lemma phase_ok_update [simp]: "phase_ok E F (t\<lparr>phase := x\<rparr>) y = phase_ok E F t y"
  by (cases y) simp_all

lemma phase_ok_same:
  assumes "named F' (session_file E t) = named F (session_file E t)"
    and "contents_of F' (session_file E t) = contents_of F (session_file E t)"
  shows "phase_ok E F' t x = phase_ok E F t x"
  using assms by (cases x) simp_all

lemma sessions_okD:
  assumes "sessions_ok E (F, T)"
  shows "one_name F" and "blobs_sound E F" and "T k = Some t \<Longrightarrow> phase_ok E F t (phase t)"
  using assms unfolding sessions_ok_def by blast+

text \<open>A step of one request: the file system changes at its own file, or not at all.\<close>

lemma sessions_ok_step:
  assumes "sessions_ok E (F, T)" and "T k = Some t" and "\<not> finished (phase t)"
    and "one_name F'" and "blobs_sound E F'" and "phase_ok E F' t x"
    and "\<And>t'. session_file E t' \<noteq> session_file E t \<Longrightarrow> named F' (session_file E t') = named F (session_file E t') \<and>
      contents_of F' (session_file E t') = contents_of F (session_file E t')"
  shows "sessions_ok E (F', T(k \<mapsto> t\<lparr>phase := x\<rparr>))"
proof -
  have "phase_ok E F' t' (phase t')" if "T j = Some t'" "j \<noteq> k" for j t'
  proof (cases "session_file E t' = session_file E t")
    case True
    then have "finished (phase t')" using assms(1-3) that by (fastforce simp: sessions_ok_def)
    then show ?thesis by (cases "phase t'") simp_all
  next
    case False
    then show ?thesis using phase_ok_same [of F' E t' F] assms(1,7) that by (simp add: sessions_ok_def)
  qed
  moreover have "finished (phase t') \<or> finished (phase t'')"
    if "T i = Some t'" "T j = Some t''" "i \<noteq> j" "session_file E t' = session_file E t''" for i j t' t''
    using assms(1) that by (fastforce simp: sessions_ok_def)
  ultimately show ?thesis using assms(2-6) unfolding sessions_ok_def by (auto split: if_splits) metis+
qed

lemma one_nameD:
  assumes "one_name F" and "named F p = Some i"
  shows "i < next_file F" and "named F q = Some i \<Longrightarrow> q = p"
  using assms unfolding one_name_def by blast+

lemma contents_open:
  assumes "open_named p F = (i, F')" and "one_name F"
  shows "one_name F'" and "named F' p = Some i" and "q \<noteq> p \<Longrightarrow> named F' q = named F q"
    and "q \<noteq> p \<Longrightarrow> contents_of F' q = contents_of F q"
proof -
  note D = one_nameD [OF assms(2)]
  have *: "one_name F' \<and> named F' p = Some i \<and>
      (q \<noteq> p \<longrightarrow> named F' q = named F q \<and> contents_of F' q = contents_of F q)"
  proof (cases "named F p")
    case None
    then have F': "i = next_file F" "named F' = (named F)(p \<mapsto> next_file F)"
        "content F' = (content F)(next_file F := [])" "next_file F' = Suc (next_file F)"
      using assms(1) by (auto simp: open_named_def)
    have "one_name F'"
      unfolding one_name_def F' using D by (auto simp: less_SucI split: if_splits)
    moreover have "contents_of F' q = contents_of F q" if "q \<noteq> p"
      using that D(1) by (cases "named F q") (auto simp: contents_of_def F')
    ultimately show ?thesis by (simp add: F')
  next
    case (Some j)
    then show ?thesis using assms by (simp add: open_named_def)
  qed
  then show "one_name F'" "named F' p = Some i" "q \<noteq> p \<Longrightarrow> named F' q = named F q"
    "q \<noteq> p \<Longrightarrow> contents_of F' q = contents_of F q" by simp_all
qed

lemma contents_write:
  assumes "one_name F" and "named F p = Some i" and "q \<noteq> p"
  shows "contents_of (write_open i c F) q = contents_of F q"
  using assms one_nameD(2) [OF assms(1,2), of q] by (cases "named F q") (auto simp: write_open_def contents_of_def)

lemma blobs_sound_same:
  assumes "blobs_sound E F" and "\<And>d. contents_of F' (blob_file (root E) d) = contents_of F (blob_file (root E) d)"
  shows "blobs_sound E F'"
  using assms by (simp add: blobs_sound_def)


lemma moved_sound:
  assumes "hash_ok E" and "one_name F" and "blobs_sound E F" and "contents_of F (session_file E t) = Some b"
  shows "one_name (rename_named (session_file E t) (blob_file (root E) (content_digest E b)) F)"
    and "blobs_sound E (rename_named (session_file E t) (blob_file (root E) (content_digest E b)) F)"
    and "session_file E t' \<noteq> session_file E t \<Longrightarrow>
      named (rename_named (session_file E t) (blob_file (root E) (content_digest E b)) F) (session_file E t') =
        named F (session_file E t') \<and>
      contents_of (rename_named (session_file E t) (blob_file (root E) (content_digest E b)) F) (session_file E t') =
        contents_of F (session_file E t')"
proof -
  let ?d = "content_digest E b" and ?p = "session_file E t"
  let ?q = "blob_file (root E) ?d"
  let ?F = "rename_named ?p ?q F"
  obtain i where i: "named F ?p = Some i" "content F i = b" using assms(4) by (auto simp: contents_of_def)
  have N: "named ?F = (named F)(?p := None, ?q \<mapsto> i)" "next_file ?F = next_file F" "content ?F = content F"
    by (simp_all add: rename_named_def i)
  show "one_name ?F"
    unfolding one_name_def N using one_nameD [OF assms(2)] i(1) by (auto split: if_splits)
  have "content_digest E c = e" if "hex_digest e" "contents_of ?F (blob_file (root E) e) = Some c" for e c
  proof (cases "e = ?d")
    case True
    then show ?thesis using that(2) i(2) by (simp add: contents_of_def N)
  next
    case False
    have "blob_file (root E) e \<noteq> ?q"
      using object_path_inj [OF that(1) content_digest_hex [OF assms(1)]] False by blast
    then have "contents_of F (blob_file (root E) e) = Some c"
      using that(2) session_file_not_blob [of E t e] by (auto simp: contents_of_def N split: if_splits)
    then show ?thesis using assms(3) that(1) by (simp add: blobs_sound_def)
  qed
  then show "blobs_sound E ?F" by (simp add: blobs_sound_def)
  show "session_file E t' \<noteq> ?p \<Longrightarrow> named ?F (session_file E t') = named F (session_file E t') \<and>
      contents_of ?F (session_file E t') = contents_of F (session_file E t')"
    using session_file_not_blob [of E t' ?d] by (simp add: contents_of_def N)
qed

lemma session_step_ok:
  assumes "hash_ok E" and "session_step E True X Y" and "sessions_ok E X"
  shows "sessions_ok E Y"
  using assms(2)
proof (cases rule: session_step.cases)
  case (started F u T)
  let ?p = "get_upload_path (root E) u"
  obtain i F' where F': "open_named ?p F = (i, F')" by (metis surj_pair)
  have inv: "one_name F" "blobs_sound E F" "\<And>k t. T k = Some t \<Longrightarrow> phase_ok E F t (phase t)"
    using assms(3) started(1) by (auto simp: sessions_ok_def)
  note O = contents_open [OF F' inv(1)]
  have "phase_ok E F' t (phase t)" if "T k = Some t" for k t
  proof (cases "session_file E t = ?p")
    case True
    then show ?thesis using inv(3) [OF that] started(3) by (cases "phase t") (auto simp: contents_of_def)
  next
    case False
    then show ?thesis using phase_ok_same [of F' E t F] O(3,4) inv(3) [OF that] by simp
  qed
  moreover have "blobs_sound E F'"
    by (rule blobs_sound_same [OF inv(2)]) (simp add: O(4) blob_not_session(1))
  ultimately show ?thesis using assms(3) O(1) started(1,2) F' by (simp add: sessions_ok_def)
next
  case (arrives T k t cs F)
  have inv: "one_name F" "blobs_sound E F" "\<And>j t'. T j = Some t' \<Longrightarrow> phase_ok E F t' (phase t')"
      "\<And>i j t' t''. T i = Some t' \<Longrightarrow> T j = Some t'' \<Longrightarrow> i \<noteq> j \<Longrightarrow> session_file E t' = session_file E t'' \<Longrightarrow>
        finished (phase t') \<or> finished (phase t'')"
    using assms(3) unfolding arrives(1) sessions_ok_def prod.case by blast+
  have other: "finished (phase t')" if "T j = Some t'" "session_file E t' = session_file E t" for j t'
    using arrives(5) that by blast
  have "phase_ok E F t' (phase t')" if "(T(k \<mapsto> t)) j = Some t'" for j t'
    using that inv(3) arrives(4) by (cases "j = k") auto
  moreover have "finished (phase t') \<or> finished (phase t'')"
    if "(T(k \<mapsto> t)) i = Some t'" "(T(k \<mapsto> t)) j = Some t''" "i \<noteq> j" "session_file E t' = session_file E t''" for i j t' t''
    using that inv(4) [of i t' j t''] other [of i t'] other [of j t''] by (cases "i = k"; cases "j = k") auto
  ultimately show ?thesis unfolding arrives(2) sessions_ok_def prod.case using inv(1,2) by blast
next
  case (found T k t cs F)
  have "one_name F" "blobs_sound E F" using assms(3) found(1) by (simp_all add: sessions_ok_def)
  then show ?thesis using sessions_ok_step [of E F T k t F "Opening cs"] assms(3) found by simp
next
  case (opened T k t cs F i F')
  have inv: "one_name F" "blobs_sound E F" using assms(3) opened(1) by (simp_all add: sessions_ok_def)
  note O = contents_open [OF opened(5) inv(1)]
  have "blobs_sound E F'" by (rule blobs_sound_same [OF inv(2)]) (simp add: O(4) blob_not_session(2))
  then show ?thesis using sessions_ok_step [of E F T k t F' "Appending i cs"] assms(3) opened O by simp
next
  case (written T k t i c cs F)
  note inv = sessions_okD [OF assms(3) [unfolded written(1)]]
  have n: "named F (session_file E t) = Some i" using inv(3) [OF written(3)] written(4) by simp
  note W = contents_write [OF inv(1) n, of _ c]
  have named: "named (write_open i c F) = named F" "next_file (write_open i c F) = next_file F"
    by (simp_all add: write_open_def)
  have "blobs_sound E (write_open i c F)"
    by (rule blobs_sound_same [OF inv(2)]) (simp add: W blob_not_session(2))
  moreover have "one_name (write_open i c F)" using inv(1) unfolding one_name_def named .
  ultimately show ?thesis
    using sessions_ok_step [of E F T k t "write_open i c F" "Appending i cs"] assms(3) written n W named by simp
next
  case (synced T k t i F)
  have "one_name F" "blobs_sound E F" using assms(3) synced(1) by (simp_all add: sessions_ok_def)
  then show ?thesis
    using sessions_ok_step [of E F T k t F "case goal t of Commit_As d \<Rightarrow> Hashing | _ \<Rightarrow> Finished True"] assms(3) synced
    by (simp split: upload_goal.split)
next
  case (hashed T k t d F b)
  have "one_name F" "blobs_sound E F" using assms(3) hashed(1) by (simp_all add: sessions_ok_def)
  then show ?thesis using sessions_ok_step [of E F T k t F Moving] assms(3) hashed by simp
next
  case (moved T k t d F)
  note inv = sessions_okD [OF assms(3) [unfolded moved(1)]]
  obtain b where b: "contents_of F (session_file E t) = Some b" "content_digest E b = d"
    using inv(3) [OF moved(3)] moved(4,5) by auto
  note M = moved_sound [OF assms(1) inv(1,2) b(1), unfolded b(2)]
  show ?thesis
    using sessions_ok_step [of E F T k t _ "Finished True", OF _ _ _ M(1,2)] M(3) assms(3) moved by simp
next
  case (removed T k t cs F)
  let ?F = "unlink (session_file E t) F"
  have inv: "one_name F" "blobs_sound E F" using assms(3) removed(1) by (simp_all add: sessions_ok_def)
  have "blobs_sound E ?F"
    by (rule blobs_sound_same [OF inv(2)]) (simp add: contents_of_def unlink_def blob_not_session(2))
  moreover have "one_name ?F" using inv(1) by (auto simp: unlink_def one_name_def)
  ultimately show ?thesis
    using sessions_ok_step [of E F T k t ?F "Finished True"] assms(3) removed by (simp add: unlink_def contents_of_def)
next
  case (stopped T k t F)
  have "one_name F" "blobs_sound E F" using assms(3) stopped(1) by (simp_all add: sessions_ok_def)
  then show ?thesis using sessions_ok_step [of E F T k t F "Finished False"] assms(3) stopped by simp
qed


definition no_sessions :: sessions where
  "no_sessions = (\<lparr>named = Map.empty, content = (\<lambda>_. []), next_file = 0\<rparr>, Map.empty)"

lemma no_sessions_ok: "sessions_ok E no_sessions"
  by (simp add: no_sessions_def sessions_ok_def one_name_def blobs_sound_def contents_of_def)

text \<open>
  C10. Uploads are safe at the grain of their file operations, for clients that take turns. Whatever the file
  operations of any number of patches, puts and deletes on any uploads interleave to, and whichever of them fail or
  are cancelled: if no client sends a request on an upload before the last one on it was answered, every
  blob file holds exactly the content of its digest, always.
\<close>

theorem turns_keep_blobs:
  assumes "hash_ok E" and "(session_step E True)\<^sup>*\<^sup>* no_sessions (F, T)" and "hex_digest d"
    and "contents_of F (blob_file (root E) d) = Some b"
  shows "content_digest E b = d"
proof -
  have "sessions_ok E (F, T)"
    using assms(2) by (induction rule: rtranclp_induct) (auto intro: no_sessions_ok session_step_ok [OF assms(1)])
  then show ?thesis using sessions_okD(2) assms(3,4) by (simp add: blobs_sound_def)
qed


section \<open>The handlers run alone\<close>

text \<open>One request, advanced by one step, when nothing fails.\<close>

definition advance :: "env \<Rightarrow> nat \<Rightarrow> sessions \<Rightarrow> sessions" where
  "advance E k X = (case X of (F, T) \<Rightarrow>
     (case T k of
        None \<Rightarrow> X
      | Some t \<Rightarrow>
          (let p = session_file E t; to = (\<lambda>F x. (F, T(k \<mapsto> t\<lparr>phase := x\<rparr>)))
           in case phase t of
                Arrived cs \<Rightarrow>
                  if named F p = None then to F (Finished False)
                  else if goal t = Remove then to (unlink p F) (Finished True)
                  else to F (Opening cs)
              | Opening cs \<Rightarrow> (case open_named p F of (i, F') \<Rightarrow> to F' (Appending i cs))
              | Appending i cs \<Rightarrow>
                  (case cs of
                     c # cs \<Rightarrow> to (write_open i c F) (Appending i cs)
                   | [] \<Rightarrow> to F (case goal t of Commit_As d \<Rightarrow> Hashing | _ \<Rightarrow> Finished True))
              | Hashing \<Rightarrow>
                  (case (goal t, contents_of F p) of
                     (Commit_As d, Some b) \<Rightarrow> if content_digest E b = d then to F Moving else to F (Finished False)
                   | _ \<Rightarrow> to F (Finished False))
              | Moving \<Rightarrow>
                  (case goal t of
                     Commit_As d \<Rightarrow>
                       if named F p \<noteq> None then to (rename_named p (blob_file (root E) d) F) (Finished True)
                       else to F (Finished False)
                   | _ \<Rightarrow> to F (Finished False))
              | Finished ok \<Rightarrow> X)))"

lemma advance_step: "(session_step E alone)\<^sup>*\<^sup>* X (advance E k X)"
proof -
  obtain F T where X: "X = (F, T)" by (metis surj_pair)
  have "advance E k X = X \<or> session_step E alone X (advance E k X)"
  proof (cases "T k")
    case (Some t)
    note r = session_step.found [of T k t] session_step.opened [of T k t] session_step.written [of T k t]
      session_step.synced [of T k t] session_step.hashed [of T k t] session_step.moved [of T k t]
      session_step.removed [of T k t] session_step.stopped [of T k t]
    show ?thesis
    proof (cases "phase t")
      case (Arrived cs)
      then show ?thesis using Some r(1,7,8) by (simp add: X advance_def Let_def)
    next
      case (Opening cs)
      then show ?thesis using Some r(2) by (simp add: X advance_def Let_def split: prod.split)
    next
      case (Appending i cs)
      then show ?thesis using Some r(3,4) by (cases cs) (simp_all add: X advance_def Let_def)
    next
      case Hashing
      then show ?thesis using Some r(5,8) by (auto simp: X advance_def Let_def split: upload_goal.split option.split)
    next
      case Moving
      then show ?thesis using Some r(6,8) by (auto simp: X advance_def Let_def split: upload_goal.split)
    next
      case (Finished ok)
      then show ?thesis using Some by (simp add: X advance_def Let_def)
    qed
  qed (simp add: advance_def X)
  then show ?thesis by auto
qed

definition advance_all :: "env \<Rightarrow> nat list \<Rightarrow> sessions \<Rightarrow> sessions" where
  "advance_all E ks X = fold (advance E) ks X"

lemma advance_all_steps: "(session_step E alone)\<^sup>*\<^sup>* X (advance_all E ks X)"
proof (induction ks arbitrary: X)
  case (Cons k ks)
  then show ?case using advance_step [of E alone X k] by (simp add: advance_all_def) (meson rtranclp_trans)
qed (simp add: advance_all_def)


lemma written_all:
  assumes "T k = Some (t\<lparr>phase := Appending i cs\<rparr>)"
  shows "\<exists>F'. (session_step E alone)\<^sup>*\<^sup>* (F, T) (F', T(k \<mapsto> t\<lparr>phase := Appending i []\<rparr>)) \<and>
    named F' = named F \<and> content F' = (content F)(i := content F i @ concat cs)"
  using assms
proof (induction cs arbitrary: F T)
  case Nil
  then have "T(k \<mapsto> t\<lparr>phase := Appending i []\<rparr>) = T" by auto
  then show ?case by (intro exI [of _ F]) simp
next
  case (Cons c cs)
  let ?T = "T(k \<mapsto> t\<lparr>phase := Appending i cs\<rparr>)" and ?F = "write_open i c F"
  have "session_step E alone (F, T) (?F, ?T)"
    using session_step.written [of T k "t\<lparr>phase := Appending i (c # cs)\<rparr>" i c cs] Cons.prems by simp
  moreover have "\<exists>F'. (session_step E alone)\<^sup>*\<^sup>* (?F, ?T) (F', T(k \<mapsto> t\<lparr>phase := Appending i []\<rparr>)) \<and>
      named F' = named ?F \<and> content F' = (content ?F)(i := content ?F i @ concat cs)"
    using Cons.IH [of ?T ?F, OF fun_upd_same] unfolding fun_upd_upd .
  then obtain F' where F': "(session_step E alone)\<^sup>*\<^sup>* (?F, ?T) (F', T(k \<mapsto> t\<lparr>phase := Appending i []\<rparr>))"
      "named F' = named ?F" "content F' = (content ?F)(i := content ?F i @ concat cs)"
    by blast
  ultimately have "(session_step E alone)\<^sup>*\<^sup>* (F, T) (F', T(k \<mapsto> t\<lparr>phase := Appending i []\<rparr>))"
    by (metis converse_rtranclp_into_rtranclp)
  moreover have "named F' = named F" "content F' = (content F)(i := content F i @ concat (c # cs))"
    using F'(2,3) by (simp_all add: write_open_def)
  ultimately show ?case by blast
qed

lemma put_alone:
  assumes "T k = Some t" and "phase t = Arrived cs" and "goal t = Commit_As d" and "one_name F"
    and "contents_of F (session_file E t) = Some old" and "content_digest E (old @ concat cs) = d"
  shows "\<exists>F'. (session_step E alone)\<^sup>*\<^sup>* (F, T) (F', T(k \<mapsto> t\<lparr>phase := Finished True\<rparr>)) \<and>
    contents_of F' = (contents_of F)(session_file E t := None, blob_file (root E) d \<mapsto> old @ concat cs)"
proof -
  let ?p = "session_file E t" and ?q = "blob_file (root E) d" and ?b = "old @ concat cs"
  let ?T = "\<lambda>x. T(k \<mapsto> t\<lparr>phase := x\<rparr>)"
  obtain i where i: "named F ?p = Some i" "content F i = old" using assms(5) by (auto simp: contents_of_def)
  have s1: "session_step E alone (F, T) (F, ?T (Opening cs))"
    using session_step.found [of T k t cs F E alone] assms(1-3) i(1) by simp
  have s2: "session_step E alone (F, ?T (Opening cs)) (F, ?T (Appending i cs))"
    using session_step.opened [of "?T (Opening cs)" k "t\<lparr>phase := Opening cs\<rparr>" cs E F i F alone] i(1)
    by (simp add: open_named_def)
  obtain G where G: "(session_step E alone)\<^sup>*\<^sup>* (F, ?T (Appending i cs)) (G, ?T (Appending i []))"
      "named G = named F" "content G = (content F)(i := ?b)"
    using written_all [where T = "?T (Appending i cs)" and k = k and t = t and i = i and cs = cs and F = F and E = E and alone = alone] i(2)
    by auto
  have c: "contents_of G ?p = Some ?b" using G i(1) by (simp add: contents_of_def)
  have s3: "session_step E alone (G, ?T (Appending i [])) (G, ?T Hashing)"
    using session_step.synced [of "?T (Appending i [])" k "t\<lparr>phase := Appending i []\<rparr>" i E alone G] assms(3) by simp
  have s4: "session_step E alone (G, ?T Hashing) (G, ?T Moving)"
    using session_step.hashed [of "?T Hashing" k "t\<lparr>phase := Hashing\<rparr>" d G E ?b alone] assms(3,6) c by simp
  let ?G = "rename_named ?p ?q G"
  have s5: "session_step E alone (G, ?T Moving) (?G, ?T (Finished True))"
    using session_step.moved [of "?T Moving" k "t\<lparr>phase := Moving\<rparr>" d G E alone] assms(3) i(1) G(2) by simp
  have "contents_of ?G = (contents_of F)(?p := None, ?q \<mapsto> ?b)"
  proof
    fix x
    show "contents_of ?G x = ((contents_of F)(?p := None, ?q \<mapsto> ?b)) x"
      using i(1) one_nameD(2) [OF assms(4) i(1), of x]
      by (cases "named F x") (auto simp: contents_of_def rename_named_def G(2,3))
  qed
  moreover have "(session_step E alone)\<^sup>*\<^sup>* (F, T) (?G, ?T (Finished True))"
    using s1 s2 G(1) s3 s4 s5 by (meson converse_rtranclp_into_rtranclp rtranclp.rtrancl_into_rtrancl)
  ultimately show ?thesis by blast
qed


lemma upload_put_files:
  assumes "hash_ok E" and "upload_put E tok r u d chunks n = (n', Some (Inr h))"
  obtains old where "files (node_fs n) (get_upload_path (root E) u) = Some old" and "None \<notin> set chunks"
    and "content_digest E (old @ concat (map the chunks)) = d"
    and "files (node_fs n') = (files (node_fs n))
      (get_upload_path (root E) u := None, blob_file (root E) d \<mapsto> old @ concat (map the chunks))"
proof -
  let ?p = "get_upload_path (root E) u"
  have "is_file ?p (node_fs n)" and run: "with_upload E ?p chunks UploadInvalid (commit_upload E tok r ?p d) n = (n', Some (Inr h))"
    using assms(2) by (auto simp: upload_put_def Let_def unauthorized_def split: if_splits option.splits)
  then obtain old where old: "files (node_fs n) ?p = Some old" by (auto simp: is_file_def)
  from run obtain f where f: "upload_part (env_io E) ?p chunks (node_fs n) = (f, Some True)"
    and commit: "commit_upload E tok r ?p d (n\<lparr>node_fs := f\<rparr>) = (n', Some (Inr h))"
    by (cases rule: with_upload_cases) auto
  note F = upload_part_facts [OF f]
  have "files f = (files (node_fs n))(?p \<mapsto> old @ concat (map the chunks))"
    using F(2,4) old by (auto simp: fun_eq_iff)
  then show thesis
    using that [OF old] F(3) commit_upload_facts [OF assms(1) commit] by auto
qed

text \<open>
  C20. The handler of a put is one of the runs of its file operations. If \<open>upload_put\<close> as a whole succeeds on a file
  system, then the steps of the same request, taken without a break, succeed from any file system with the same
  names and contents, and leave the same names and contents.
\<close>

theorem put_is_a_run:
  assumes "hash_ok E" and "upload_put E tok r u d chunks n = (n', Some (Inr h))"
    and "contents_of F = files (node_fs n)" and "one_name F"
    and "T k = Some \<lparr>session = u, goal = Commit_As d, phase = Arrived (map the chunks)\<rparr>"
  shows "\<exists>F'. (session_step E alone)\<^sup>*\<^sup>* (F, T)
      (F', T(k \<mapsto> \<lparr>session = u, goal = Commit_As d, phase = Finished True\<rparr>)) \<and>
    contents_of F' = files (node_fs n')"
  using assms(1,2)
proof (rule upload_put_files)
  fix old
  let ?t = "\<lparr>session = u, goal = Commit_As d, phase = Arrived (map the chunks)\<rparr>"
  assume old: "files (node_fs n) (get_upload_path (root E) u) = Some old"
    "content_digest E (old @ concat (map the chunks)) = d"
    "files (node_fs n') = (files (node_fs n))
      (get_upload_path (root E) u := None, blob_file (root E) d \<mapsto> old @ concat (map the chunks))"
  have p: "session_file E ?t = get_upload_path (root E) u" by (simp add: session_file_def)
  show ?thesis
    using put_alone [of T k ?t "map the chunks" d F E old alone] assms(3-5) old unfolding p by simp
qed

definition session_start :: handle_fs where
  "session_start = \<lparr>named = [[''var'', ''uploads'', ''blob-u''] \<mapsto> 0], content = (\<lambda>_. ''ab''), next_file = 1\<rparr>"

theorem put_is_a_run_witness:
  "\<exists>F' n' h. (session_step sample_env False)\<^sup>*\<^sup>*
      (session_start, [0 \<mapsto> \<lparr>session = ''u'', goal = Commit_As a64, phase = Arrived [''c'']\<rparr>])
      (F', [0 \<mapsto> \<lparr>session = ''u'', goal = Commit_As a64, phase = Finished True\<rparr>]) \<and>
    upload_put sample_env admin_token (RepositoryName ''r'') ''u'' a64 [Some ''c''] uploading_node = (n', Some (Inr h)) \<and>
    contents_of F' = files (node_fs n')"
proof -
  obtain n' h where run: "upload_put sample_env admin_token (RepositoryName ''r'') ''u'' a64 [Some ''c'']
      uploading_node = (n', Some (Inr h))" using upload_put_sample by blast
  have c: "contents_of session_start = files (node_fs uploading_node)"
    by (auto simp: contents_of_def session_start_def uploading_node_def)
  have o: "one_name session_start" by (simp add: one_name_def session_start_def)
  let ?T = "[0 :: nat \<mapsto> \<lparr>session = ''u'', goal = Commit_As a64, phase = Arrived [''c'']\<rparr>]"
  from put_is_a_run [OF sample_env_hash run c o, of ?T 0 False] run show ?thesis by auto
qed

section \<open>A request that does not wait\<close>

text \<open>An environment in which \<open>abc\<close> has a digest of its own.\<close>

definition torn_env :: env where
  "torn_env = sample_env\<lparr>hexlower := (\<lambda>b. replicate 64 (if b = ''abc'' then CHR ''a'' else CHR ''b''))\<rparr>"

definition torn_start :: sessions where
  "torn_start = (snd (open_named [''var'', ''uploads'', ''blob-u''] (fst no_sessions)),
     [1 \<mapsto> \<lparr>session = ''u'', goal = Append_Only, phase = Arrived [''x'']\<rparr>,
      2 \<mapsto> \<lparr>session = ''u'', goal = Commit_As a64, phase = Arrived [''abc'']\<rparr>])"

definition torn_end :: sessions where
  "torn_end = advance_all torn_env [1, 1, 2, 2, 2, 2, 2, 2, 1, 1] torn_start"

lemma torn_end_eval:
  "snd torn_end 2 = Some \<lparr>session = ''u'', goal = Commit_As a64, phase = Finished True\<rparr>"
  "contents_of (fst torn_end) (blob_file [''var''] a64) = Some ''abcx''"
  by code_simp+


lemma torn_env_sel [simp]: "root torn_env = [''var'']"
  by (simp add: torn_env_def)

lemma torn_env_hash: "hash_ok torn_env"
  by (simp add: hash_ok_def torn_env_def sample_env_def hex_char_def list_all_iff)

lemma torn_content: "content_digest torn_env ''abc'' = a64" "content_digest torn_env ''abcx'' \<noteq> a64"
  by (simp_all add: content_digest_def torn_env_def sample_env_def from_sha256_def a64_def)

lemma session_opened:
  "session_step torn_env alone no_sessions (snd (open_named [''var'', ''uploads'', ''blob-u''] (fst no_sessions)), Map.empty)"
  using session_step.started [of "fst no_sessions" torn_env "''u''" alone Map.empty]
  by (simp add: sample_upload_path no_sessions_def)

text \<open>
  C11. A blob can be torn. A client that sends a put of an upload while a patch of the same upload is still
  running can end with a blob file, reported and stored under the digest the put names, whose content has
  another digest: the patch goes on writing to the file after the put has hashed it and given it its name.
\<close>

theorem torn_upload:
  "\<exists>F T b. (session_step torn_env False)\<^sup>*\<^sup>* no_sessions (F, T) \<and>
     T 2 = Some \<lparr>session = ''u'', goal = Commit_As a64, phase = Finished True\<rparr> \<and>
     contents_of F (blob_file (root torn_env) a64) = Some b \<and> content_digest torn_env b \<noteq> a64"
proof -
  let ?F = "snd (open_named [''var'', ''uploads'', ''blob-u''] (fst no_sessions))"
  let ?t = "\<lparr>session = ''u'', goal = Append_Only, phase = Arrived [''x'']\<rparr>"
  let ?T = "[1 :: nat \<mapsto> ?t]"
  have "session_step torn_env False (?F, Map.empty) (?F, ?T)"
    using session_step.arrives [of Map.empty 1 ?t "[''x'']" False torn_env ?F] by simp
  moreover have "session_step torn_env False (?F, ?T) torn_start"
    using session_step.arrives [of ?T 2 "\<lparr>session = ''u'', goal = Commit_As a64, phase = Arrived [''abc'']\<rparr>" "[''abc'']"
        False torn_env ?F] by (simp add: torn_start_def)
  ultimately have "(session_step torn_env False)\<^sup>*\<^sup>* no_sessions torn_start"
    using session_opened [of False] by (meson converse_rtranclp_into_rtranclp r_into_rtranclp)
  then have "(session_step torn_env False)\<^sup>*\<^sup>* no_sessions torn_end"
    using advance_all_steps [of torn_env False torn_start] by (metis rtranclp_trans torn_end_def)
  then show ?thesis using torn_end_eval torn_content(2)
    by (intro exI [of _ "fst torn_end"] exI [of _ "snd torn_end"] exI [of _ "''abcx''"]) simp
qed

theorem turns_keep_blobs_witness:
  "\<exists>F T b. (session_step torn_env True)\<^sup>*\<^sup>* no_sessions (F, T) \<and>
     contents_of F (blob_file (root torn_env) a64) = Some b \<and> content_digest torn_env b = a64"
proof -
  let ?F = "snd (open_named [''var'', ''uploads'', ''blob-u''] (fst no_sessions))"
  let ?t = "\<lparr>session = ''u'', goal = Commit_As a64, phase = Arrived [''abc'']\<rparr>"
  let ?T = "[0 :: nat \<mapsto> ?t]"
  have F: "?F = \<lparr>named = [[''var'', ''uploads'', ''blob-u''] \<mapsto> 0], content = (\<lambda>_. [])(0 := []), next_file = 1\<rparr>"
    by (simp add: open_named_def no_sessions_def)
  have "session_step torn_env True (?F, Map.empty) (?F, ?T)"
    using session_step.arrives [of Map.empty 0 ?t "[''abc'']" True torn_env ?F] by simp
  moreover have "one_name ?F" by (simp add: F one_name_def)
  then obtain F' where "(session_step torn_env True)\<^sup>*\<^sup>* (?F, ?T) (F', ?T(0 \<mapsto> ?t\<lparr>phase := Finished True\<rparr>))"
      "contents_of F' = (contents_of ?F)(session_file torn_env ?t := None, blob_file (root torn_env) a64 \<mapsto> [] @ concat [''abc''])"
    using put_alone [of ?T 0 ?t "[''abc'']" a64 ?F torn_env "[]" True] torn_content(1)
    by (auto simp: F contents_of_def session_file_def sample_upload_path)
  ultimately have steps: "(session_step torn_env True)\<^sup>*\<^sup>* no_sessions (F', ?T(0 \<mapsto> ?t\<lparr>phase := Finished True\<rparr>))"
      and c: "contents_of F' (blob_file (root torn_env) a64) = Some ''abc''"
    using session_opened [of True] by (auto intro: converse_rtranclp_into_rtranclp)
  from turns_keep_blobs [OF torn_env_hash steps a64_hex c] steps c show ?thesis by blast
qed

end
