(* ===== verification/Replies.thy ===== *)
theory Replies
  imports Router
begin

text \<open>
  The typing of replies: for every request, the errors its handler may answer with, the response each error
  is sent as, and the shape of its success (status, headers and kind of body). A handler that answers at all
  answers with a reply of the type of its request.
\<close>

section \<open>The type of a reply\<close>

fun request_errors :: "request \<Rightarrow> registry_error set" where
  "request_errors (Delete_Upload r i) = {UploadInvalid}"
| "request_errors (Get_Upload r i) = {UploadNotFound, UploadInvalid}"
| "request_errors (Patch_Upload r i cr) = insert UploadInvalid (range (RangeNotSatisfiable r i))"
| "request_errors (Post_Upload r m s d) = {UploadInvalid, DigestInvalid}"
| "request_errors (Put_Upload r i d) = {UploadInvalid, DigestInvalid}"
| "request_errors (Head_Blob r d) = {BlobNotFound}"
| "request_errors (Get_Blob r d) = {BlobNotFound}"
| "request_errors (Delete_Blob r d) = {BlobNotFound}"
| "request_errors (Put_Manifest r t ct) = {ManifestInvalid}"
| "request_errors (Head_Manifest r d) = {ManifestNotFound}"
| "request_errors (Head_Manifest_Tag r t) = {ManifestNotFound}"
| "request_errors (Get_Manifest r d) = {ManifestNotFound}"
| "request_errors (Get_Manifest_Tag r t) = {ManifestNotFound}"
| "request_errors (Delete_Manifest r d) = {ManifestNotFound, ManifestInvalid}"
| "request_errors (Delete_Manifest_Tag r t) = {ManifestNotFound, ManifestInvalid}"
| "request_errors (List_Tags r l k) = {RepositoryNotFound}"
| "request_errors Get_Version = {}"
| "request_errors Head_Version = {}"

text \<open>Besides these, a handler may ask for a token, or refuse the one it got where it needs a permission.\<close>

definition may_fail :: "request \<Rightarrow> registry_error set" where
  "may_fail req = request_errors req \<union> range MustAuthenticate \<union> (if request_access req = None then {} else {AccessDenied})"

text \<open>
  The response an error is sent as, by the table of statuses and codes of the registry protocol: a body in
  its JSON format, with some message, or the headers of a failed range.
\<close>

definition oci_error :: "string \<Rightarrow> http_response \<Rightarrow> bool" where
  "oci_error code h \<longleftrightarrow> (\<exists>m. body h =
     Json_Body (JObj [(''errors'', JArr [JObj [(''code'', JStr code), (''message'', JStr m)]])]))"

fun error_reply :: "registry_error \<Rightarrow> http_response \<Rightarrow> bool" where
  "error_reply (MustAuthenticate c) h =
     (status h = 401 \<and> oci_error ''UNAUTHORIZED'' h \<and> header ''Www-Authenticate'' h = Some c)"
| "error_reply AccessDenied h = (status h = 403 \<and> oci_error ''DENIED'' h)"
| "error_reply RepositoryNotFound h = (status h = 404 \<and> oci_error ''NAME_UNKNOWN'' h)"
| "error_reply ManifestNotFound h = (status h = 404 \<and> oci_error ''MANIFEST_NOT_FOUND'' h)"
| "error_reply ManifestInvalid h = (status h = 400 \<and> oci_error ''MANIFEST_INVALID'' h)"
| "error_reply DigestInvalid h = (status h = 400 \<and> oci_error ''DIGEST_INVALID'' h)"
| "error_reply BlobNotFound h = (status h = 404 \<and> oci_error ''BLOB_NOT_FOUND'' h)"
| "error_reply UploadNotFound h = (status h = 404 \<and> oci_error ''BLOB_UPLOAD_UNKNOWN'' h)"
| "error_reply UploadInvalid h = (status h = 400 \<and> oci_error ''BLOB_UPLOAD_INVALID'' h)"
| "error_reply (RangeNotSatisfiable r i k) h =
     (status h = 416 \<and> body h = Empty_Body \<and> header ''Docker-Upload-UUID'' h = Some i \<and>
      header ''Location'' h = Some (''/v2/'' @ repository_name_to_string r @ ''/blobs/uploads/'' @ i) \<and>
      header ''Range'' h = Some (''0-'' @ show_u64 (if k = 0 then 0 else k - 1)))"

lemma error_response_reply: "error_reply e (error_response e)"
proof (cases e)
  case (RangeNotSatisfiable r i k)
  then show ?thesis by (simp add: respond_def header_def Let_def word_gt_0)
qed (simp_all add: respond_def header_def oci_error_def simple_oci_error_def)

text \<open>A file sent as the object of a digest, and an upload that has started or goes on.\<close>

definition object_reply :: "digest \<Rightarrow> http_response \<Rightarrow> bool" where
  "object_reply d h \<longleftrightarrow> (\<exists>ct p. h = respond 200
     [(''content-type'', ct), (''Docker-Content-Digest'', digest_to_string d)] (File_Body p))"

definition started_reply :: "repository_name \<Rightarrow> http_response \<Rightarrow> bool" where
  "started_reply r h \<longleftrightarrow> (\<exists>u. status h = 202 \<and> body h = Empty_Body \<and> header ''Docker-Upload-UUID'' h = Some u \<and>
     header ''Location'' h = Some (''/v2/'' @ repository_name_to_string r @ ''/blobs/uploads/'' @ u))"

fun success_reply :: "request \<Rightarrow> http_response \<Rightarrow> bool" where
  "success_reply (Delete_Upload r i) h = (h = respond 204 [] Empty_Body)"
| "success_reply (Get_Upload r i) h = (\<exists>e. h = respond 204 (upload_headers r i e) Empty_Body)"
| "success_reply (Patch_Upload r i cr) h = (\<exists>e. h = respond 202 (upload_headers r i e) Empty_Body)"
| "success_reply (Post_Upload r m s d) h = ((\<exists>x. x \<in> {m, d} \<and> x \<noteq> None \<and> h = blob_created r (the x)) \<or> started_reply r h)"
| "success_reply (Put_Upload r i d) h = (h = blob_created r d)"
| "success_reply (Head_Blob r d) h = object_reply d h"
| "success_reply (Get_Blob r d) h = object_reply d h"
| "success_reply (Delete_Blob r d) h = (h = respond 202 [] Empty_Body)"
| "success_reply (Put_Manifest r t ct) h = (\<exists>d. h = manifest_created r d)"
| "success_reply (Head_Manifest r d) h = object_reply d h"
| "success_reply (Head_Manifest_Tag r t) h = (\<exists>d. object_reply d h)"
| "success_reply (Get_Manifest r d) h = object_reply d h"
| "success_reply (Get_Manifest_Tag r t) h = (\<exists>d. object_reply d h)"
| "success_reply (Delete_Manifest r d) h = (h = respond 202 [] Empty_Body)"
| "success_reply (Delete_Manifest_Tag r t) h = (h = respond 202 [] Empty_Body)"
| "success_reply (List_Tags r l k) h = (\<exists>ls ts. h = respond 200 ls
     (Json_Body (JObj [(''name'', JStr (repository_name_to_string r)), (''tags'', JArr (map JStr ts))])))"
| "success_reply Get_Version h = (h = respond 200 [(''Docker-Distribution-Api-Version'', ''registry/2.0'')] Empty_Body)"
| "success_reply Head_Version h = (h = respond 200 [(''Docker-Distribution-Api-Version'', ''registry/2.0'')] Empty_Body)"

text \<open>A reply and the response that is sent for it.\<close>

definition reply_type :: "request \<Rightarrow> reply \<Rightarrow> http_response \<Rightarrow> bool" where
  "reply_type req rep h \<longleftrightarrow>
     (case rep of
        Inl e \<Rightarrow> e \<in> may_fail req \<and> error_reply e h
      | Inr _ \<Rightarrow> success_reply req h)"

section \<open>The parts of the handlers\<close>

text \<open>A reply, if there is one, has the type.\<close>

definition typed :: "request \<Rightarrow> reply option \<Rightarrow> bool" where
  "typed req rep \<longleftrightarrow> (case rep of None \<Rightarrow> True | Some x \<Rightarrow> reply_type req x (rendered x))"

lemma typed_simps [simp]:
  "typed req None"
  "typed req (Some (Inr h)) \<longleftrightarrow> success_reply req h"
  "e \<in> request_errors req \<Longrightarrow> typed req (Some (Inl e))"
  "request_access req \<noteq> None \<Longrightarrow> typed req (Some (Inl AccessDenied))"
  by (auto simp: typed_def reply_type_def rendered_def may_fail_def error_response_reply
      simp del: error_response.simps error_reply.simps)

lemma typed_unauthorized [simp]: "typed req (unauthorized c)"
  by (cases c) (auto simp: typed_def reply_type_def unauthorized_def rendered_def may_fail_def
      error_response_reply simp del: error_response.simps error_reply.simps)

lemma typed_with_upload:
  assumes "err \<in> request_errors req" and "\<And>m. typed req (snd (k m))"
  shows "typed req (snd (with_upload E p cs err k n))"
  using assms by (auto simp: with_upload_def split: prod.split option.split bool.split)

lemma typed_write:
  assumes "e \<in> request_errors req" and "success_reply req h"
  shows "typed req (snd (case write_node E as n of
    (n, None) \<Rightarrow> (n, None) | (n, Some False) \<Rightarrow> (n, Some (Inl e)) | (n, Some True) \<Rightarrow> (n, Some (Inr h))))"
  using assms by (auto split: prod.split option.split bool.split)

lemma typed_commit:
  assumes "{UploadInvalid, DigestInvalid} \<subseteq> request_errors req" and "success_reply req (blob_created r d)"
  shows "typed req (snd (commit_upload E tok r p d n))"
  using assms by (auto simp: commit_upload_def Let_def split: prod.split option.split bool.split)

lemma typed_start:
  assumes "{UploadInvalid, DigestInvalid} \<subseteq> request_errors req"
    and "\<And>x. d = Some x \<Longrightarrow> success_reply req (blob_created r x)" and "\<And>h. started_reply r h \<Longrightarrow> success_reply req h"
  shows "typed req (snd (start_upload E tok r d cs n))"
proof (cases d)
  case None
  then show ?thesis using assms(1,3)
    by (auto simp: start_upload_def Let_def started_reply_def respond_def header_def split: option.split)
next
  case (Some x)
  then show ?thesis using assms(1,2) typed_commit [OF assms(1)]
    by (auto simp: start_upload_def Let_def intro: typed_with_upload)
qed

lemma typed_send:
  "BlobNotFound \<in> request_errors req \<Longrightarrow> (\<And>h. object_reply d h \<Longrightarrow> success_reply req h) \<Longrightarrow>
   typed req (snd (send_blob E d row n))"
  "ManifestNotFound \<in> request_errors req \<Longrightarrow> (\<And>h. object_reply d h \<Longrightarrow> success_reply req h) \<Longrightarrow>
   typed req (snd (send_manifest E d row n))"
  by (auto simp: send_blob_def send_manifest_def object_reply_def Let_def split: option.split)

lemma typed_read_manifest:
  "ManifestNotFound \<in> request_errors req \<Longrightarrow> (\<And>h. object_reply d h \<Longrightarrow> success_reply req h) \<Longrightarrow>
   typed req (snd (read_manifest E r d w res n))"
  by (auto simp: read_manifest_def typed_send split: option.split)

lemma typed_manifest_put:
  "req = Put_Manifest r t ct \<Longrightarrow> typed req (snd (analyse_manifest C E tok r t ct' p n))"
  by (auto simp: analyse_manifest_def commit_manifest_def split: prod.split option.split bool.split sum.split)

lemma typed_unmount:
  "{ManifestNotFound, ManifestInvalid} \<subseteq> request_errors req \<Longrightarrow> success_reply req (respond 202 [] Empty_Body) \<Longrightarrow>
   typed req (snd (unmount_manifest E tok r d n))"
  using typed_write by (auto simp: unmount_manifest_def split: option.split)

section \<open>The handlers\<close>

lemma typed_post: "typed (Post_Upload r m s d) (snd (upload_post E tok r m s d cs n))"
proof -
  have start: "typed (Post_Upload r m s d) (snd (start_upload E tok r d cs n))"
    by (rule typed_start) auto
  have "typed (Post_Upload r m s d) (snd (mount_blob E tok r x n))" if "m = Some x" for x
    unfolding mount_blob_def using that by (intro typed_write) auto
  with start show ?thesis by (auto simp: upload_post_def split: option.split)
qed

lemma typed_patch: "typed (Patch_Upload r i cr) (snd (upload_patch E tok r i cr cs n))"
proof -
  have "typed (Patch_Upload r i cr) (snd (patch_body E r i cs n))"
    unfolding patch_body_def Let_def by (intro typed_with_upload) (auto split: option.split)
  then show ?thesis by (auto simp: upload_patch_def Let_def split: option.split)
qed

lemma typed_reads:
  "typed (Get_Blob r d) (snd (blob_get E tok r d w res n))"
  "typed (Get_Manifest r d) (snd (manifest_get E tok r d w res n))"
  "typed (Get_Manifest_Tag r t) (snd (manifest_get_by_tag E tok r t w res n))"
  by (auto simp: blob_get_def manifest_get_def manifest_get_by_tag_def typed_send intro!: typed_read_manifest
      split: option.split)

lemma typed_heads:
  "typed (Head_Blob r d) rep \<longleftrightarrow> typed (Get_Blob r d) rep"
  "typed (Head_Manifest r d) rep \<longleftrightarrow> typed (Get_Manifest r d) rep"
  "typed (Head_Manifest_Tag r t) rep \<longleftrightarrow> typed (Get_Manifest_Tag r t) rep"
  by (auto simp: typed_def reply_type_def may_fail_def split: option.splits sum.splits)

lemma typed_tags: "typed (List_Tags r l k) (tags_list_get it ser st tok r l k)"
proof -
  have "typed (List_Tags r l k) (map_option (\<lambda>c. Inl (MustAuthenticate c)) x)" for x
    using typed_unauthorized [of "List_Tags r l k" x] by (simp add: unauthorized_def)
  then show ?thesis by (cases "tags_page (the (get_tags ser r st)) l k")
      (auto simp: tags_list_get_def respond_def split: option.split prod.split)
qed

lemma typed_handle: "typed req (snd (handle C ser E tok cs w res req n))"
proof (cases req)
  case (Put_Upload r i d)
  have "typed req (snd (commit_upload E tok r p d m))" for p m using Put_Upload by (intro typed_commit) auto
  with Put_Upload show ?thesis by (auto simp: upload_put_def Let_def intro: typed_with_upload)
next
  case (Put_Manifest r t ct)
  then show ?thesis using typed_manifest_put
    by (auto simp: manifest_put_def Let_def intro: typed_with_upload)
next
  case (Delete_Blob r d)
  then show ?thesis using typed_write [of BlobNotFound req "respond 202 [] Empty_Body"]
    by (auto simp: blob_delete_def split: option.split)
next
  case (Delete_Manifest r d)
  then show ?thesis using typed_unmount [of req] by (auto simp: manifest_delete_def)
next
  case (Delete_Manifest_Tag r t)
  then show ?thesis using typed_unmount [of req] by (auto simp: manifest_delete_by_tag_def split: option.split)
qed (auto simp: typed_post typed_patch typed_reads typed_heads typed_tags blob_head_def manifest_head_def
    manifest_head_by_tag_def upload_delete_def upload_get_def v2_get_def v2_head_def Let_def split: option.split)

section \<open>Typed replies\<close>

lemma decode_refuses:
  assumes "decode_request q e vs = Inl code"
  shows "code \<in> {400, 404}"
proof -
  have d: "path_digest s = Inl c \<Longrightarrow> c = 404" "query_digest x = Inl c \<Longrightarrow> c = 400" "query_usize x = Inl c \<Longrightarrow> c = 400"
    for s x c
    by (auto simp: path_digest_def query_digest_def query_usize_def split: option.splits sum.splits)
  consider "vs = []" | r where "vs = [r]" | r x where "vs = [r, x]" | r x y zs where "vs = r # x # y # zs"
    by (metis list.exhaust)
  then show ?thesis
    by cases (use assms d in \<open>cases e; force simp: decode_request_def and_then_def by_digest_def split: sum.splits option.splits\<close>)+
qed

text \<open>
  C6. Every answer is typed. Whatever the request, the token, the state of the node and the failing I/O, a
  request that is answered gets one of two things. Either it never reaches a handler: the address has no endpoint (404),
  an argument does not decode (400 or 404), or the token extractor refuses (403); these refusals
  carry no body of the registry. Or its handler replies, and what is sent has the type of the request: the
  success of its endpoint, with its status, headers and kind of body (a GET of a blob, for instance, the object of
  the digest it asked for), or one of the errors this request may meet, rendered with the status, the code and
  the JSON body (or the range headers) the protocol has for that error. A handler that panics answers nothing, and then
  nothing is claimed.
\<close>

theorem serve_typed:
  assumes "serve A C ser E w resume q n = (n', Some rep)"
  shows "(route (verb q) (uri q) = None \<and> rep = Inl 404) \<or>
    (\<exists>e vs. route (verb q) (uri q) = Some (e, vs) \<and>
       ((\<exists>code \<in> {400, 404}. decode_request q e vs = Inl code \<and> rep = Inl code) \<or>
        (\<exists>req. decode_request q e vs = Inr req \<and>
           ((\<exists>err. from_request (verify_token A) (token_settings A) (request_header q ''authorization'') = Some (Inl err) \<and>
               rep = Inl 403) \<or>
            (\<exists>x. rep = Inr x \<and> reply_type req x (rendered x))))))"
proof (cases rep)
  case (Inr x)
  then obtain e vs req tok where
      "route (verb q) (uri q) = Some (e, vs)" "decode_request q e vs = Inr req"
      "snd (handle C ser E tok (chunks q) w resume req n) = Some x"
    using assms by (auto simp: serve_def split: option.splits sum.splits prod.splits) (metis snd_conv)
  then show ?thesis using Inr typed_handle [of req C ser E tok "chunks q" w resume n] by (auto simp: typed_def)
next
  case (Inl code)
  then show ?thesis using assms decode_refuses
    by (force simp: serve_def token_error_response_def respond_def split: option.splits sum.splits prod.splits)
qed

theorem serve_typed_witness:
  "\<exists>h e. serve sample_auth sample_codec id sample_env 0 id sample_request uploading_node =
      (uploading_node, Some (Inr (Inr h))) \<and> h = respond 204 (upload_headers (RepositoryName ''r'') ''u'' e) Empty_Body"
proof -
  obtain h where run: "serve sample_auth sample_codec id sample_env 0 id sample_request uploading_node =
      (uploading_node, Some (Inr (Inr h)))" using sample_serve by blast
  have r: "route (verb sample_request) (uri sample_request) = Some (Upload_Get, [''r'', ''u''])"
    "decode_request sample_request Upload_Get [''r'', ''u''] = Inr (Get_Upload (RepositoryName ''r'') ''u'')"
    by (simp_all add: sample_request_def sample_route decode_request_def)
  from serve_typed [OF run] r have "reply_type (Get_Upload (RepositoryName ''r'') ''u'') (Inr h) (rendered (Inr h))" by auto
  with run show ?thesis by (auto simp: reply_type_def rendered_def)
qed

end
