(* ===== verification/Peer_Api.thy ===== *)
theory Peer_Api
  imports Replies Client
begin

text \<open>
  The server on the raft port (the services of \<^verbatim>\<open>src/lib.rs\<close>, lines 171-194) and the calls that are made to it: the
  raft network of \<^verbatim>\<open>src/network/raft_network_impl.rs\<close>, the mirror, the client of \<^verbatim>\<open>src/client.rs\<close>, and the commands
  of \<^verbatim>\<open>src/bin/main.rs\<close>. What raft answers to a call is a parameter.
\<close>

section \<open>The endpoints\<close>

datatype peer_endpoint =
  Peer_Append | Peer_Snapshot | Peer_Vote | Peer_Blob | Peer_Manifest | Peer_Init | Peer_Add_Learner
| Peer_Change_Membership | Peer_Metrics | Peer_Import | Peer_Export | Peer_Write

definition peer_api :: "(http_method \<times> piece list \<times> peer_endpoint) list" where
  "peer_api =
     [(Post, [Lit ''/raft-append''], Peer_Append), (Post, [Lit ''/raft-snapshot''], Peer_Snapshot),
      (Post, [Lit ''/raft-vote''], Peer_Vote),
      (Get, [Lit ''/blobs/'', Segment], Peer_Blob), (Get, [Lit ''/manifests/'', Segment], Peer_Manifest),
      (Post, [Lit ''/init''], Peer_Init), (Post, [Lit ''/add-learner''], Peer_Add_Learner),
      (Post, [Lit ''/change-membership''], Peer_Change_Membership), (Get, [Lit ''/metrics''], Peer_Metrics),
      (Post, [Lit ''/import''], Peer_Import), (Get, [Lit ''/export''], Peer_Export),
      (Post, [Lit ''/write''], Peer_Write)]"

definition peer_route :: "http_method \<Rightarrow> string \<Rightarrow> (peer_endpoint \<times> string list) option" where
  "peer_route m s = first_route peer_api m s"

text \<open>What a request on the raft port carries: the JSON document its endpoint expects, or anything else.\<close>

datatype peer_body =
  No_Body | Import_Data import_body | Init_Data string | Learner_Data "u64 \<times> string" | Members_Data "u64 set"
| Write_Data registry_request | Rpc_Data bytes

datatype 'a peer_reply = Object_Reply reply | Import_Done | Export_Reply import_body | Raft_Reply 'a

definition peer_object :: "(digest \<Rightarrow> node \<times> reply option) \<Rightarrow> node \<Rightarrow> string \<Rightarrow> node \<times> (nat + 'a peer_reply) option" where
  "peer_object get n x =
     (case path_digest x of
        Inl code \<Rightarrow> (n, Some (Inl code))
      | Inr d \<Rightarrow> (case get d of (n, rep) \<Rightarrow> (n, map_option (Inr \<circ> Object_Reply) rep)))"

text \<open>
  A request on the raft port: the node, the state of raft, and the reply. \<open>rpc\<close> is what raft does with a
  vote, entries, a part of a snapshot, or a question for its metrics.
\<close>

definition serve_peer ::
  "env \<Rightarrow> orders \<Rightarrow> ('r, 'a) raft_calls \<Rightarrow> (peer_endpoint \<Rightarrow> bytes \<Rightarrow> 'r \<Rightarrow> 'r \<times> 'a) \<Rightarrow> http_method \<Rightarrow> string \<Rightarrow>
     peer_body \<Rightarrow> node \<Rightarrow> 'r \<Rightarrow> (node \<times> 'r) \<times> (nat + 'a peer_reply) option" where
  "serve_peer E P raft rpc m s b n r =
     (let by_raft = (\<lambda>(r, a). ((n, r), Some (Inr (Raft_Reply a))));
          refused = (\<lambda>code. ((n, r), Some (Inl code)))
      in case peer_route m s of
           None \<Rightarrow> refused 404
         | Some (e, vs) \<Rightarrow>
             (case e of
                Peer_Blob \<Rightarrow>
                  (case peer_object (\<lambda>d. peer_get_blob E d n) n (hd vs) of (n, rep) \<Rightarrow> ((n, r), rep))
              | Peer_Manifest \<Rightarrow>
                  (case peer_object (\<lambda>d. peer_get_manifest E d n) n (hd vs) of (n, rep) \<Rightarrow> ((n, r), rep))
              | Peer_Export \<Rightarrow> ((n, r), Some (Inr (Export_Reply (export_registry (node_store n)))))
              | Peer_Metrics \<Rightarrow> by_raft (rpc Peer_Metrics [] r)
              | Peer_Import \<Rightarrow>
                  (case b of Import_Data ib \<Rightarrow> ((fst (import_registry P ib n), r), Some (Inr Import_Done))
                   | _ \<Rightarrow> refused 400)
              | Peer_Init \<Rightarrow> (case b of Init_Data a \<Rightarrow> by_raft (init_cluster raft (node_id n) a r) | _ \<Rightarrow> refused 400)
              | Peer_Add_Learner \<Rightarrow> (case b of Learner_Data l \<Rightarrow> by_raft (add_learner raft l r) | _ \<Rightarrow> refused 400)
              | Peer_Change_Membership \<Rightarrow>
                  (case b of Members_Data ms \<Rightarrow> by_raft (change_membership raft ms r) | _ \<Rightarrow> refused 400)
              | Peer_Write \<Rightarrow> (case b of Write_Data w \<Rightarrow> by_raft (api_write raft w r) | _ \<Rightarrow> refused 400)
              | _ \<Rightarrow> (case b of Rpc_Data x \<Rightarrow> by_raft (rpc e x r) | _ \<Rightarrow> refused 400)))"

section \<open>The calls\<close>

text \<open>A call of raft to another node.\<close>

datatype raft_call = Raft_Append | Raft_Snapshot | Raft_Vote

fun raft_uri :: "raft_call \<Rightarrow> string" where
  "raft_uri Raft_Append = ''raft-append''"
| "raft_uri Raft_Snapshot = ''raft-snapshot''"
| "raft_uri Raft_Vote = ''raft-vote''"

definition network_call :: "'r transport \<Rightarrow> u64 \<Rightarrow> string \<Rightarrow> raft_call \<Rightarrow> rpc_error + 'r" where
  "network_call net target addr c = send_rpc net target addr (raft_uri c)"

text \<open>The client posts if it has a document to send, and gets otherwise.\<close>

fun call_verb :: "client_call \<Rightarrow> http_method" where
  "call_verb Call_Export = Get"
| "call_verb Call_Metrics = Get"
| "call_verb _ = Post"

section \<open>Commands\<close>

datatype command =
  Serve | Init string "16 word" | Add_Learner u64 string "16 word" | Change_Membership "u64 list"
| Import "path" | Export | Metrics_Command | Fsck (repair: bool)

definition node_address :: "string \<Rightarrow> 16 word \<Rightarrow> string" where
  "node_address addr p = addr @ '':'' @ nat_digits (unat p)"

text \<open>The client of a command talks to the node on this host.\<close>

definition command_client :: "u64 \<Rightarrow> client" where
  "command_client i = new_client i ''127.0.0.1:8080''"

section \<open>Calls and endpoints agree\<close>

fun call_endpoint :: "client_call \<Rightarrow> peer_endpoint option" where
  "call_endpoint Call_Write = Some Peer_Write"
| "call_endpoint Call_Read = None"
| "call_endpoint Call_Consistent_Read = None"
| "call_endpoint Call_Init = Some Peer_Init"
| "call_endpoint Call_Add_Learner = Some Peer_Add_Learner"
| "call_endpoint Call_Change_Membership = Some Peer_Change_Membership"
| "call_endpoint Call_Import = Some Peer_Import"
| "call_endpoint Call_Export = Some Peer_Export"
| "call_endpoint Call_Metrics = Some Peer_Metrics"

fun raft_endpoint :: "raft_call \<Rightarrow> peer_endpoint" where
  "raft_endpoint Raft_Append = Peer_Append"
| "raft_endpoint Raft_Snapshot = Peer_Snapshot"
| "raft_endpoint Raft_Vote = Peer_Vote"

fun object_endpoint :: "mirror_request \<Rightarrow> peer_endpoint" where
  "object_endpoint (Mirror_Blob d) = Peer_Blob"
| "object_endpoint (Mirror_Manifest d) = Peer_Manifest"

lemma match_lit: "match_route [Lit l] s = (if s = l then Some [] else None)"
proof -
  have "match_route [Lit l] s \<noteq> None \<longleftrightarrow> s = l" unfolding match_route_iff by auto
  moreover have "match_route [Lit l] l = Some []" using match_route_unique [of "[Lit l]" "[]"] by simp
  ultimately show ?thesis by auto
qed

lemma match_lit_segment:
  assumes "CHR ''/'' \<notin> set x" and "x \<noteq> []"
  shows "match_route [Lit l, Segment] (l @ x) = Some [x]"
proof -
  have "match_route [Lit l, Segment] (fill [Lit l, Segment] [x]) = Some [x]"
    by (rule match_route_unique) (use assms in \<open>auto split: list.splits\<close>)
  then show ?thesis by simp
qed

lemma match_lit_other:
  "\<not> starts_with l s \<Longrightarrow> match_route (Lit l # ps) s = None"
  using match_route_iff [of "Lit l # ps" s] by (auto simp: starts_with_iff)

lemma hex_digest_path:
  assumes "hex_digest d"
  shows "path_digest (digest_to_string d) = Inr d" and "CHR ''/'' \<notin> set (digest_to_string d)"
    and "digest_to_string d \<noteq> []"
proof -
  have h: "algo d = ''sha256''" "\<forall>c \<in> set (hash d). hex_char c" using assms by (auto simp: hex_digest_def list_all_iff)
  moreover have "\<not> hex_char (CHR '':'')" "\<not> hex_char (CHR ''/'')" by (simp_all add: hex_char_def)
  ultimately have "CHR '':'' \<notin> set (hash d)" "CHR ''/'' \<notin> set (hash d)" by blast+
  then show "CHR ''/'' \<notin> set (digest_to_string d)" "digest_to_string d \<noteq> []"
    using h(1) by (simp_all add: digest_to_string_def)
  have "digest_wf d" using h(1) \<open>CHR '':'' \<notin> set (hash d)\<close> by (simp add: digest_wf_def)
  then show "path_digest (digest_to_string d) = Inr d" by (simp add: path_digest_def digest_try_from_print)
qed

lemma peer_object_route:
  assumes "hex_digest (request_digest q)"
  shows "peer_route Get (''/'' @ object_type q @ ''/'' @ digest_to_string (request_digest q)) =
    Some (object_endpoint q, [digest_to_string (request_digest q)])"
proof -
  let ?x = "digest_to_string (request_digest q)"
  note x = hex_digest_path(2,3) [OF assms]
  have "match_route [Lit ''/blobs/'', Segment] (''/manifests/'' @ ?x) = None"
    by (rule match_lit_other) (simp add: starts_with_def)
  then show ?thesis using match_lit_segment [OF x, of "''/blobs/''"] match_lit_segment [OF x, of "''/manifests/''"]
    by (cases q) (simp_all add: peer_route_def peer_api_def)
qed

text \<open>
  C25. Callers and servers agree. What raft, the mirror and the command line send to the raft port of a node
  reaches the endpoint it is meant for: the three calls of raft, every call of the client that has an
  endpoint, and the transfer of an object, which is answered by the peer for exactly the digest the mirror
  asks for. The client's \<open>read\<close> and \<open>consistent_read\<close> have no endpoint: they are answered with 404 always.
\<close>

theorem internal_calls_reach:
  "(case call_endpoint c of
      Some e \<Rightarrow> peer_route (call_verb c) (''/'' @ call_uri c) = Some (e, [])
    | None \<Rightarrow> \<forall>m. peer_route m (''/'' @ call_uri c) = None) \<and>
   peer_route Post (''/'' @ raft_uri k) = Some (raft_endpoint k, []) \<and>
   (hex_digest d \<longrightarrow>
     serve_peer E P raft rpc Get (''/blobs/'' @ digest_to_string d) b n r =
       (case peer_get_blob E d n of (n', rep) \<Rightarrow> ((n', r), map_option (Inr \<circ> Object_Reply) rep)) \<and>
     serve_peer E P raft rpc Get (''/manifests/'' @ digest_to_string d) b n r =
       (case peer_get_manifest E d n of (n', rep) \<Rightarrow> ((n', r), map_option (Inr \<circ> Object_Reply) rep)))"
proof (intro conjI impI)
  show "case call_endpoint c of
      Some e \<Rightarrow> peer_route (call_verb c) (''/'' @ call_uri c) = Some (e, [])
    | None \<Rightarrow> \<forall>m. peer_route m (''/'' @ call_uri c) = None"
    by (cases c) (simp_all add: peer_route_def peer_api_def match_lit match_lit_other starts_with_def)
  show "peer_route Post (''/'' @ raft_uri k) = Some (raft_endpoint k, [])"
    by (cases k) (simp_all add: peer_route_def peer_api_def match_lit)
  assume d: "hex_digest d"
  show "serve_peer E P raft rpc Get (''/blobs/'' @ digest_to_string d) b n r =
      (case peer_get_blob E d n of (n', rep) \<Rightarrow> ((n', r), map_option (Inr \<circ> Object_Reply) rep))"
    using peer_object_route [of "Mirror_Blob d"] d hex_digest_path(1) [OF d]
    by (simp add: serve_peer_def peer_object_def split: prod.split)
  show "serve_peer E P raft rpc Get (''/manifests/'' @ digest_to_string d) b n r =
      (case peer_get_manifest E d n of (n', rep) \<Rightarrow> ((n', r), map_option (Inr \<circ> Object_Reply) rep))"
    using peer_object_route [of "Mirror_Manifest d"] d hex_digest_path(1) [OF d]
    by (simp add: serve_peer_def peer_object_def split: prod.split)
qed

definition sample_raft :: "(unit, unit) raft_calls" where
  "sample_raft = \<lparr>raft_initialize = (\<lambda>_ r. (r, ())), raft_add_learner = (\<lambda>_ _ _ r. (r, ())),
     raft_change_membership = (\<lambda>_ _ r. (r, ())), raft_client_write = (\<lambda>_ r. (r, ()))\<rparr>"

theorem internal_calls_reach_witness:
  "\<forall>n r. serve_peer sample_env sample_orders sample_raft (\<lambda>_ _ r. (r, ())) Get
      (''/blobs/'' @ digest_to_string a64) No_Body n r =
    (case peer_get_blob sample_env a64 n of (n', rep) \<Rightarrow> ((n', r), map_option (Inr \<circ> Object_Reply) rep))"
proof (intro allI)
  fix n r
  show "serve_peer sample_env sample_orders sample_raft (\<lambda>_ _ r. (r, ())) Get
      (''/blobs/'' @ digest_to_string a64) No_Body n r =
    (case peer_get_blob sample_env a64 n of (n', rep) \<Rightarrow> ((n', r), map_option (Inr \<circ> Object_Reply) rep))"
    using internal_calls_reach [of Call_Write Raft_Vote a64 sample_env sample_orders sample_raft
        "\<lambda>_ _ r. (r, ())" No_Body n r] a64_hex by simp
qed

end
