(* ===== verification/Commands.thy ===== *)
theory Commands
  imports Peer_Api Node
begin

text \<open>
  The program itself: \<open>main\<close> of \<^verbatim>\<open>src/bin/main.rs\<close>, which serves as a node or makes the calls of a command to the
  node on this host, and what a command gets from a node that serves the raft port there. Parsing the
  command line and a JSON file are parameters; what is printed is the value the command ends with.
\<close>

section \<open>Running a command\<close>

datatype command_error = Bad_Id config_error | Unreadable | Unparsed | Call_Failed rpc_error

datatype 'a printed =
  Node_Started node | Cluster_Initialized | Learner_Added | Membership_Changed | Data_Imported
| Data_Exported import_body | Metrics_Shown "'a peer_reply"
| Checked "registry_action list option" "fsck_message list"

type_synonym 'a command_result = "filesystem \<times> (command_error + 'a printed) option"

text \<open>
  What the raft port answers to a request, which carries a document or not. A reply that is not what the call
  expects does not parse.
\<close>

type_synonym 'a peer_net = "peer_body \<Rightarrow> 'a peer_reply transport"

definition done_with :: "filesystem \<Rightarrow> client \<times> (rpc_error + 'a peer_reply) \<Rightarrow> 'a printed \<Rightarrow> 'a command_result" where
  "done_with f call out =
     (f, Some (case snd call of Inl e \<Rightarrow> Inl (Call_Failed e) | Inr _ \<Rightarrow> Inr out))"

definition run_export :: "'a peer_net \<Rightarrow> client \<Rightarrow> client \<times> (rpc_error + import_body)" where
  "run_export net cl =
     (case client_request (net No_Body) Call_Export cl of
        (cl, Inl e) \<Rightarrow> (cl, Inl e)
      | (cl, Inr (Export_Reply ib)) \<Rightarrow> (cl, Inr ib)
      | (cl, Inr _) \<Rightarrow> (cl, Inl Network_Error))"

definition run_import :: "(string \<Rightarrow> import_body option) \<Rightarrow> 'a peer_net \<Rightarrow> io \<Rightarrow> path \<Rightarrow> client \<Rightarrow> filesystem \<Rightarrow> 'a command_result" where
  "run_import parse net io p cl f =
     (case read_to_string io p f of
        None \<Rightarrow> (f, Some (Inl Unreadable))
      | Some s \<Rightarrow>
          (case parse s of
             None \<Rightarrow> (f, Some (Inl Unparsed))
           | Some ib \<Rightarrow> done_with f (client_request (net (Import_Data ib)) Call_Import cl) Data_Imported))"

text \<open>The check writes the fixes through the client it exported with, which may have followed the leader.\<close>

definition run_fsck ::
  "codec \<Rightarrow> env \<Rightarrow> orders \<Rightarrow> u64 \<Rightarrow> (object_kind \<Rightarrow> digest \<Rightarrow> timestamp) \<Rightarrow> 'a peer_net \<Rightarrow> bool \<Rightarrow> client \<Rightarrow> filesystem \<Rightarrow>
     'a command_result" where
  "run_fsck C E P i now net rep cl f =
     (case run_export net cl of
        (cl, Inl e) \<Rightarrow> (f, Some (Inl (Call_Failed e)))
      | (cl, Inr ib) \<Rightarrow>
          (case fsck C E P i now rep ib f of
             None \<Rightarrow> (f, None)
           | Some (f, None, ms) \<Rightarrow> (f, Some (Inr (Checked None ms)))
           | Some (f, Some fixes, ms) \<Rightarrow>
               done_with f (client_request (net (Write_Data (Transaction fixes))) Call_Write cl) (Checked (Some fixes) ms)))"

definition run_command ::
  "codec \<Rightarrow> env \<Rightarrow> orders \<Rightarrow> (object_kind \<Rightarrow> digest \<Rightarrow> timestamp) \<Rightarrow> host \<Rightarrow> (string \<Rightarrow> import_body option) \<Rightarrow>
     'a peer_net \<Rightarrow> configuration \<Rightarrow> command \<Rightarrow> filesystem \<Rightarrow> 'a command_result" where
  "run_command C E P now H parse net conf cmd f =
     (case config_id (node_identifier conf) of
        Inl e \<Rightarrow> (f, Some (Inl (Bad_Id e)))
      | Inr i \<Rightarrow>
          (let cl = command_client i
           in case cmd of
                Serve \<Rightarrow>
                  (case start_node conf (env_io E) H f of
                     (f, Some (Inr n)) \<Rightarrow> (f, Some (Inr (Node_Started n)))
                   | (f, _) \<Rightarrow> (f, None))
              | Init addr p \<Rightarrow> done_with f (client_request (net (Init_Data (node_address addr p))) Call_Init cl) Cluster_Initialized
              | Add_Learner j addr p \<Rightarrow>
                  done_with f (client_request (net (Learner_Data (j, node_address addr p))) Call_Add_Learner cl) Learner_Added
              | Change_Membership ids \<Rightarrow>
                  done_with f (client_request (net (Members_Data (set ids))) Call_Change_Membership cl) Membership_Changed
              | Import p \<Rightarrow> run_import parse net (env_io E) p cl f
              | Export \<Rightarrow>
                  (case snd (run_export net cl) of
                     Inl e \<Rightarrow> (f, Some (Inl (Call_Failed e)))
                   | Inr ib \<Rightarrow> (f, Some (Inr (Data_Exported ib))))
              | Metrics_Command \<Rightarrow>
                  (case snd (client_request (net No_Body) Call_Metrics cl) of
                     Inl e \<Rightarrow> (f, Some (Inl (Call_Failed e)))
                   | Inr x \<Rightarrow> (f, Some (Inr (Metrics_Shown x))))
              | Fsck rep \<Rightarrow> run_fsck C (E\<lparr>root := components (storage conf)\<rparr>) P i now net rep cl f))"


section \<open>The nodes a command talks to\<close>

text \<open>
  The raft ports of a cluster as a transport: \<open>listening\<close> are the nodes that listen, with the state of their
  raft, by address, and \<open>failure\<close> is the error in a reply of raft, if it is one. The calls of the client
  have a single segment behind the address.
\<close>

definition cluster_net ::
  "env \<Rightarrow> orders \<Rightarrow> ('r, 'a) raft_calls \<Rightarrow> (peer_endpoint \<Rightarrow> bytes \<Rightarrow> 'r \<Rightarrow> 'r \<times> 'a) \<Rightarrow> ('a \<Rightarrow> remote_error option) \<Rightarrow>
     (string \<Rightarrow> (node \<times> 'r) option) \<Rightarrow> 'a peer_net" where
  "cluster_net E P raft rpc failure listening b k url =
     (if \<not> starts_with ''http://'' url then None
      else case rsplit_once (CHR ''/'') (drop 7 url) of
             None \<Rightarrow> None
           | Some (addr, p) \<Rightarrow>
               (case listening addr of
                  None \<Rightarrow> None
                | Some (n, r) \<Rightarrow>
                    (case snd (serve_peer E P raft rpc (if b = No_Body then Get else Post) (CHR ''/'' # p) b n r) of
                       Some (Inr (Raft_Reply a)) \<Rightarrow>
                         Some (case failure a of Some e \<Rightarrow> Inl e | None \<Rightarrow> Inr (Raft_Reply a))
                     | Some (Inr x) \<Rightarrow> Some (Inr x)
                     | _ \<Rightarrow> None)))"

lemma call_uri_segment: "CHR ''/'' \<notin> set (call_uri c)"
  by (cases c) simp_all

lemma cluster_net_call:
  "cluster_net E P raft rpc failure listening b k (rpc_url addr (call_uri c)) =
     (case listening addr of
        None \<Rightarrow> None
      | Some (n, r) \<Rightarrow>
          (case snd (serve_peer E P raft rpc (if b = No_Body then Get else Post) (CHR ''/'' # call_uri c) b n r) of
             Some (Inr (Raft_Reply a)) \<Rightarrow> Some (case failure a of Some e \<Rightarrow> Inl e | None \<Rightarrow> Inr (Raft_Reply a))
           | Some (Inr x) \<Rightarrow> Some (Inr x)
           | _ \<Rightarrow> None))"
proof -
  have "starts_with ''http://'' (rpc_url addr (call_uri c))" by (simp add: rpc_url_def starts_with_def)
  moreover have "rsplit_once (CHR ''/'') (drop 7 (rpc_url addr (call_uri c))) = Some (addr, call_uri c)"
    using call_uri_segment [of c] by (simp add: rsplit_once_Some_iff rpc_url_def)
  ultimately show ?thesis by (simp add: cluster_net_def)
qed

lemma export_answered:
  assumes "listening (leader_addr cl) = Some (n, r)"
  shows "run_export (cluster_net E P raft rpc failure listening) cl = (cl, Inr (export_registry (node_store n)))"
proof -
  have "peer_route Get ''/export'' = Some (Peer_Export, [])"
    by (simp add: peer_route_def peer_api_def match_lit match_lit_other starts_with_def)
  then have "do_send_rpc_to_leader (cluster_net E P raft rpc failure listening No_Body) 0 (call_uri Call_Export) cl =
      Inr (Export_Reply (export_registry (node_store n)))"
    using assms by (simp add: do_send_rpc_to_leader_def cluster_net_call serve_peer_def del: call_uri.simps)
      (simp add: serve_peer_def)
  then show ?thesis by (simp add: run_export_def client_request_def send_rpc_to_leader_def send_rpc_loop.simps)
qed

text \<open>A write that succeeds was accepted by the raft of some node.\<close>

lemma write_accepted:
  assumes "client_request (cluster_net E P raft rpc failure listening (Write_Data w)) Call_Write cl = (cl', Inr x)"
  shows "\<exists>addr n r. listening addr = Some (n, r) \<and> failure (snd (raft_client_write raft w r)) = None"
proof -
  let ?net = "cluster_net E P raft rpc failure listening (Write_Data w)"
  have run: "send_rpc_loop ?net (call_uri Call_Write) 3 0 cl = (cl', Inr x)"
    using assms by (simp add: client_request_def send_rpc_to_leader_def)
  obtain cls where "follows ?net (call_uri Call_Write) 3 0 cl (cl', Inr x) cls"
    using send_rpc_loop_follows [of 3 ?net "call_uri Call_Write" 0 cl] unfolding run by auto
  then obtain k c where "do_send_rpc_to_leader ?net k (call_uri Call_Write) c = Inr x"
    unfolding follows_def by (metis snd_conv)
  moreover have "peer_route Post ''/write'' = Some (Peer_Write, [])"
    by (simp add: peer_route_def peer_api_def match_lit match_lit_other starts_with_def)
  ultimately show ?thesis
    using cluster_net_call [of E P raft rpc failure listening "Write_Data w" k "leader_addr c" Call_Write]
    by (auto simp: do_send_rpc_to_leader_def serve_peer_def api_write_def
        split: option.splits sum.splits prod.splits) (metis snd_conv)
qed


section \<open>A repair\<close>

text \<open>
  C28. A repair from the command line makes the registry agree with the disk. When \<open>distribd fsck --repair\<close> ends
  with success against a cluster whose node on this host is \<open>n\<close>, then raft accepted the fixes it printed, at some
  node of the cluster; and applying them to the registry of \<open>n\<close> does not panic, removes this node from the
  holders of exactly the objects whose file is missing (and the row with its last holder), and changes
  no other row and no tag.
\<close>

theorem repair_command:
  assumes "run_command C E P now H parse (cluster_net E' P' raft rpc failure listening) conf (Fsck True) f =
      (f', Some (Inr out))"
    and "config_id (node_identifier conf) = Inr i" and "listening ''127.0.0.1:8080'' = Some (n, r)"
    and "db_wf (sm_db (node_store n))" and "rows_hex (node_store n)"
  shows "\<exists>fxs ms s'. out = Checked (Some fxs) ms \<and>
    (\<exists>addr m r'. listening addr = Some (m, r') \<and> failure (snd (raft_client_write raft (Transaction fxs) r')) = None) \<and>
    apply_actions fxs (sm_db (node_store n)) = Some s' \<and>
    (\<forall>d. corrected (path_exists (blob_file (components (storage conf)) d) f') i
       (get_blob (node_store n) d) (tx_get_blob s' d)) \<and>
    (\<forall>d. corrected (path_exists (manifest_file (components (storage conf)) d) f') i
       (get_manifest (node_store n) d) (tx_get_manifest s' d)) \<and>
    (\<forall>rp t. get_tag s' rp t = get_tag (sm_db (node_store n)) rp t)"
proof -
  let ?net = "cluster_net E' P' raft rpc failure listening" and ?cl = "command_client i"
  let ?E = "E\<lparr>root := components (storage conf)\<rparr>"
  have "run_export ?net ?cl = (?cl, Inr (export_registry (node_store n)))"
    using export_answered [of listening ?cl n r] assms(3) by (simp add: command_client_def new_client_def)
  then have "run_fsck C ?E P i now ?net True ?cl f = (f', Some (Inr out)) \<and>
      run_fsck C ?E P i now ?net True ?cl f = (case fsck C ?E P i now True (export_registry (node_store n)) f of
        None \<Rightarrow> (f, None)
      | Some (f, None, ms) \<Rightarrow> (f, Some (Inr (Checked None ms)))
      | Some (f, Some fixes, ms) \<Rightarrow>
          done_with f (client_request (?net (Write_Data (Transaction fixes))) Call_Write ?cl) (Checked (Some fixes) ms))"
    using assms(1,2) by (simp add: run_command_def run_fsck_def)
  then obtain fxs ms cl x where run: "fsck C ?E P i now True (export_registry (node_store n)) f = Some (f', Some fxs, ms)"
      "client_request (?net (Write_Data (Transaction fxs))) Call_Write ?cl = (cl, Inr x)" "out = Checked (Some fxs) ms"
    by (auto simp: done_with_def fsck_def split: option.splits sum.splits prod.splits) (metis prod.collapse)
  from fsck_repairs [OF assms(4,5) run(1)] write_accepted [OF run(2)] run(3) show ?thesis by simp
qed


text \<open>The server of one node that lists a copy it has lost; its raft accepts everything.\<close>

definition lost_node :: node where
  "lost_node = \<lparr>node_store = lost_store, node_fs = empty_fs, submitted = [], events = []\<rparr>"

definition local_net :: "unit peer_net" where
  "local_net = cluster_net sample_env sample_orders Peer_Api.sample_raft (\<lambda>_ _ r. (r, ())) (\<lambda>_. None)
     (\<lambda>a. if a = ''127.0.0.1:8080'' then Some (lost_node, ()) else None)"

theorem repair_command_witness:
  "\<exists>f' fxs ms s'. run_command sample_codec sample_env sample_orders (\<lambda>_ _. 0) sample_host (\<lambda>_. None) local_net
      default_configuration (Fsck True) empty_fs = (f', Some (Inr (Checked (Some fxs) ms))) \<and>
    apply_actions fxs (sm_db lost_store) = Some s'"
proof -
  let ?at = "\<lambda>a. if a = ''127.0.0.1:8080'' then Some (lost_node, ()) else None"
  note i = default_id
  have E: "sample_env\<lparr>root := components (storage default_configuration)\<rparr> = sample_env"
    by (simp add: sample_env_def default_configuration_def components_plain plain_def)
  obtain f' fxs where fsck: "fsck sample_codec sample_env sample_orders 1 (\<lambda>_ _. 0) True (export_registry lost_store) empty_fs =
      Some (f', Some fxs, [])"
    using lost_store_run by blast
  have "run_export local_net (command_client 1) = (command_client 1, Inr (export_registry lost_store))"
    using export_answered [of ?at "command_client 1" lost_node "()"] by (simp add: local_net_def lost_node_def command_client_def new_client_def)
  moreover have "peer_route Post ''/write'' = Some (Peer_Write, [])"
    by (simp add: peer_route_def peer_api_def match_lit match_lit_other starts_with_def)
  then have "do_send_rpc_to_leader (local_net (Write_Data w)) 0 (call_uri Call_Write) (command_client 1) = Inr (Raft_Reply ())" for w
    using cluster_net_call [of sample_env sample_orders Peer_Api.sample_raft "\<lambda>_ _ r. (r, ())" "\<lambda>_. None" ?at
        "Write_Data w" 0 "''127.0.0.1:8080''" Call_Write]
    by (simp add: do_send_rpc_to_leader_def local_net_def command_client_def new_client_def serve_peer_def)
  then have "client_request (local_net (Write_Data w)) Call_Write (command_client 1) = (command_client 1, Inr (Raft_Reply ()))" for w
    by (simp add: client_request_def send_rpc_to_leader_def send_rpc_loop.simps)
  ultimately have run: "run_command sample_codec sample_env sample_orders (\<lambda>_ _. 0) sample_host (\<lambda>_. None) local_net
      default_configuration (Fsck True) empty_fs = (f', Some (Inr (Checked (Some fxs) [])))"
    using fsck by (simp add: run_command_def i E run_fsck_def done_with_def)
  have "rows_hex lost_store"
    by (auto simp: rows_hex_def lost_store_def new_store_def get_blob_def get_manifest_def empty_db_def split: if_splits)
  then obtain s' where "apply_actions fxs (sm_db lost_store) = Some s'"
    using repair_command [OF run [unfolded local_net_def] i, of lost_node "()"] lost_store_wf by (auto simp: lost_node_def)
  with run show ?thesis by blast
qed

end
