(* ===== verification/Public_Key.thy ===== *)
theory Public_Key
  imports Files
begin

text \<open>
  The public key of the token server in \<^verbatim>\<open>src/config.rs\<close>: the configuration names a file, absolute or in
  the configuration directory, that holds the key as PEM or a certificate of it. Decoding is a
  parameter; every failure is a panic (\<open>None\<close>). The configuration is written back with the name.
\<close>

record key_library =
  key_from_pem :: "string \<Rightarrow> bytes option"
  certificate_key :: "string \<Rightarrow> bytes option"
  key_from_bytes :: "bytes \<Rightarrow> bytes option"

record public_key =
  pk_path :: string
  pk_key :: bytes

definition public_key_file :: "path \<Rightarrow> string \<Rightarrow> path" where
  "public_key_file config_dir s =
     (if \<not> starts_with ''/'' s then path_push config_dir s else components s)"

definition deserialize_public_key ::
  "key_library \<Rightarrow> io \<Rightarrow> path \<Rightarrow> string \<Rightarrow> filesystem \<Rightarrow> public_key option" where
  "deserialize_public_key K io config_dir s f =
     (case read_to_string io (public_key_file config_dir s) f of
        None \<Rightarrow> None
      | Some pem \<Rightarrow>
          map_option (\<lambda>k. \<lparr>pk_path = s, pk_key = k\<rparr>)
            (case key_from_pem K pem of
               Some k \<Rightarrow> Some k
             | None \<Rightarrow> (case certificate_key K pem of None \<Rightarrow> None | Some raw \<Rightarrow> key_from_bytes K raw)))"

definition serialize_public_key :: "public_key \<Rightarrow> string" where
  "serialize_public_key k = pk_path k"

text \<open>Writing a key and reading it back gives the same key, as long as its file is unchanged.\<close>

lemma public_key_roundtrip:
  assumes "deserialize_public_key K io config_dir s f = Some k"
  shows "serialize_public_key k = s"
    and "deserialize_public_key K io config_dir (serialize_public_key k) f = Some k"
  using assms by (auto simp: deserialize_public_key_def serialize_public_key_def split: option.splits)

end
