(* ===== verification/Spec2Isabelle.thy ===== *)
theory Spec2Isabelle
  imports Pulls Sessions Replies Commands Public_Key
begin

text \<open>
  A model of distribd, an OCI container registry in Rust whose metadata is replicated by raft (the sources are
  under \<^verbatim>\<open>src/\<close>).

  The program. Each node runs an HTTP server for registry clients, one for its peers and for administration
  (the raft port), and one for metrics. The contents of blobs and manifests are files on the disks of the
  nodes that have a copy; the registry, that is which objects, mounts, copies and tags there are, is a state
  machine every node keeps in a database. A handler checks the token, works on files, and submits a transaction
  of registry actions to raft; when raft has committed it, every node applies it in one database transaction.
  A second pass then updates the sets of objects the node has yet to fetch, which the mirror task watches,
  and wakes the requests that wait for an object. The mirror downloads from a peer that lists a copy and reports
  its own. A leader may unmount what no tagged manifest reaches, and nodes may then delete their copies.

  How it is modelled. A handler is a function from the node (record \<open>node\<close>: the store, the file system, what was
  submitted to raft, the events posted) to the node it leaves and its reply. \<open>None\<close> is a panic or a reply that
  never comes; an error is the \<open>Inl\<close> of a sum. The world outside is the record \<open>env\<close> (file system
  failures, clock, SHA-256, UUIDs, raft, the order of a \<open>HashSet\<close>) and records of parameters for libraries. A
  \<open>u64\<close> is a 64 bit word, a Rust string a list of bytes, a sled tree or \<open>BTreeMap\<close> an ordered list of bindings.

  Theories, in the order they build on each other, with the code they model:

    \<^item> \<open>Prelude\<close> (strings, panicking folds), \<open>Trees\<close> (ordered trees), \<open>Registry_Types\<close> (\<^verbatim>\<open>types/\<close>).
    \<^item> \<open>State_Actions\<close>, \<open>State_Laws\<close>, \<open>State_Spec\<close>, \<open>State_Machine\<close>, \<open>Pending\<close> (\<^verbatim>\<open>store/mod.rs\<close>): the effect of
      each action, the laws both halves (blobs and manifests) share, the specification by finite maps
      and its refinement, the batch of entries, and the second pass with its pending sets and waiters.
    \<^item> \<open>Orphans\<close>, \<open>Raft_Log\<close>, \<open>Snapshot\<close>, \<open>Tag_List\<close> (\<^verbatim>\<open>store/mod.rs\<close>, \<^verbatim>\<open>registry/tags/get.rs\<close>): the search for garbage, the
      log storage, snapshots, the list of tags.
    \<^item> \<open>Cluster\<close>: replicas that apply one log, restart, exchange snapshots, and may drift by it.
    \<^item> \<open>Http\<close> (\<^verbatim>\<open>registry/errors.rs\<close>), \<open>Token\<close> (\<^verbatim>\<open>extractors/token.rs\<close>), \<open>Files\<close> (\<^verbatim>\<open>utils.rs\<close>, \<^verbatim>\<open>registry/utils.rs\<close>),
      \<open>App\<close> (\<^verbatim>\<open>app.rs\<close>).
    \<^item> \<open>Uploads\<close>, \<open>Garbage\<close> (\<^verbatim>\<open>garbage.rs\<close>), \<open>Extractor\<close> (\<^verbatim>\<open>extractor.rs\<close>), \<open>Blobs\<close>, \<open>Manifests\<close> (\<^verbatim>\<open>registry/\<close>), \<open>Mirror\<close>
      (\<^verbatim>\<open>mirror.rs\<close>, \<^verbatim>\<open>network/raft.rs\<close>), \<open>Management\<close> (\<^verbatim>\<open>network/management.rs\<close>), \<open>Fsck\<close> (\<^verbatim>\<open>bin/main.rs\<close>), \<open>Client\<close>
      (\<^verbatim>\<open>client.rs\<close>, \<^verbatim>\<open>network/raft_network_impl.rs\<close>), \<open>Webhook\<close> (\<^verbatim>\<open>webhook.rs\<close>).
    \<^item> \<open>Router\<close> (\<^verbatim>\<open>lib.rs\<close>): the registry's services, from a request to its reply; \<open>Replies\<close>: what each of them may
      answer; \<open>Peer_Api\<close> (\<^verbatim>\<open>lib.rs\<close>, \<^verbatim>\<open>network/\<close>): the services of the raft port and their callers; \<open>Commands\<close>
      (\<^verbatim>\<open>bin/main.rs\<close>): the program and its commands.
    \<^item> \<open>Certificate\<close> (\<^verbatim>\<open>certificate.rs\<close>), \<open>Public_Key\<close> (\<^verbatim>\<open>config.rs\<close>), \<open>Startup\<close> (\<^verbatim>\<open>config.rs\<close>, \<^verbatim>\<open>lib.rs\<close>), \<open>Metrics\<close>
      (\<^verbatim>\<open>store/metrics.rs\<close>, \<^verbatim>\<open>prometheus.rs\<close>, \<^verbatim>\<open>middleware/prometheus.rs\<close>).
    \<^item> \<open>Node\<close>: the contract the operations of a node meet, and the copies actions claim; \<open>System\<close>: any number of
      nodes around the log of raft, as a step relation; \<open>Races\<close> and \<open>Poison\<close>: a race the system has, and what an entry
      that panics does to it; \<open>Pulls\<close>: what a client pulls from a system;
      \<open>Sessions\<close> (\<^verbatim>\<open>registry/utils.rs\<close>, \<^verbatim>\<open>registry/blobs/uploads/\<close>): the upload handlers at the grain of their
      file operations; \<open>Flows\<close> and this theory: flows through several components.

  What the theorems show. Of the whole system, with handlers taken whole: a listed copy is on the disk of
  the node it is listed for, with the content of its digest, unless an import has claimed it or that node's collector has
  deleted it; what a client pulls has the digest it asked for; replicas at the same log entry agree, as long as no
  snapshot was installed over rows or tags it lacks; a push can be pulled back byte for byte; a blob reaches the nodes
  that lack it; a deleted blob is not served; no request passes without the permission it needs; every request that is
  answered is answered in the format of its endpoint, errors included; every
  address leads to its endpoint, on both ports. Of the parts: the transaction
  refines a specification on finite maps; the pending sets and waiters follow the rows;
  the searches and retries end, and what they return is exact; uploads, manifests and transfers
  report only what they have stored and checked; collection unmounts and deletes only orphans; snapshots, exports and
  repairs restore what they promise, and the theorems say when they do not.
  Theorems also state faults of the code as it is: an entry that panics every node and an ordinary run that commits one, a waiter that
  takes the apply loop down, a reader that is not woken, a blob torn by its own client, a tag that cannot be deleted, rows a snapshot
  leaves behind, transfers that are not retried.

  Loops. The two searches (orphans, the dependencies of a manifest) are \<open>while_option\<close>, and end on every graph;
  waiting for an entry to be applied is a \<open>partial_function\<close> that may not return, as in the code; retries count
  down; the mirror, the upload sessions, the replicas and the system are step relations. No function takes fuel.

  Concurrency. A step of the system is a whole handler; a read that waits is three steps (it looks at the
  row, it registers its channel, it is resumed), and any steps may come between. The theorems on the system are about
  handlers taken whole. For uploads this is a restriction, and \<open>Sessions\<close> shows which: there the file operations
  interleave and files are open across renames; blobs stay what their digests name as long as clients take
  turns on an upload, and may be torn if they do not.
  Where a claim depends on what happened before, a ghost field records it, and no code reads it: the replicas that have
  drifted, the copies an import claimed or a collector deleted, the channels that have been opened.

  Not modelled: the test suites and the benchmark; openraft (its log grows, it hands each node the
  entries in order, and it installs only newer snapshots), sled and the serializers (what was
  written is read back, errors of the database do not occur), the HTTP libraries (percent-decoding, TLS,
  compression, range requests: \<open>File_Body\<close> is the body \<open>NamedFile\<close> gives), JWT, PEM and X.509 decoding,
  regular expressions, the merging of configuration sources, logging and error reporting. Nothing in the program
  starts the collector; its phases are steps of the system all the same.
\<close>

section \<open>Push and pull\<close>

text \<open>
  C3. What was pushed is what is pulled. After a push of a manifest under a tag was answered with
  success, and as soon as the node has applied the transaction the push handed to raft, a pull of
  that tag by anyone who may read the repository is answered with 200, the media type and digest of
  the push, and exactly the bytes of the push.
\<close>

theorem push_then_pull:
  assumes "hash_ok E" and "codec_ok C" and "manifest_put C E tok r tag (Some ct) cs n = (n', Some (Inr h))"
    and "files (node_fs n) (get_temp_path (uuid E) (root E)) = None"
    and "commits e (last (submitted n'))" and "apply_to_state_machine [e] (node_store n') = Some (st, rs)"
    and "same_disk E E'" and "\<And>op. env_io E' op" and "has_permission tok' r ''pull''"
  shows "\<exists>n2 h2. manifest_get_by_tag E' tok' r tag w resume (n'\<lparr>node_store := st\<rparr>) = (n2, Some (Inr h2)) \<and>
    status h2 = 200 \<and> body_bytes (node_fs n2) h2 = Some (concat (map the cs)) \<and>
    header ''content-type'' h2 = Some ct \<and>
    header ''Docker-Content-Digest'' h2 = Some (digest_to_string (content_digest E (concat (map the cs))))"
proof -
  let ?b = "concat (map the cs)" and ?m = "n'\<lparr>node_store := st\<rparr>"
  let ?d = "content_digest E ?b"
  obtain as where as: "files (node_fs n') (manifest_file (root E) ?d) = Some ?b" "submitted n' = submitted n @ [as]"
      "\<And>s. \<exists>s' row. apply_actions as s = Some s' \<and> tx_get_manifest s' ?d = Some row \<and>
         r \<in> repositories row \<and> node_id n \<in> locations row \<and> obj_size row = Some (of_nat (length ?b)) \<and>
         content_type row = Some ct \<and> get_tag s' r tag = Some ?d"
    using manifest_put_effects [OF assms(1-4)] unfolding Let_def by blast
  have e: "commits e as" using assms(5) as(2) by simp
  obtain row where row: "tx_get_manifest (sm_db st) ?d = Some row" "r \<in> repositories row" "node_id n \<in> locations row"
      "obj_size row = Some (of_nat (length ?b))" "content_type row = Some ct" "get_tag (sm_db st) r tag = Some ?d"
    using as(3) [of "set_last_applied_log_tx (entry_log_id e) (sm_db (node_store n'))"] committed(1) [OF e assms(6)]
    by auto
  have disk: "root E' = root E" using assms(7) by (simp add: same_disk_def)
  have hex: "hex_digest ?d" using content_digest_hex [OF assms(1)] .
  have free: "dirs_free E' ''manifests'' ?d (node_fs ?m)"
    using manifest_put_dirs_free [OF assms(1,3,4)] disk by (simp add: dirs_free_def)
  have "node_id ?m = node_id n"
    using committed(2) [OF e assms(6)] manifest_put_op.safe [OF assms(1), of "(C, tok, r, tag, Some ct, cs)" n] assms(2,3)
    by (simp add: node_id_def safe_step_def)
  then have get: "manifest_get_by_tag E' tok' r tag w resume ?m = send_manifest E' ?d row ?m"
    using read_manifest_by_tag [OF assms(9), of ?m tag ?d row] row by (simp add: get_manifest_tx)
  show ?thesis unfolding get
    using send_manifest_in_place [OF hex assms(8) free, of ?b row ct] as(1) row disk by simp
qed

theorem push_then_pull_witness:
  "\<exists>n' h e st rs n2 h2. manifest_put sample_codec sample_env admin_token (RepositoryName ''r'') ''latest''
      (Some manifest_v1) [Some ''{}''] pushing_node = (n', Some (Inr h)) \<and>
    apply_to_state_machine [e] (node_store n') = Some (st, rs) \<and>
    manifest_get_by_tag sample_env admin_token (RepositoryName ''r'') ''latest'' 0 id (n'\<lparr>node_store := st\<rparr>) =
      (n2, Some (Inr h2)) \<and> body_bytes (node_fs n2) h2 = Some ''{}''"
proof -
  let ?r = "RepositoryName ''r''"
  obtain n' h where run: "manifest_put sample_codec sample_env admin_token ?r ''latest''
      (Some manifest_v1) [Some ''{}''] pushing_node = (n', Some (Inr h))"
    using manifest_put_sample by blast
  have free: "files (node_fs pushing_node) (get_temp_path (uuid sample_env) (root sample_env)) = None"
    by (simp add: pushing_node_def sample_node_def empty_fs_def)
  let ?e = "\<lparr>entry_log_id = \<lparr>li_term = 1, li_node = 1, li_index = 1\<rparr>, payload = Normal (Transaction (last (submitted n')))\<rparr>"
  have e: "commits ?e (last (submitted n'))" by (simp add: commits_def)
  obtain as where as: "submitted n' = submitted pushing_node @ [as]" "\<forall>t. \<exists>s. apply_actions as t = Some s"
    using manifest_put_effects [OF sample_env_hash sample_codec_ok run free] unfolding Let_def by blast
  then have ok: "\<exists>s. apply_actions (last (submitted n')) t = Some s" for t by simp
  have "node_store n' = node_store pushing_node" using manifest_put_store [OF sample_env_hash run] .
  then have "gone (node_store n') = {}" by (simp add: pushing_node_def foreign_store_def new_store_def)
  with commit_applies [OF e] ok obtain st rs where st: "apply_to_state_machine [?e] (node_store n') = Some (st, rs)"
    by blast
  have io: "env_io sample_env op" for op by simp
  have disk: "same_disk sample_env sample_env" by (simp add: same_disk_def)
  have pull: "has_permission admin_token ?r ''pull''" by (simp add: has_permission_def admin_token_def)
  from push_then_pull [OF sample_env_hash sample_codec_ok run free e st disk io pull, of 0 id]
  obtain n2 h2 where "manifest_get_by_tag sample_env admin_token ?r ''latest'' 0 id (n'\<lparr>node_store := st\<rparr>) = (n2, Some (Inr h2))"
      "body_bytes (node_fs n2) h2 = Some ''{}''" by auto
  with run st show ?thesis by blast
qed

section \<open>Replication\<close>

text \<open>
  C12. A copy is replicated. If the holder answers the request of the mirror, and the body arrives
  complete at a node that has to fetch the blob and whose I/O works, then the transfer succeeds, the
  node's file holds the very bytes of the holder's file, and applying the action it reports lists the
  node, beside the other holders.
\<close>

theorem blob_replicates:
  assumes "hash_ok E1" and "files_ok E1 (node_fs n1)" and "hex_digest d"
    and "peer_get_blob E1 d n1 = (n1', Some (Inr h))"
    and "sha256 E2 = sha256 E1" and "hexlower E2 = hexlower E1" and "\<And>op. env_io E2 op"
    and "layout_ok E2 (node_fs n2)" and "plain (uuid E2)"
    and "get_temp_mirror_path (uuid E2) (root E2) \<notin> dirs (node_fs n2)"
    and "get_blob (node_store n2) d = Some row" and "wanted (node_id n2) row"
    and "source_urls (Mirror_Blob d) row (node_store n2) \<noteq> []"
    and "fetch N (pick_url N (source_urls (Mirror_Blob d) row (node_store n2))) = Some (status h, bs)"
    and "None \<notin> set bs" and "body_bytes (node_fs n1') h = Some (concat (map the bs))"
  shows "\<exists>n2' a s' row'. do_transfer E2 N (Mirror_Blob d) n2 = (n2', Some (Success (Mirror_Blob d) a)) \<and>
    files (node_fs n2') (blob_file (root E2) d) = files (node_fs n1) (blob_file (root E1) d) \<and>
    apply_action a (sm_db (node_store n2)) = Some s' \<and> tx_get_blob s' d = Some row' \<and>
    locations row' = insert (node_id n2) (locations row)"
proof -
  let ?q = "Mirror_Blob d" and ?b = "concat (map the bs)"
  obtain row1 where send: "send_blob E1 d row1 n1 = (n1', Some (Inr h))"
    using assms(4) by (auto simp: peer_get_blob_def split: option.splits if_splits)
  note S = send_blob_success [OF assms(3) send]
  have b: "files (node_fs n1) (blob_file (root E1) d) = Some ?b" using S assms(16) by (auto simp: body_bytes_def)
  then have "content_digest E1 ?b = d" using assms(2,3) by (simp add: files_ok_def)
  then have dig: "content_digest E2 ?b = request_digest ?q" using assms(5,6) by (simp add: content_digest_def)
  have h2: "hash_ok E2" using assms(1,5,6) by (simp add: hash_ok_def)
  have r: "request_row ?q (node_store n2) = Some row" "node_id n2 \<notin> locations row" "locations row \<noteq> {}"
    using assms(11,12) by (auto simp: wanted_def)
  have fetched: "fetch N (pick_url N (source_urls ?q row (node_store n2))) = Some (200, bs)" using assms(14) S by simp
  have ok: "snd (do_transfer E2 N ?q n2) = Some (mirror_success (clock E2 0) (node_id n2) ?q)"
    by (rule do_transfer_complete [OF h2 assms(7-10) r assms(13) fetched assms(15) dig])
  then obtain n2' where run: "do_transfer E2 N ?q n2 = (n2', Some (mirror_success (clock E2 0) (node_id n2) ?q))"
    by (metis prod.collapse)
  from run have "files (node_fs n2') (blob_file (root E2) d) = Some ?b"
  proof (cases rule: do_transfer_cases)
    case idle
    from idle(2) [of ?q "BlobStored (clock E2 0) d (node_id n2) ''$internal''"] show ?thesis by simp
  next
    case (fetched row' bs')
    then have "bs' = bs" using assms(14) r by simp
    from h2 fetched(5) obtain f where "n2' = n2\<lparr>node_fs := f\<rparr>" "mirrored E2 ?q ?b (node_fs n2) f"
      unfolding \<open>bs' = bs\<close> by (cases rule: store_download_cases) auto
    then show ?thesis by (simp add: mirrored_def)
  qed
  then show ?thesis
    using run b mirror_action_effect [of "clock E2 0" "node_id n2" ?q ?q _ "node_store n2" row] r(1)
    by (auto simp: get_blob_tx)
qed

text \<open>Node 1 serves its blob, node 2 fetches it.\<close>

definition replica_node :: node where
  "replica_node = sample_node\<lparr>node_store := new_store 2 (empty_db\<lparr>blobs := [(a64, served_row)],
     db_last_membership := Some \<lparr>sm_log_id = None, sm_membership = Membership [{1, 2}] [(1, ''h:1'')]\<rparr>\<rparr>)\<rparr>"

theorem blob_replicates_witness:
  "\<exists>n2' a. do_transfer sample_env sample_net (Mirror_Blob a64) replica_node =
      (n2', Some (Success (Mirror_Blob a64) a)) \<and> files (node_fs n2') (blob_file [''var''] a64) = Some ''abc''"
proof -
  have ok: "files_ok sample_env (node_fs serving_node)"
    using object_path_inj [OF _ a64_hex, of _ "''blobs''" "[''var'']"]
      object_path_kinds [of "''manifests''" "''blobs''" "[''var'']"]
    by (auto simp: files_ok_def serving_node_def)
  have io: "env_io sample_env op" for op by simp
  have "dirs_free sample_env ''blobs'' a64 (node_fs serving_node)"
    using take_object_path by (simp add: dirs_free_def serving_node_def)
  then obtain n1 h where send: "send_blob sample_env a64 served_row serving_node = (n1, Some (Inr h))"
      "status h = 200" "body_bytes (node_fs n1) h = Some ''abc''"
    using send_blob_in_place [OF a64_hex io, of serving_node "''abc''" served_row]
    by (auto simp: serving_node_def served_row_def orphan_row_def)
  have peer: "peer_get_blob sample_env a64 serving_node = (n1, Some (Inr h))"
    using send(1) by (simp add: peer_get_blob_def get_blob_def serving_node_def new_store_def node_id_def
        served_row_def orphan_row_def)
  have temp: "get_temp_mirror_path ''u'' [''var''] = [''var'', ''uploads'', ''mirror-u'']"
    by (simp add: mirror_path_shape plain_def)
  have row: "get_blob (node_store replica_node) a64 = Some served_row" "wanted (node_id replica_node) served_row"
    by (simp_all add: replica_node_def get_blob_def new_store_def node_id_def wanted_def served_row_def orphan_row_def)
  have urls: "source_urls (Mirror_Blob a64) served_row (node_store replica_node) \<noteq> []"
    by (simp add: replica_node_def source_urls_def new_store_def get_last_membership_def served_row_def orphan_row_def)
  have "layout_ok sample_env (node_fs replica_node)" "plain (uuid sample_env)"
      "get_temp_mirror_path (uuid sample_env) (root sample_env) \<notin> dirs (node_fs replica_node)"
    using sample_layout temp by (simp_all add: replica_node_def sample_node_def plain_def, simp add: empty_fs_def)
  from blob_replicates [OF sample_env_hash ok a64_hex peer refl refl io this row urls,
      where bs = "[Some ''abc'']" and N = sample_net]
  show ?thesis using send by (auto simp: sample_net_def serving_node_def)
qed

section \<open>Deletion\<close>

text \<open>
  C23. A deleted blob is gone from the repository on every node. After a delete was answered with
  success, any replica that has applied the transaction it handed to raft answers a read of the blob
  in that repository with 404, whatever else it holds; in every other repository the blob stays
  mounted exactly where it was.
\<close>

theorem deleted_blob_not_served:
  assumes "blob_delete E tok r d n = (n', Some (Inr h))" and "commits e (last (submitted n'))"
    and "apply_to_state_machine [e] st = Some (st', rs)" and "node_store m = st'" and "has_permission tok' r ''pull''"
  shows "blob_get E' tok' r d w resume m = (m, Some (Inl BlobNotFound)) \<and>
    (\<forall>r2. r2 \<noteq> r \<longrightarrow> (\<exists>b. get_blob st' d = Some b \<and> r2 \<in> repositories b) \<longleftrightarrow>
       (\<exists>b. get_blob st d = Some b \<and> r2 \<in> repositories b))"
proof -
  let ?a = "BlobUnmounted (clock E 0) d r (sub tok)"
  have "submitted n' = submitted n @ [[?a]]"
    using assms(1) by (auto simp: blob_delete_def write_node_def unauthorized_def split: option.splits if_splits bool.splits)
  then have "commits e [?a]" using assms(2) by simp
  from committed(1) [OF this assms(3)]
  have "sm_db st' = apply_blob_unmounted (clock E 0) d r (set_last_applied_log_tx (entry_log_id e) (sm_db st))"
    by (simp add: apply_actions_def)
  then have row: "get_blob st' d = map_option (\<lambda>b. b\<lparr>updated := clock E 0, repositories := repositories b - {r}\<rparr>) (get_blob st d)"
    by (simp add: get_blob_def apply_blob_unmounted_def tx_simps split: option.splits)
  have "validated_token tok'" using assms(5) by (simp add: has_permission_def split: if_splits)
  then show ?thesis using row assms(4,5) by (auto simp: blob_get_def split: option.splits)
qed

theorem deleted_blob_not_served_witness:
  "\<exists>n' h e st rs. blob_delete sample_env admin_token (RepositoryName ''r'') a64 serving_node = (n', Some (Inr h)) \<and>
     apply_to_state_machine [e] (node_store serving_node) = Some (st, rs) \<and>
     blob_get sample_env admin_token (RepositoryName ''r'') a64 0 id (serving_node\<lparr>node_store := st\<rparr>) =
       (serving_node\<lparr>node_store := st\<rparr>, Some (Inl BlobNotFound))"
proof -
  let ?r = "RepositoryName ''r''"
  let ?a = "BlobUnmounted (clock sample_env 0) a64 ?r (sub admin_token)"
  let ?e = "\<lparr>entry_log_id = \<lparr>li_term = 1, li_node = 1, li_index = 1\<rparr>, payload = Normal (Transaction [?a])\<rparr>"
  have perm: "has_permission admin_token ?r p" for p by (simp add: has_permission_def admin_token_def)
  have "get_blob (node_store serving_node) a64 = Some served_row" "?r \<in> repositories served_row" "validated_token admin_token"
    by (simp_all add: get_blob_def serving_node_def new_store_def served_row_def admin_token_def)
  then have "blob_delete sample_env admin_token ?r a64 serving_node =
      (serving_node\<lparr>submitted := submitted serving_node @ [[?a]]\<rparr>, Some (Inr (respond 202 [] Empty_Body)))"
    by (simp add: blob_delete_def perm write_node_def sample_consistent)
  then obtain n' h where del: "blob_delete sample_env admin_token ?r a64 serving_node = (n', Some (Inr h))"
      "submitted n' = submitted serving_node @ [[?a]]"
    by auto
  have e: "commits ?e (last (submitted n'))" by (simp add: commits_def del(2))
  have "commits ?e [?a]" by (simp add: commits_def)
  then obtain st rs where st: "apply_to_state_machine [?e] (node_store serving_node) = Some (st, rs)"
    using commit_applies [of ?e "[?a]" "node_store serving_node"]
    by (auto simp: apply_actions_def serving_node_def new_store_def)
  have "blob_get sample_env admin_token ?r a64 0 id (serving_node\<lparr>node_store := st\<rparr>) =
      (serving_node\<lparr>node_store := st\<rparr>, Some (Inl BlobNotFound))"
    using deleted_blob_not_served [OF del(1) e st _ perm, of "serving_node\<lparr>node_store := st\<rparr>" sample_env 0 id] by simp
  with del(1) st show ?thesis by blast
qed

text \<open>
  C24. A deleted tag stays. After a delete of a manifest by its tag was answered with success and the node has
  applied it, a read of the tag is answered with 404, but the tag is still there, as is every other tag: it
  still names the deleted manifest, and the list of tags still shows it.
\<close>

theorem deleted_tag_stays:
  assumes "manifest_delete_by_tag E tok r tag n = (n', Some (Inr h))" and "commits e (last (submitted n'))"
    and "apply_to_state_machine [e] (node_store n) = Some (st, rs)" and "has_permission tok' r ''pull''"
  shows "manifest_get_by_tag E' tok' r tag w resume (n\<lparr>node_store := st\<rparr>) =
      (n\<lparr>node_store := st\<rparr>, Some (Inl ManifestNotFound)) \<and>
    get_tag (sm_db st) r tag \<noteq> None \<and> get_tag (sm_db st) = get_tag (sm_db (node_store n)) \<and>
    get_tags ser r st = get_tags ser r (node_store n)"
proof -
  obtain d where d: "get_tag (sm_db (node_store n)) r tag = Some d" "unmount_manifest E tok r d n = (n', Some (Inr h))"
    using assms(1) by (auto simp: manifest_delete_by_tag_def unauthorized_def split: option.splits if_splits)
  let ?a = "ManifestUnmounted (clock E 0) d r (sub tok)"
  have "submitted n' = submitted n @ [[?a]]"
    using d(2) by (auto simp: unmount_manifest_def write_node_def split: option.splits if_splits bool.splits)
  then have "commits e [?a]" using assms(2) by simp
  from committed(1) [OF this assms(3)]
  have st: "sm_db st = apply_manifest_unmounted (clock E 0) d r (set_last_applied_log_tx (entry_log_id e) (sm_db (node_store n)))"
    by (simp add: apply_actions_def)
  then have tags: "tags (sm_db st) = tags (sm_db (node_store n))"
    by (simp add: manifest_arms_frame set_last_applied_log_tx_def)
  then have tag: "get_tag (sm_db st) = get_tag (sm_db (node_store n))" by (simp add: get_tag_def [abs_def])
  have row: "get_manifest st d = map_option (\<lambda>b. b\<lparr>updated := clock E 0, repositories := repositories b - {r}\<rparr>)
      (get_manifest (node_store n) d)"
    using st by (simp add: get_manifest_def apply_manifest_unmounted_def tx_simps split: option.splits)
  have "validated_token tok'" using assms(4) by (simp add: has_permission_def split: if_splits)
  then have "manifest_get_by_tag E' tok' r tag w resume (n\<lparr>node_store := st\<rparr>) =
      (n\<lparr>node_store := st\<rparr>, Some (Inl ManifestNotFound))"
    using assms(4) d(1) row by (auto simp: manifest_get_by_tag_def read_manifest_def tag split: option.splits)
  then show ?thesis using d(1) tag tags by (simp add: get_tags_def)
qed

definition tagged_node :: node where
  "tagged_node = serving_node\<lparr>node_store := new_store 1
     (empty_db\<lparr>manifests := [(a64, served_row)], tags := [(TagKey (RepositoryName ''r'') ''t'', a64)]\<rparr>)\<rparr>"

theorem deleted_tag_stays_witness:
  "\<exists>n' h e st rs. manifest_delete_by_tag sample_env admin_token (RepositoryName ''r'') ''t'' tagged_node = (n', Some (Inr h)) \<and>
     apply_to_state_machine [e] (node_store tagged_node) = Some (st, rs) \<and>
     manifest_get_by_tag sample_env admin_token (RepositoryName ''r'') ''t'' 0 id (tagged_node\<lparr>node_store := st\<rparr>) =
       (tagged_node\<lparr>node_store := st\<rparr>, Some (Inl ManifestNotFound)) \<and>
     get_tag (sm_db st) (RepositoryName ''r'') ''t'' \<noteq> None"
proof -
  let ?r = "RepositoryName ''r''"
  let ?a = "ManifestUnmounted (clock sample_env 0) a64 ?r (sub admin_token)"
  let ?e = "\<lparr>entry_log_id = \<lparr>li_term = 1, li_node = 1, li_index = 1\<rparr>, payload = Normal (Transaction [?a])\<rparr>"
  have perm: "has_permission admin_token ?r p" for p by (simp add: has_permission_def admin_token_def)
  have "get_manifest (node_store tagged_node) a64 = Some served_row" "?r \<in> repositories served_row"
      "validated_token admin_token" "get_tag (sm_db (node_store tagged_node)) ?r ''t'' = Some a64"
    by (simp_all add: get_manifest_def tagged_node_def new_store_def served_row_def admin_token_def get_tag_def)
  then have "manifest_delete_by_tag sample_env admin_token ?r ''t'' tagged_node =
      (tagged_node\<lparr>submitted := submitted tagged_node @ [[?a]]\<rparr>, Some (Inr (respond 202 [] Empty_Body)))"
    by (simp add: manifest_delete_by_tag_def unmount_manifest_def perm write_node_def sample_consistent)
  then obtain n' h where del: "manifest_delete_by_tag sample_env admin_token ?r ''t'' tagged_node = (n', Some (Inr h))"
      "submitted n' = submitted tagged_node @ [[?a]]"
    by auto
  have e: "commits ?e (last (submitted n'))" "commits ?e [?a]" by (simp_all add: commits_def del(2))
  then obtain st rs where st: "apply_to_state_machine [?e] (node_store tagged_node) = Some (st, rs)"
    using commit_applies [of ?e "[?a]" "node_store tagged_node"]
    by (auto simp: apply_actions_def tagged_node_def new_store_def)
  from deleted_tag_stays [OF del(1) e(1) st perm] del(1) st show ?thesis by blast
qed

end
